(* ===== verification/Prelude.thy ===== *)
theory Prelude
  imports Main "HOL-Library.Word" "HOL-Library.Monad_Syntax"
begin

text \<open>
  Shared vocabulary of the development: the names of the machine integer types the C++ code
  uses, the little-endian byte encodings that the emitter, the memory manager and the on-disk
  cache share, and generic facts on lists and words.  Undefined behaviour of the C++ program
  (an array index out of range, a signed overflow, a dereference of an unmapped address) is
  the value \<^const>\<open>None\<close> of an option type everywhere in the development.
\<close>

unbundle bit_operations_syntax

type_synonym u8 = "8 word"
type_synonym u16 = "16 word"
type_synonym u32 = "32 word"
type_synonym u64 = "64 word"
type_synonym i32 = "32 word"
type_synonym i64 = "64 word"

text \<open>The collection \<open>le_simps\<close> carries the facts on byte encodings.\<close>

named_theorems le_simps

subsection \<open>Statement sequences\<close>

text \<open>A sequence of C++ statements on one object is the list of its state transformers, run
  from left to right.\<close>

primrec seq :: "('s \<Rightarrow> 's) list \<Rightarrow> 's \<Rightarrow> 's" where
  "seq [] s = s"
| "seq (f # fs) s = seq fs (f s)"

lemma seq_append [simp]: "seq (fs @ gs) s = seq gs (seq fs s)"
  by (induction fs arbitrary: s) simp_all

subsection \<open>Little-endian encodings\<close>

definition le_bytes :: "nat \<Rightarrow> 'a::len word \<Rightarrow> u8 list" where
  "le_bytes n w = map (\<lambda>i. ucast (drop_bit (8 * i) w)) [0..<n]"

definition le_word :: "u8 list \<Rightarrow> 'a::len word" where
  "le_word bs = foldr (\<lambda>b acc. push_bit 8 acc OR ucast b) bs 0"

lemma length_le_bytes [simp]: "length (le_bytes n w) = n"
  by (simp add: le_bytes_def)

lemma nth_le_bytes [simp]: "i < n \<Longrightarrow> le_bytes n w ! i = ucast (drop_bit (8 * i) w)"
  by (simp add: le_bytes_def)

lemma le_word_Nil [simp]: "le_word [] = 0"
  by (simp add: le_word_def)

lemma le_word_Cons: "le_word (b # bs) = push_bit 8 (le_word bs) OR ucast b"
  by (simp add: le_word_def)

lemma bit_le_word:
  "bit (le_word bs :: 'a::len word) n \<longleftrightarrow>
     n < LENGTH('a) \<and> n div 8 < length bs \<and> bit (bs ! (n div 8)) (n mod 8)"
proof (induction bs arbitrary: n)
  case Nil
  then show ?case by simp
next
  case (Cons b bs)
  show ?case
  proof (cases "n < 8")
    case True
    then show ?thesis by (auto simp: le_word_Cons bit_simps)
  next
    case False
    then obtain m where m: "n = 8 + m" by (metis le_add_diff_inverse not_less)
    have "\<not> bit b n" using False bit_imp_le_length [of b n] by auto
    moreover from m have "n div 8 = Suc (m div 8)" and "n mod 8 = m mod 8" by simp_all
    ultimately show ?thesis using m by (auto simp: le_word_Cons bit_simps Cons.IH)
  qed
qed

lemma le_word_le_bytes [le_simps]:
  "LENGTH('a) \<le> 8 * n \<Longrightarrow> le_word (le_bytes n w) = (w :: 'a::len word)"
  by (rule bit_word_eqI) (auto simp: bit_le_word bit_simps less_mult_imp_div_less mult.commute)

lemma le_bytes_le_word [le_simps]:
  "8 * length bs \<le> LENGTH('a) \<Longrightarrow> le_bytes (length bs) (le_word bs :: 'a::len word) = bs"
  by (rule nth_equalityI) (auto intro!: bit_word_eqI simp: bit_le_word bit_simps)

text \<open>A value of a narrow type read back at a wider one is its zero extension.\<close>

lemma le_word_ucast [le_simps]:
  "le_word (le_bytes n w) = (ucast (w :: 'a::len word) :: 'b::len word)"
  if "LENGTH('a) \<le> 8 * n"
proof (rule bit_word_eqI)
  fix i assume i: "i < LENGTH('b)"
  show "bit (le_word (le_bytes n w) :: 'b word) i \<longleftrightarrow> bit (ucast w :: 'b word) i"
  proof (cases "i < LENGTH('a)")
    case True
    with that have "i div 8 < n" by linarith
    with i show ?thesis by (simp add: bit_le_word bit_simps)
  next
    case False
    then have "\<not> bit w i" using bit_imp_le_length by blast
    with i show ?thesis by (auto simp: bit_le_word bit_simps)
  qed
qed

subsection \<open>Words as indices\<close>

lemma unat_eq_iff [simp]: "unat a = unat b \<longleftrightarrow> a = b" for a b :: "'a::len word"
  by (rule word_unat_eq_iff [symmetric])

lemma uint_less_numeral_iff: "uint a < numeral k \<longleftrightarrow> unat a < numeral k" for a :: "'a::len word"
  using of_nat_less_iff [of "unat a" "numeral k", where 'a = int] by simp

subsection \<open>Words as bit vectors\<close>

lemma word_eq_iff_bits: "x = y \<longleftrightarrow> (\<forall>n<LENGTH('a). bit x n = bit y n)" for x y :: "'a::len word"
  by (auto intro: bit_word_eqI)

lemma all_less_numeral: "(\<forall>k<numeral n. P k) \<longleftrightarrow> P (pred_numeral n) \<and> (\<forall>k<pred_numeral n. P k)"
  by (auto simp: numeral_eq_Suc less_Suc_eq)

lemma all_pos_False [simp]: "All ((<) (0 :: nat)) \<longleftrightarrow> False"
  by auto

lemma sint_push_bit_scast:
  fixes w :: "'a::len word"
  assumes "LENGTH('a) + k \<le> LENGTH('b)"
  shows "sint (push_bit k (scast w :: 'b::len word)) = 2 ^ k * sint w"
proof -
  have "push_bit k (scast w :: 'b word) = word_of_int (2 ^ k * sint w)"
    by (simp add: push_bit_eq_mult mult.commute)
  then have 1: "sint (push_bit k (scast w :: 'b word)) = signed_take_bit (LENGTH('b) - 1) (2 ^ k * sint w)"
    by (simp only: signed_of_int of_int_eq_id id_apply One_nat_def)
  have "- (2 ^ (LENGTH('a) - 1)) \<le> sint w" "sint w < 2 ^ (LENGTH('a) - 1)"
    using sint_greater_eq [of w] sint_less [of w] by auto
  then have "- (2 ^ (k + (LENGTH('a) - 1))) \<le> 2 ^ k * sint w" "2 ^ k * sint w < 2 ^ (k + (LENGTH('a) - 1))"
    unfolding power_add by (simp_all flip: mult_minus_right)
  moreover have "(2::int) ^ (k + (LENGTH('a) - 1)) \<le> 2 ^ (LENGTH('b) - 1)"
    using assms len_gt_0 [where 'a = 'a] by (intro power_increasing) linarith+
  ultimately show ?thesis unfolding 1 by (intro signed_take_bit_int_eq_self) linarith+
qed

end
