(* ===== verification/Decoder.thy ===== *)
theory Decoder
  imports Prelude
begin

text \<open>
  The ARM64 instruction decoder (\<^verbatim>\<open>src/src/decoder/arm64_decoder.hpp\<close> and \<^verbatim>\<open>.cpp\<close>).  The C++
  decoders fill an output structure and return whether they recognised the word; here each
  takes the structure and returns the Boolean with the updated structure, so that what a
  failed sub-decoder leaves behind in the structure is part of the model.
\<close>

section \<open>Decoded instructions\<close>

datatype InstrCategory =
    CAT_UNKNOWN | INTEGER_ARITH | LOGICAL | SHIFT | BRANCH | BRANCH_COND | LOAD_STORE
  | LOAD_STORE_PAIR | LOAD_EXCLUSIVE | COMPARE | MOVE | EXTEND | BITFIELD | SYSTEM
  | SIMD_FP | CAT_SYSCALL

record DecodedInstr =
  d_raw :: u32
  d_category :: InstrCategory
  d_opcode :: u8
  d_rd :: u8
  d_rn :: u8
  d_rm :: u8
  d_rt :: u8
  d_imm :: u64
  d_imm_s :: i64
  d_shift_type :: u8
  d_shift_amount :: u8
  d_size :: u8
  d_cond :: u8
  d_sets_flags :: bool
  d_is_pc_relative :: bool
  d_branch_offset :: u32
  d_q :: u8
  d_vd :: u8

text \<open>The structure after \<open>memset(&out, 0, sizeof(out))\<close>; enumerator 0 is \<open>UNKNOWN\<close>.\<close>

definition DecodedInstr_zero :: DecodedInstr where
  "DecodedInstr_zero =
     \<lparr>d_raw = 0, d_category = CAT_UNKNOWN, d_opcode = 0, d_rd = 0, d_rn = 0, d_rm = 0, d_rt = 0,
      d_imm = 0, d_imm_s = 0, d_shift_type = 0, d_shift_amount = 0, d_size = 0, d_cond = 0,
      d_sets_flags = False, d_is_pc_relative = False, d_branch_offset = 0, d_q = 0, d_vd = 0\<rparr>"

subsection \<open>Bit fields and sign extension\<close>

definition bits :: "u32 \<Rightarrow> nat \<Rightarrow> nat \<Rightarrow> u32" where
  "bits val hi lo = drop_bit lo val AND (push_bit (hi - lo + 1) 1 - 1)"

definition sign_extend :: "u64 \<Rightarrow> nat \<Rightarrow> i32" where
  "sign_extend val width =
     (let mask = push_bit width 1 - 1;
          result = val AND mask;
          result = (if result AND push_bit (width - 1) 1 \<noteq> 0 then result OR NOT mask else result)
      in ucast result)"

section \<open>The category decoders\<close>

definition decode_data_proc_reg :: "u32 \<Rightarrow> DecodedInstr \<Rightarrow> bool \<times> DecodedInstr" where
  "decode_data_proc_reg instr out =
    (let sf = bits instr 31 31;
         out = out\<lparr>d_size := ucast sf\<rparr>;
         op = bits instr 30 21;
         ands_op = bits instr 30 29;
         ands_op2 = bits instr 28 24
     in
     if op = 0x02C \<or> op = 0x2AC then
       (True, out\<lparr>d_category := INTEGER_ARITH, d_opcode := 0x00,
          d_rd := ucast (bits instr 4 0), d_rn := ucast (bits instr 9 5),
          d_rm := ucast (bits instr 20 16), d_shift_type := ucast (bits instr 23 22),
          d_shift_amount := ucast (bits instr 15 10),
          d_sets_flags := (bits instr 31 29 AND 0x1 \<noteq> 0)\<rparr>)
     else if op = 0x034 \<or> op = 0x234 then
       (True, out\<lparr>d_category := INTEGER_ARITH, d_opcode := 0x01,
          d_rd := ucast (bits instr 4 0), d_rn := ucast (bits instr 9 5),
          d_rm := ucast (bits instr 20 16), d_shift_type := ucast (bits instr 23 22),
          d_shift_amount := ucast (bits instr 15 10),
          d_sets_flags := (bits instr 31 29 AND 0x1 \<noteq> 0)\<rparr>)
     else if (ands_op = 0b00 \<or> ands_op = 0b01 \<or> ands_op = 0b10) \<and>
             (ands_op2 = 0b00000 \<or> ands_op2 = 0b00001 \<or> ands_op2 = 0b00010 \<or> ands_op2 = 0b00011 \<or>
              ands_op2 = 0b01000 \<or> ands_op2 = 0b01001 \<or> ands_op2 = 0b01010 \<or> ands_op2 = 0b01011) then
       (let combined = push_bit 5 ands_op OR ands_op2;
            opcode = (if combined = 0b0000000 then 0x10
                      else if combined = 0b0000001 then 0x11
                      else if combined = 0b0101010 then 0x12
                      else if combined = 0b0101011 then 0x13
                      else if combined = 0b1001000 then 0x14
                      else if combined = 0b1001001 then 0x15
                      else if combined = 0b0001010 then 0x16
                      else if combined = 0b0001011 then 0x17
                      else 0x10)
        in (True, out\<lparr>d_category := LOGICAL,
              d_rd := ucast (bits instr 4 0), d_rn := ucast (bits instr 9 5),
              d_rm := ucast (bits instr 20 16), d_shift_type := ucast (bits instr 23 22),
              d_shift_amount := ucast (bits instr 15 10), d_opcode := opcode,
              d_sets_flags := (opcode = 0x16 \<or> opcode = 0x17)\<rparr>))
     else if bits instr 30 21 = 0x2A0 \<and> bits instr 9 5 = 31 then
       (True, out\<lparr>d_category := MOVE, d_opcode := 0x20, d_rd := ucast (bits instr 4 0),
          d_rn := 31, d_rm := ucast (bits instr 20 16)\<rparr>)
     else if bits instr 30 21 = 0x1B0 then
       (True, out\<lparr>d_category := INTEGER_ARITH, d_rd := ucast (bits instr 4 0),
          d_rn := ucast (bits instr 9 5), d_rm := ucast (bits instr 20 16),
          d_opcode := (if bits instr 15 10 = 31 then 0x02 else 0x03)\<rparr>)
     else if bits instr 30 21 = 0x1AC then
       (True, out\<lparr>d_category := INTEGER_ARITH, d_rd := ucast (bits instr 4 0),
          d_rn := ucast (bits instr 9 5), d_rm := ucast (bits instr 20 16),
          d_opcode := (if bits instr 11 10 = 1 then 0x05 else 0x04)\<rparr>)
     else if bits instr 30 22 = 0x0D3 then
       (True, out\<lparr>d_category := SHIFT, d_rd := ucast (bits instr 4 0),
          d_rn := ucast (bits instr 9 5), d_rm := ucast (bits instr 20 16),
          d_opcode := ucast (bits instr 23 22)\<rparr>)
     else if bits instr 30 21 = 0x2B0 \<and> bits instr 4 0 = 31 then
       (True, out\<lparr>d_category := COMPARE, d_opcode := 0x30, d_rn := ucast (bits instr 9 5),
          d_rm := ucast (bits instr 20 16), d_sets_flags := True\<rparr>)
     else if bits instr 30 21 = 0x2A0 \<and> bits instr 4 0 = 31 \<and> bits instr 28 24 = 0b01010 then
       (True, out\<lparr>d_category := COMPARE, d_opcode := 0x31, d_rn := ucast (bits instr 9 5),
          d_rm := ucast (bits instr 20 16), d_sets_flags := True\<rparr>)
     else if bits instr 30 24 = 0x1A8 then
       (True, out\<lparr>d_category := BRANCH_COND, d_opcode := 0x40, d_rd := ucast (bits instr 4 0),
          d_rn := ucast (bits instr 9 5), d_rm := ucast (bits instr 20 16),
          d_cond := ucast (bits instr 15 12)\<rparr>)
     else (False, out\<lparr>d_category := CAT_UNKNOWN\<rparr>))"

definition decode_data_proc_imm :: "u32 \<Rightarrow> DecodedInstr \<Rightarrow> bool \<times> DecodedInstr" where
  "decode_data_proc_imm instr out =
    (let sf = bits instr 31 31;
         out = out\<lparr>d_size := ucast sf\<rparr>;
         opc = bits instr 30 29
     in
     if bits instr 30 24 = 0b0010001 \<or> bits instr 30 24 = 0b0110001 then
       (let imm = ucast (bits instr 21 10)
        in (True, out\<lparr>d_category := INTEGER_ARITH, d_opcode := 0x00,
              d_rd := ucast (bits instr 4 0), d_rn := ucast (bits instr 9 5), d_rm := 0xFF,
              d_imm := (if bits instr 22 22 \<noteq> 0 then push_bit 12 imm else imm),
              d_sets_flags := (bits instr 30 30 \<noteq> 0)\<rparr>))
     else if bits instr 30 24 = 0b1010001 \<or> bits instr 30 24 = 0b1110001 then
       (let imm = ucast (bits instr 21 10)
        in (True, out\<lparr>d_category := INTEGER_ARITH, d_opcode := 0x01,
              d_rd := ucast (bits instr 4 0), d_rn := ucast (bits instr 9 5), d_rm := 0xFF,
              d_imm := (if bits instr 22 22 \<noteq> 0 then push_bit 12 imm else imm),
              d_sets_flags := (bits instr 30 30 \<noteq> 0)\<rparr>))
     else if bits instr 28 23 = 0b100110 \<or> bits instr 28 23 = 0b100111 then
       (let immr = bits instr 21 16;
            imms = bits instr 15 10;
            is_sbfm = (bits instr 28 23 = 0b100110);
            out = out\<lparr>d_category := INTEGER_ARITH, d_rd := ucast (bits instr 4 0),
                      d_rn := ucast (bits instr 9 5), d_rm := 0xFF\<rparr>
        in if is_sbfm \<and> imms = 63 then
             (True, out\<lparr>d_opcode := 0x04, d_imm := ucast immr\<rparr>)
           else if \<not> is_sbfm \<and> imms = 63 then
             (True, out\<lparr>d_opcode := 0x05, d_imm := ucast immr\<rparr>)
           else if \<not> is_sbfm \<and> imms = 63 - immr then
             (True, out\<lparr>d_opcode := 0x06, d_imm := ucast immr\<rparr>)
           else
             (True, out\<lparr>d_opcode := (if is_sbfm then 0x07 else 0x08), d_imm := ucast immr,
                        d_imm_s := ucast imms\<rparr>))
     else if bits instr 28 23 = 0x25 then
       (True, out\<lparr>d_category := MOVE, d_rd := ucast (bits instr 4 0),
          d_imm := ucast (bits instr 20 5),
          d_opcode := (if opc = 0b00 then 0x21 else if opc = 0b10 then 0x22
                       else if opc = 0b11 then 0x23 else d_opcode out)\<rparr>)
     else (False, out\<lparr>d_category := CAT_UNKNOWN\<rparr>))"

definition decode_branch :: "u32 \<Rightarrow> DecodedInstr \<Rightarrow> bool \<times> DecodedInstr" where
  "decode_branch instr out =
    (if bits instr 31 26 = 0b000101 then
       (True, out\<lparr>d_category := BRANCH, d_opcode := 0x50,
          d_branch_offset := push_bit 2 (sign_extend (ucast instr) 26)\<rparr>)
     else if bits instr 31 26 = 0b100101 then
       (True, out\<lparr>d_category := BRANCH, d_opcode := 0x51,
          d_branch_offset := push_bit 2 (sign_extend (ucast instr) 26)\<rparr>)
     else if bits instr 31 26 = 0b110101 \<and> bits instr 15 10 = 0 \<and> bits instr 4 0 = 0 then
       (if bits instr 9 5 = 30
        then (True, out\<lparr>d_category := BRANCH, d_opcode := 0x53, d_rn := 30\<rparr>)
        else (True, out\<lparr>d_category := BRANCH, d_opcode := 0x52, d_rn := ucast (bits instr 9 5)\<rparr>))
     else if bits instr 31 25 = 0b0101010 then
       (True, out\<lparr>d_category := BRANCH_COND, d_opcode := 0x54, d_cond := ucast (bits instr 3 0),
          d_branch_offset := push_bit 2 (sign_extend (ucast instr) 19)\<rparr>)
     else if bits instr 31 25 = 0b0011010 \<or> bits instr 31 25 = 0b1011010 then
       (True, out\<lparr>d_category := BRANCH_COND,
          d_opcode := (if bits instr 24 24 \<noteq> 0 then 0x56 else 0x55),
          d_rn := ucast (bits instr 9 5), d_size := ucast (bits instr 31 31),
          d_branch_offset := push_bit 2 (sign_extend (ucast instr) 19)\<rparr>)
     else (False, out\<lparr>d_category := CAT_UNKNOWN\<rparr>))"

text \<open>The opcode chosen from the access size and the load bit, written out four times in the
  source.\<close>

definition load_store_opcode :: "u32 \<Rightarrow> bool \<Rightarrow> u8" where
  "load_store_opcode opc is_load =
    (if is_load then
       (if opc = 0b11 then 0x63 else if opc = 0b10 then 0x62 else if opc = 0b01 then 0x61 else 0x60)
     else
       (if opc = 0b11 then 0x73 else if opc = 0b10 then 0x72 else if opc = 0b01 then 0x71 else 0x70))"

definition decode_load_store :: "u32 \<Rightarrow> DecodedInstr \<Rightarrow> bool \<times> DecodedInstr" where
  "decode_load_store instr out =
    (let opc = bits instr 31 30;
         b28_26 = bits instr 28 26;
         is_load = (bits instr 22 22 \<noteq> 0)
     in
     if b28_26 = 0b111 then
       (True, out\<lparr>d_category := LOAD_STORE, d_rt := ucast (bits instr 4 0),
          d_rn := ucast (bits instr 9 5),
          d_imm := ucast (push_bit (unat opc) (bits instr 21 10)),
          d_opcode := load_store_opcode opc is_load\<rparr>)
     else if b28_26 = 0b010 then
       (True, out\<lparr>d_category := LOAD_STORE, d_rt := ucast (bits instr 4 0),
          d_rn := ucast (bits instr 9 5), d_rm := ucast (bits instr 20 16),
          d_shift_type := ucast (bits instr 13 12), d_imm := 0,
          d_opcode := load_store_opcode opc is_load\<rparr>)
     else if b28_26 = 0b011 then
       (let imm9 = sign_extend (ucast (bits instr 20 12)) 9
        in (True, out\<lparr>d_category := LOAD_STORE, d_rt := ucast (bits instr 4 0),
              d_rn := ucast (bits instr 9 5), d_rm := 255,
              d_imm_s := scast imm9, d_imm := scast imm9,
              d_opcode := load_store_opcode opc is_load\<rparr>))
     else if b28_26 = 0b110 then
       (True, out\<lparr>d_category := LOAD_STORE, d_rt := ucast (bits instr 4 0),
          d_rn := ucast (bits instr 9 5), d_rm := ucast (bits instr 20 16),
          d_shift_type := ucast (bits instr 13 12), d_imm := 0,
          d_opcode := load_store_opcode opc is_load\<rparr>)
     else if bits instr 31 25 = 0b0010100 then
       (let imm = ucast (bits instr 21 15)
        in (True, out\<lparr>d_category := LOAD_STORE_PAIR, d_rt := ucast (bits instr 4 0),
              d_rn := ucast (bits instr 9 5), d_rm := ucast (bits instr 14 10),
              d_imm := imm, d_imm_s := push_bit 3 (scast (sign_extend imm 7)),
              d_opcode := (if is_load then 0x80 else 0x81)\<rparr>))
     else (False, out\<lparr>d_category := CAT_UNKNOWN\<rparr>))"

definition decode_system :: "u32 \<Rightarrow> DecodedInstr \<Rightarrow> bool \<times> DecodedInstr" where
  "decode_system instr out =
    (if instr = 0xD503201F then
       (True, out\<lparr>d_category := SYSTEM, d_opcode := 0x90\<rparr>)
     else if bits instr 31 22 = 0b1101010100 then
       (let op1 = bits instr 11 8
        in (True, out\<lparr>d_category := SYSTEM,
              d_opcode := (if op1 = 0b0101 then 0x91 else if op1 = 0b0110 then 0x92
                           else if op1 = 0b0111 then 0x93 else if op1 = 0b0000 then 0x94
                           else if op1 = 0b0001 then 0x95 else 0x90),
              d_rd := ucast (bits instr 4 0)\<rparr>))
     else (False, out\<lparr>d_category := CAT_UNKNOWN\<rparr>))"

definition is_adrp_byte :: "u32 \<Rightarrow> bool" where
  "is_adrp_byte b \<longleftrightarrow> b = 0b10010000 \<or> b = 0b10110000 \<or> b = 0b11010000 \<or> b = 0b11110000"

definition pcrel_imm21 :: "u32 \<Rightarrow> u64" where
  "pcrel_imm21 instr = ucast (push_bit 2 (bits instr 23 5) OR bits instr 30 29)"

definition decode_pcrel :: "u32 \<Rightarrow> DecodedInstr \<Rightarrow> bool \<times> DecodedInstr" where
  "decode_pcrel instr out =
    (if bits instr 31 24 = 0b00010000 then
       (let imm_s = scast (sign_extend (pcrel_imm21 instr) 21)
        in (True, out\<lparr>d_category := MOVE, d_opcode := 0x24, d_rd := ucast (bits instr 4 0),
              d_imm_s := imm_s, d_imm := imm_s, d_is_pc_relative := True\<rparr>))
     else if is_adrp_byte (bits instr 31 24) then
       (let imm_s = scast (sign_extend (pcrel_imm21 instr) 21)
        in (True, out\<lparr>d_category := MOVE, d_opcode := 0x25, d_rd := ucast (bits instr 4 0),
              d_imm_s := imm_s, d_imm := imm_s, d_is_pc_relative := True\<rparr>))
     else if is_adrp_byte (bits instr 31 24) then
       (let imm_s = scast (sign_extend (pcrel_imm21 instr) 21)
        in (True, out\<lparr>d_category := MOVE, d_opcode := 0x25, d_rd := ucast (bits instr 4 0),
              d_imm_s := imm_s, d_imm := imm_s, d_is_pc_relative := True\<rparr>))
     else if bits instr 31 26 = 0b010110 then
       (let out = out\<lparr>d_category := LOAD_STORE, d_rt := ucast (bits instr 4 0), d_rn := 31,
                     d_imm_s := scast (sign_extend (ucast (bits instr 23 5)) 19),
                     d_is_pc_relative := True\<rparr>;
            opc = bits instr 31 30
        in if opc = 0b00 then (True, out\<lparr>d_opcode := 0x62\<rparr>)
           else if opc = 0b01 then (True, out\<lparr>d_opcode := 0x63\<rparr>)
           else (True, out\<lparr>d_category := SIMD_FP\<rparr>))
     else (False, out\<lparr>d_category := CAT_UNKNOWN\<rparr>))"

definition decode_test_branch :: "u32 \<Rightarrow> DecodedInstr \<Rightarrow> bool \<times> DecodedInstr" where
  "decode_test_branch instr out =
    (let cond = ucast (bits instr 24 24)
     in (True, out\<lparr>d_category := BRANCH_COND, d_rn := ucast (bits instr 4 0),
           d_size := ucast (bits instr 31 31), d_cond := cond,
           d_opcode := (if cond \<noteq> 0 then 0x58 else 0x57),
           d_imm := ucast (bits instr 23 19),
           d_branch_offset := push_bit 2 (sign_extend (ucast (bits instr 18 5)) 14)\<rparr>))"

text \<open>The operand fields that every vector instruction but DUP shares.\<close>

definition simd_fields :: "u32 \<Rightarrow> u8 \<Rightarrow> DecodedInstr \<Rightarrow> DecodedInstr" where
  "simd_fields instr opcode out =
     out\<lparr>d_category := SIMD_FP, d_opcode := opcode, d_rd := ucast (bits instr 4 0),
         d_rn := ucast (bits instr 5 5), d_rm := ucast (bits instr 16 16),
         d_size := ucast (bits instr 23 22), d_q := ucast (bits instr 30 30)\<rparr>"

definition decode_simd :: "u32 \<Rightarrow> DecodedInstr \<Rightarrow> bool \<times> DecodedInstr" where
  "decode_simd instr out =
    (let b31_24 = bits instr 31 24 in
     if b31_24 = 0x4E \<and> bits instr 20 16 = 0 \<and> bits instr 14 10 = 0 then
       (True, out\<lparr>d_category := SIMD_FP, d_opcode := 0xA0, d_rd := ucast (bits instr 4 0),
          d_rn := ucast (bits instr 5 5), d_rm := ucast (bits instr 9 5),
          d_size := ucast (bits instr 23 22), d_q := ucast (bits instr 30 30)\<rparr>)
     else if b31_24 = 0x4E \<and> bits instr 20 16 = 0x10 \<and> bits instr 14 10 = 0x10 then
       (True, simd_fields instr 0xA1 out)
     else if b31_24 = 0x4E \<and> bits instr 20 16 = 0x10 \<and> bits instr 14 10 = 0x12 then
       (True, simd_fields instr 0xA2 out)
     else if b31_24 = 0x4E \<and> bits instr 20 16 = 0x10 \<and> bits instr 14 10 = 0x00 then
       (True, simd_fields instr 0xA3 out)
     else if b31_24 = 0x4E \<and> bits instr 20 16 = 0x10 \<and> bits instr 14 10 = 0x01 then
       (True, simd_fields instr 0xA4 out)
     else if b31_24 = 0x4E \<and> bits instr 20 16 = 0x10 \<and> bits instr 14 10 = 0x02 then
       (True, simd_fields instr 0xA5 out)
     else if b31_24 = 0x4E \<and> bits instr 20 16 = 0x10 \<and> bits instr 14 10 = 0x03 then
       (True, simd_fields instr 0xA6 out)
     else (False, out))"

section \<open>The top-level decoder\<close>

definition is_data_proc_class :: "u32 \<Rightarrow> bool" where
  "is_data_proc_class op28_24 \<longleftrightarrow>
     op28_24 \<le> 0b01011 \<or> op28_24 = 0b10000 \<or> op28_24 = 0b10001 \<or> op28_24 = 0b10010 \<or>
     op28_24 = 0b10011 \<or> op28_24 = 0b11000 \<or> op28_24 = 0b11001"

definition is_add_sub_imm :: "u32 \<Rightarrow> bool" where
  "is_add_sub_imm b30_24 \<longleftrightarrow>
     b30_24 = 0b0010001 \<or> b30_24 = 0b1010001 \<or> b30_24 = 0b0110001 \<or> b30_24 = 0b1110001"

text \<open>The tail of \<open>decode\<close>, reached when no earlier check returned.\<close>

definition decode_tail :: "u32 \<Rightarrow> DecodedInstr \<Rightarrow> bool \<times> DecodedInstr" where
  "decode_tail instr out =
    (let op1 = bits instr 31 29 in
     if op1 = 0b110 \<and> bits instr 28 23 = 0b100101 then decode_data_proc_imm instr out
     else if bits instr 31 25 = 0b1101010 then decode_system instr out
     else
       (let (ok, out) = (if op1 = 0b010 \<or> op1 = 0b011 then decode_simd instr out else (False, out))
        in if ok then (True, out) else (False, out\<lparr>d_category := CAT_UNKNOWN\<rparr>)))"

text \<open>The block for \<open>op1\<close> in 000, 010, 100, 110: three attempts, each falling through.\<close>

definition decode_even_group :: "u32 \<Rightarrow> DecodedInstr \<Rightarrow> bool \<times> DecodedInstr" where
  "decode_even_group instr out =
    (let (ok, out) = (if bits instr 28 23 = 0b100110 \<or> bits instr 28 23 = 0b100111
                      then decode_data_proc_imm instr out else (False, out));
         op = bits instr 30 29
     in if ok then (True, out)
        else let (ok, out) = (if op = 0b00 \<or> op = 0b01 then decode_data_proc_reg instr out
                              else (False, out))
             in if ok then (True, out)
                else if op = 0b10 then decode_data_proc_imm instr out else (False, out))"

definition decode :: "u32 \<Rightarrow> bool \<times> DecodedInstr" where
  "decode instr =
    (let out = DecodedInstr_zero\<lparr>d_raw := instr\<rparr>;
         op1 = bits instr 31 29;
         op25 = bits instr 31 25;
         op28_24 = bits instr 28 24
     in
     if bits instr 31 24 = 0b00010000 then decode_pcrel instr out
     else if is_adrp_byte (bits instr 31 24) then decode_pcrel instr out
     else if bits instr 31 26 = 0b010110 then decode_pcrel instr out
     else if op25 = 0b00110110 \<or> op25 = 0b00110111 then decode_test_branch instr out
     else if op1 = 0b101 \<and> is_add_sub_imm (bits instr 30 24) then decode_data_proc_imm instr out
     else if op1 = 0b101 \<and> is_data_proc_class op28_24 then decode_data_proc_reg instr out
     else if op1 = 0b101 then
       (let op2 = bits instr 31 29 in
        if op2 = 0b101 then decode_branch instr out
        else if bits instr 31 21 = 0b11010100001 then
          (True, out\<lparr>d_category := CAT_SYSCALL, d_opcode := ucast (bits instr 20 5),
                     d_imm := ucast (bits instr 20 5)\<rparr>)
        else decode_system instr out)
     else if bits instr 31 26 = 0b000101 \<or> bits instr 31 26 = 0b100101 then decode_branch instr out
     else
       (let (ok, out) = (if is_data_proc_class op28_24 \<and> op1 \<noteq> 0b101
                         then decode_data_proc_reg instr out else (False, out))
        in
        if ok then (True, out)
        else if bits instr 28 23 = 0b100101 then decode_data_proc_imm instr out
        else if is_add_sub_imm (bits instr 30 24) then decode_data_proc_imm instr out
        else if bits instr 31 25 = 0b0101010 then decode_branch instr out
        else if bits instr 31 26 = 0b110101 \<and> bits instr 15 10 = 0 \<and> bits instr 4 0 = 0 then
          decode_branch instr out
        else if op1 = 0b001 \<or> op1 = 0b010 \<or> op1 = 0b011 \<or> op1 = 0b111 then
          decode_load_store instr out
        else
          (let (ok, out) = (if op1 = 0b000 \<or> op1 = 0b010 \<or> op1 = 0b100 \<or> op1 = 0b110
                            then decode_even_group instr out else (False, out))
           in if ok then (True, out) else decode_tail instr out)))"

section \<open>Names for debugging\<close>

fun category_name :: "InstrCategory \<Rightarrow> string" where
  "category_name INTEGER_ARITH = ''INTEGER_ARITH''"
| "category_name LOGICAL = ''LOGICAL''"
| "category_name SHIFT = ''SHIFT''"
| "category_name BRANCH = ''BRANCH''"
| "category_name BRANCH_COND = ''BRANCH_COND''"
| "category_name LOAD_STORE = ''LOAD_STORE''"
| "category_name LOAD_STORE_PAIR = ''LOAD_STORE_PAIR''"
| "category_name COMPARE = ''COMPARE''"
| "category_name MOVE = ''MOVE''"
| "category_name SYSTEM = ''SYSTEM''"
| "category_name SIMD_FP = ''SIMD_FP''"
| "category_name CAT_SYSCALL = ''SYSCALL''"
| "category_name _ = ''UNKNOWN''"

definition mnemonic_table :: "(u8 \<times> string) list" where
  "mnemonic_table =
    [(0x00, ''ADD''), (0x01, ''SUB''), (0x02, ''MUL''), (0x03, ''MADD''), (0x04, ''UDIV''),
     (0x05, ''SDIV''), (0x10, ''AND''), (0x11, ''BIC''), (0x12, ''ORR''), (0x13, ''ORN''),
     (0x14, ''EOR''), (0x15, ''EON''), (0x16, ''ANDS''), (0x17, ''BICS''), (0x20, ''MOV''),
     (0x21, ''MOVN''), (0x22, ''MOVZ''), (0x23, ''MOVK''), (0x24, ''ADR''), (0x25, ''ADRP''),
     (0x30, ''CMP''), (0x31, ''TST''), (0x40, ''CSEL''), (0x50, ''B''), (0x51, ''BL''),
     (0x52, ''BR''), (0x53, ''RET''), (0x54, ''B.cond''), (0x55, ''CBZ''), (0x56, ''CBNZ''),
     (0x57, ''TBZ''), (0x58, ''TBNZ''), (0x60, ''LDRB''), (0x61, ''LDRH''), (0x62, ''LDR''),
     (0x63, ''LDR''), (0x70, ''STRB''), (0x71, ''STRH''), (0x72, ''STR''), (0x73, ''STR''),
     (0x80, ''LDP''), (0x81, ''STP''), (0x90, ''NOP''), (0x91, ''DMB''), (0x92, ''DSB''),
     (0x93, ''ISB''), (0x94, ''MRS''), (0x95, ''MSR'')]"

definition mnemonic :: "DecodedInstr \<Rightarrow> string" where
  "mnemonic instr =
     (case map_of mnemonic_table (d_opcode instr) of Some m \<Rightarrow> m | None \<Rightarrow> ''???'')"

section \<open>Bit-field reasoning\<close>

lemma bits_take_drop: "bits w hi lo = take_bit (hi - lo + 1) (drop_bit lo w)"
  by (simp only: bits_def push_bit_of_1 take_bit_eq_mask mask_eq_exp_minus_1)

lemma bit_bits: "bit (bits w hi lo) k \<longleftrightarrow> k < hi - lo + 1 \<and> bit w (lo + k)"
  by (simp add: bits_take_drop bit_simps)

lemma bits_eq_iff:
  assumes n: "n = hi - lo + 1"
  shows "bits w hi lo = c \<longleftrightarrow> take_bit n c = c \<and> (\<forall>k<n. bit w (lo + k) = bit c k)"
proof (intro iffI conjI allI impI)
  assume R: "take_bit n c = c \<and> (\<forall>k<n. bit w (lo + k) = bit c k)"
  show "bits w hi lo = c"
  proof (rule bit_word_eqI)
    fix k
    show "bit (bits w hi lo) k = bit c k"
      using R n by (metis bit_bits bit_take_bit_iff)
  qed
qed (auto simp: bit_bits n, simp add: bits_take_drop)

text \<open>
  An equation on a bit field is a conjunction of conditions on single bits.  One instance per
  field the decoder tests; with them a routing condition becomes propositional.
\<close>

lemma fld_31_30: "bits w 31 30 = c \<longleftrightarrow> take_bit 2 c = c \<and>
  bit w 31 = bit c (Suc 0) \<and> bit w 30 = bit c 0"
  by (subst bits_eq_iff [where n = 2]) (simp_all add: all_less_numeral)

lemma fld_31_29: "bits w 31 29 = c \<longleftrightarrow> take_bit 3 c = c \<and>
  bit w 31 = bit c 2 \<and> bit w 30 = bit c (Suc 0) \<and> bit w 29 = bit c 0"
  by (subst bits_eq_iff [where n = 3]) (simp_all add: all_less_numeral)

lemma fld_31_26: "bits w 31 26 = c \<longleftrightarrow> take_bit 6 c = c \<and>
  bit w 31 = bit c 5 \<and> bit w 30 = bit c 4 \<and> bit w 29 = bit c 3 \<and>
  bit w 28 = bit c 2 \<and> bit w 27 = bit c (Suc 0) \<and> bit w 26 = bit c 0"
  by (subst bits_eq_iff [where n = 6]) (simp_all add: all_less_numeral)

lemma fld_31_25: "bits w 31 25 = c \<longleftrightarrow> take_bit 7 c = c \<and>
  bit w 31 = bit c 6 \<and> bit w 30 = bit c 5 \<and> bit w 29 = bit c 4 \<and>
  bit w 28 = bit c 3 \<and> bit w 27 = bit c 2 \<and> bit w 26 = bit c (Suc 0) \<and>
  bit w 25 = bit c 0"
  by (subst bits_eq_iff [where n = 7]) (simp_all add: all_less_numeral)

lemma fld_31_24: "bits w 31 24 = c \<longleftrightarrow> take_bit 8 c = c \<and>
  bit w 31 = bit c 7 \<and> bit w 30 = bit c 6 \<and> bit w 29 = bit c 5 \<and>
  bit w 28 = bit c 4 \<and> bit w 27 = bit c 3 \<and> bit w 26 = bit c 2 \<and>
  bit w 25 = bit c (Suc 0) \<and> bit w 24 = bit c 0"
  by (subst bits_eq_iff [where n = 8]) (simp_all add: all_less_numeral)

lemma fld_31_22: "bits w 31 22 = c \<longleftrightarrow> take_bit 10 c = c \<and>
  bit w 31 = bit c 9 \<and> bit w 30 = bit c 8 \<and> bit w 29 = bit c 7 \<and>
  bit w 28 = bit c 6 \<and> bit w 27 = bit c 5 \<and> bit w 26 = bit c 4 \<and>
  bit w 25 = bit c 3 \<and> bit w 24 = bit c 2 \<and> bit w 23 = bit c (Suc 0) \<and>
  bit w 22 = bit c 0"
  by (subst bits_eq_iff [where n = 10]) (simp_all add: all_less_numeral)

lemma fld_31_21: "bits w 31 21 = c \<longleftrightarrow> take_bit 11 c = c \<and>
  bit w 31 = bit c 10 \<and> bit w 30 = bit c 9 \<and> bit w 29 = bit c 8 \<and>
  bit w 28 = bit c 7 \<and> bit w 27 = bit c 6 \<and> bit w 26 = bit c 5 \<and>
  bit w 25 = bit c 4 \<and> bit w 24 = bit c 3 \<and> bit w 23 = bit c 2 \<and>
  bit w 22 = bit c (Suc 0) \<and> bit w 21 = bit c 0"
  by (subst bits_eq_iff [where n = 11]) (simp_all add: all_less_numeral)

lemma fld_30_29: "bits w 30 29 = c \<longleftrightarrow> take_bit 2 c = c \<and>
  bit w 30 = bit c (Suc 0) \<and> bit w 29 = bit c 0"
  by (subst bits_eq_iff [where n = 2]) (simp_all add: all_less_numeral)

lemma fld_30_26: "bits w 30 26 = c \<longleftrightarrow> take_bit 5 c = c \<and>
  bit w 30 = bit c 4 \<and> bit w 29 = bit c 3 \<and> bit w 28 = bit c 2 \<and>
  bit w 27 = bit c (Suc 0) \<and> bit w 26 = bit c 0"
  by (subst bits_eq_iff [where n = 5]) (simp_all add: all_less_numeral)

lemma fld_30_24: "bits w 30 24 = c \<longleftrightarrow> take_bit 7 c = c \<and>
  bit w 30 = bit c 6 \<and> bit w 29 = bit c 5 \<and> bit w 28 = bit c 4 \<and>
  bit w 27 = bit c 3 \<and> bit w 26 = bit c 2 \<and> bit w 25 = bit c (Suc 0) \<and>
  bit w 24 = bit c 0"
  by (subst bits_eq_iff [where n = 7]) (simp_all add: all_less_numeral)

lemma fld_30_22: "bits w 30 22 = c \<longleftrightarrow> take_bit 9 c = c \<and>
  bit w 30 = bit c 8 \<and> bit w 29 = bit c 7 \<and> bit w 28 = bit c 6 \<and>
  bit w 27 = bit c 5 \<and> bit w 26 = bit c 4 \<and> bit w 25 = bit c 3 \<and>
  bit w 24 = bit c 2 \<and> bit w 23 = bit c (Suc 0) \<and> bit w 22 = bit c 0"
  by (subst bits_eq_iff [where n = 9]) (simp_all add: all_less_numeral)

lemma fld_30_21: "bits w 30 21 = c \<longleftrightarrow> take_bit 10 c = c \<and>
  bit w 30 = bit c 9 \<and> bit w 29 = bit c 8 \<and> bit w 28 = bit c 7 \<and>
  bit w 27 = bit c 6 \<and> bit w 26 = bit c 5 \<and> bit w 25 = bit c 4 \<and>
  bit w 24 = bit c 3 \<and> bit w 23 = bit c 2 \<and> bit w 22 = bit c (Suc 0) \<and>
  bit w 21 = bit c 0"
  by (subst bits_eq_iff [where n = 10]) (simp_all add: all_less_numeral)

lemma fld_28_26: "bits w 28 26 = c \<longleftrightarrow> take_bit 3 c = c \<and>
  bit w 28 = bit c 2 \<and> bit w 27 = bit c (Suc 0) \<and> bit w 26 = bit c 0"
  by (subst bits_eq_iff [where n = 3]) (simp_all add: all_less_numeral)

lemma fld_28_24: "bits w 28 24 = c \<longleftrightarrow> take_bit 5 c = c \<and>
  bit w 28 = bit c 4 \<and> bit w 27 = bit c 3 \<and> bit w 26 = bit c 2 \<and>
  bit w 25 = bit c (Suc 0) \<and> bit w 24 = bit c 0"
  by (subst bits_eq_iff [where n = 5]) (simp_all add: all_less_numeral)

lemma fld_28_23: "bits w 28 23 = c \<longleftrightarrow> take_bit 6 c = c \<and>
  bit w 28 = bit c 5 \<and> bit w 27 = bit c 4 \<and> bit w 26 = bit c 3 \<and>
  bit w 25 = bit c 2 \<and> bit w 24 = bit c (Suc 0) \<and> bit w 23 = bit c 0"
  by (subst bits_eq_iff [where n = 6]) (simp_all add: all_less_numeral)

lemma fld_23_22: "bits w 23 22 = c \<longleftrightarrow> take_bit 2 c = c \<and>
  bit w 23 = bit c (Suc 0) \<and> bit w 22 = bit c 0"
  by (subst bits_eq_iff [where n = 2]) (simp_all add: all_less_numeral)

lemma fld_20_16: "bits w 20 16 = c \<longleftrightarrow> take_bit 5 c = c \<and>
  bit w 20 = bit c 4 \<and> bit w 19 = bit c 3 \<and> bit w 18 = bit c 2 \<and>
  bit w 17 = bit c (Suc 0) \<and> bit w 16 = bit c 0"
  by (subst bits_eq_iff [where n = 5]) (simp_all add: all_less_numeral)

lemma fld_15_10: "bits w 15 10 = c \<longleftrightarrow> take_bit 6 c = c \<and>
  bit w 15 = bit c 5 \<and> bit w 14 = bit c 4 \<and> bit w 13 = bit c 3 \<and>
  bit w 12 = bit c 2 \<and> bit w 11 = bit c (Suc 0) \<and> bit w 10 = bit c 0"
  by (subst bits_eq_iff [where n = 6]) (simp_all add: all_less_numeral)

lemma fld_14_10: "bits w 14 10 = c \<longleftrightarrow> take_bit 5 c = c \<and>
  bit w 14 = bit c 4 \<and> bit w 13 = bit c 3 \<and> bit w 12 = bit c 2 \<and>
  bit w 11 = bit c (Suc 0) \<and> bit w 10 = bit c 0"
  by (subst bits_eq_iff [where n = 5]) (simp_all add: all_less_numeral)

lemma fld_11_10: "bits w 11 10 = c \<longleftrightarrow> take_bit 2 c = c \<and>
  bit w 11 = bit c (Suc 0) \<and> bit w 10 = bit c 0"
  by (subst bits_eq_iff [where n = 2]) (simp_all add: all_less_numeral)

lemma fld_11_8: "bits w 11 8 = c \<longleftrightarrow> take_bit 4 c = c \<and>
  bit w 11 = bit c 3 \<and> bit w 10 = bit c 2 \<and> bit w 9 = bit c (Suc 0) \<and>
  bit w 8 = bit c 0"
  by (subst bits_eq_iff [where n = 4]) (simp_all add: all_less_numeral)

lemma fld_9_5: "bits w 9 5 = c \<longleftrightarrow> take_bit 5 c = c \<and>
  bit w 9 = bit c 4 \<and> bit w 8 = bit c 3 \<and> bit w 7 = bit c 2 \<and>
  bit w 6 = bit c (Suc 0) \<and> bit w 5 = bit c 0"
  by (subst bits_eq_iff [where n = 5]) (simp_all add: all_less_numeral)

lemma fld_4_0: "bits w 4 0 = c \<longleftrightarrow> take_bit 5 c = c \<and>
  bit w 4 = bit c 4 \<and> bit w 3 = bit c 3 \<and> bit w 2 = bit c 2 \<and>
  bit w (Suc 0) = bit c (Suc 0) \<and> bit w 0 = bit c 0"
  by (subst bits_eq_iff [where n = 5]) (simp_all add: all_less_numeral)

lemmas fld = fld_31_30 fld_31_29 fld_31_26 fld_31_25 fld_31_24 fld_31_22 fld_31_21 fld_30_29 fld_30_26 fld_30_24 fld_30_22 fld_30_21 fld_28_26 fld_28_24 fld_28_23 fld_23_22 fld_20_16 fld_15_10 fld_14_10 fld_11_10 fld_11_8 fld_9_5 fld_4_0

lemma word_le_11: "(x :: u32) \<le> 11 \<longleftrightarrow>
    x = 0 \<or> x = 1 \<or> x = 2 \<or> x = 3 \<or> x = 4 \<or> x = 5 \<or> x = 6 \<or> x = 7 \<or> x = 8 \<or> x = 9 \<or> x = 10 \<or> x = 11"
proof -
  have "x \<le> 11 \<longleftrightarrow> unat x \<le> 11" by (simp add: word_le_nat_alt)
  also have "\<dots> \<longleftrightarrow> unat x \<in> set (map unat [0, 1, 2, 3, 4, 5, 6, 7, 8, 9, 10, 11 :: u32])"
    by (simp, presburger)
  also have "\<dots> \<longleftrightarrow> x \<in> set [0, 1, 2, 3, 4, 5, 6, 7, 8, 9, 10, 11]"
    unfolding set_map by (rule inj_image_mem_iff) (simp add: inj_def)
  finally show ?thesis by simp
qed

lemma is_data_proc_class_bits:
  "is_data_proc_class (bits w 28 24) \<longleftrightarrow>
     (\<not> bit w 28 \<and> \<not> (bit w 27 \<and> bit w 26)) \<or>
     (bit w 28 \<and> \<not> bit w 27 \<and> \<not> bit w 26) \<or> (bit w 28 \<and> bit w 27 \<and> \<not> bit w 26 \<and> \<not> bit w 25)"
  unfolding is_data_proc_class_def word_le_11
  by (cases "bit w 28"; cases "bit w 27"; cases "bit w 26"; cases "bit w 25")
     (simp_all add: fld)

lemma is_add_sub_imm_bits:
  "is_add_sub_imm (bits w 30 24) \<longleftrightarrow>
     bit w 28 \<and> \<not> bit w 27 \<and> \<not> bit w 26 \<and> \<not> bit w 25 \<and> bit w 24"
  unfolding is_add_sub_imm_def by (simp add: fld) blast

lemma is_adrp_byte_bits:
  "is_adrp_byte (bits w 31 24) \<longleftrightarrow>
     bit w 31 \<and> bit w 28 \<and> \<not> bit w 27 \<and> \<not> bit w 26 \<and> \<not> bit w 25 \<and> \<not> bit w 24"
  unfolding is_adrp_byte_def by (simp add: fld) blast

lemma bits_single [simp]: "(bits w k k = 0) = (\<not> bit w k)" "(bits w k k = 1) = bit w k"
  by (auto simp: bits_eq_iff [where n = 1])

lemmas field_bits = fld is_data_proc_class_bits is_add_sub_imm_bits is_adrp_byte_bits

subsection \<open>Sign extension\<close>

lemma sign_extend_signed_take:
  assumes "0 < width" "width \<le> 32"
  shows "sign_extend val width = signed_take_bit (width - 1) (ucast val)"
proof -
  have m: "push_bit width 1 - 1 = (mask width :: u64)" by (simp only: push_bit_of_1 mask_eq_exp_minus_1)
  have t: "x AND push_bit k 1 \<noteq> 0 \<longleftrightarrow> bit x k" for x :: u64 and k 
    by (simp only: push_bit_of_1 and_exp_eq_0_iff_not_bit not_not)
  obtain k where "width = Suc k" using assms(1) by (cases width) auto
  then show ?thesis using assms(2) unfolding sign_extend_def Let_def m t
   by (intro bit_word_eqI) (auto simp: bit_simps bit_signed_take_bit_iff min_def less_Suc_eq)
qed

lemma branch_offset_imm26:
  "sint (push_bit 2 (sign_extend (ucast instr) 26)) = 4 * sint (ucast instr :: 26 word)"
proof -
  have "sign_extend (ucast instr) 26 = scast (ucast instr :: 26 word)"
    unfolding sign_extend_signed_take [of 26, simplified]
   by (intro bit_word_eqI) (auto simp: bit_simps bit_signed_take_bit_iff min_def)
  then show ?thesis by (simp add: sint_push_bit_scast)
qed

lemma adrp_imm21:
  "sint (scast (sign_extend (pcrel_imm21 instr) 21) :: i64) =
     sint (word_cat (ucast (drop_bit 5 instr) :: 19 word) (ucast (drop_bit 29 instr) :: 2 word) :: 21 word)"
proof -
  have "scast (sign_extend (pcrel_imm21 instr) 21) =
     (scast (word_cat (ucast (drop_bit 5 instr) :: 19 word) (ucast (drop_bit 29 instr) :: 2 word) :: 21 word) :: i64)"
    unfolding sign_extend_signed_take [of 21, simplified] pcrel_imm21_def
   by (intro bit_word_eqI) (auto simp: bit_simps bit_signed_take_bit_iff min_def bit_bits bit_word_cat_iff)
  then show ?thesis using sint_push_bit_scast [where k = 0 and 'b = 64 and 'a = 21] by simp
qed

subsection \<open>Routing facts\<close>

text \<open>The words the run loop treats as supervisor calls, as conditions on their fields.\<close>

lemma svc_bits: "instr AND 0xFFE0001F = (0xD4000001 :: u32) \<longleftrightarrow>
    bits instr 31 21 = 0b11010100000 \<and> bits instr 4 0 = 1"
  by (simp add: fld, simp add: word_eq_iff_bits all_less_numeral bit_simps)

text \<open>
  Opcodes that no word decodes to: MUL, MOV (register), CMP and TST (register), CSEL, LDP,
  STP and the vector group.
\<close>

definition undecoded_opcodes :: "u8 set" where
  "undecoded_opcodes =
     {0x02, 0x20, 0x30, 0x31, 0x40, 0x80, 0x81, 0xA0, 0xA1, 0xA2, 0xA3, 0xA4, 0xA5, 0xA6}"

definition opcode_ok :: "DecodedInstr \<Rightarrow> bool" where
  "opcode_ok d \<longleftrightarrow> d_opcode d \<notin> undecoded_opcodes \<and> d_category d \<noteq> CAT_SYSCALL"

text \<open>Rules that follow the shape of the decoders: a conditional, and an attempt whose failure
  falls through to the rest.\<close>

lemma ok_if:
  "(c \<Longrightarrow> opcode_ok (snd a)) \<Longrightarrow> (\<not> c \<Longrightarrow> opcode_ok (snd b)) \<Longrightarrow> opcode_ok (snd (if c then a else b))"
  by simp

lemma ok_try:
  "opcode_ok (snd r) \<Longrightarrow> (opcode_ok (snd r) \<Longrightarrow> opcode_ok (snd (f (snd r)))) \<Longrightarrow>
   opcode_ok (snd (case r of (ok, out) \<Rightarrow> if ok then (True, out) else f out))"
  by (cases r) auto

lemma reg_ok:
  assumes "is_data_proc_class (bits instr 28 24) \<or> bits instr 30 29 = 0" and "opcode_ok out"
  shows "opcode_ok (snd (decode_data_proc_reg instr out))"
proof -
  have "bits instr 30 21 \<noteq> 0x2A0" "bits instr 30 21 \<noteq> 0x1B0"
     "bits instr 30 21 \<noteq> 0x2B0" "bits instr 30 24 \<noteq> 0x1A8" 
    using assms(1) by (auto simp: field_bits)
  moreover have "bits instr 30 22 = 0x0D3 \<Longrightarrow> bits instr 23 22 = 3"
    by (auto simp: field_bits)
  ultimately show ?thesis using assms(2)
    unfolding decode_data_proc_reg_def Let_def 
   by (intro ok_if) (simp_all add: opcode_ok_def undecoded_opcodes_def)
qed

lemma imm_ok: "opcode_ok out \<Longrightarrow> opcode_ok (snd (decode_data_proc_imm instr out))"
  unfolding decode_data_proc_imm_def Let_def 
   by (intro ok_if) (simp_all add: opcode_ok_def undecoded_opcodes_def)

lemma branch_ok: "opcode_ok out \<Longrightarrow> opcode_ok (snd (decode_branch instr out))"
  unfolding decode_branch_def 
   by (intro ok_if) (simp_all add: opcode_ok_def undecoded_opcodes_def)

lemma system_ok: "opcode_ok out \<Longrightarrow> opcode_ok (snd (decode_system instr out))"
  unfolding decode_system_def  Let_def
   by (intro ok_if) (simp_all add: opcode_ok_def undecoded_opcodes_def)

lemma pcrel_ok: "opcode_ok out \<Longrightarrow> opcode_ok (snd (decode_pcrel instr out))"
  unfolding decode_pcrel_def  Let_def
   by (intro ok_if) (simp_all add: opcode_ok_def undecoded_opcodes_def)

lemma test_branch_ok: "opcode_ok out \<Longrightarrow> opcode_ok (snd (decode_test_branch instr out))"
  by (simp add: decode_test_branch_def Let_def opcode_ok_def undecoded_opcodes_def)

lemma load_store_ok:
  assumes "bits instr 31 25 \<noteq> 0b0010100" "opcode_ok out"
  shows "opcode_ok (snd (decode_load_store instr out))"
  using assms unfolding decode_load_store_def Let_def load_store_opcode_def
   by (intro ok_if) (simp_all add: opcode_ok_def undecoded_opcodes_def)

lemma zero_ok: "opcode_ok (DecodedInstr_zero\<lparr>d_raw := instr\<rparr>)"
  by (simp add: opcode_ok_def DecodedInstr_zero_def undecoded_opcodes_def)

lemma even_group_ok:
  assumes "bits instr 31 29 = 0 \<or> bits instr 31 29 = 2 \<or> bits instr 31 29 = 4 \<or> bits instr 31 29 = 6" "opcode_ok out"
  shows "opcode_ok (snd (decode_even_group instr out))"
proof -
  have "bits instr 30 29 \<noteq> 1" using assms(1) by (auto simp: fld)
  then show ?thesis using assms(2)
  unfolding decode_even_group_def Let_def
  by (intro ok_try ok_if) (auto intro: imm_ok reg_ok)
qed

lemma tail_ok:
  assumes "bits instr 31 29 \<noteq> 2" "bits instr 31 29 \<noteq> 3" "opcode_ok out"
  shows "opcode_ok (snd (decode_tail instr out))"
  using assms unfolding decode_tail_def Let_def
  by (intro ok_if) (simp_all add: imm_ok system_ok, simp add: opcode_ok_def)

lemmas decoder_ok = reg_ok imm_ok branch_ok system_ok pcrel_ok test_branch_ok load_store_ok
  zero_ok even_group_ok tail_ok

lemma decode_opcode_ok: "opcode_ok (snd (decode instr))"
proof (cases "bits instr 31 25 = 0b0010100")
  case True
  then have "snd (decode instr) = snd (decode_data_proc_reg instr (DecodedInstr_zero\<lparr>d_raw := instr\<rparr>))"
    by (simp add: decode_def field_bits decode_data_proc_reg_def Let_def)
  moreover have "opcode_ok \<dots>" using True by (simp add: reg_ok zero_ok field_bits)
  ultimately show ?thesis by simp
next
  case False
  then show ?thesis unfolding decode_def Let_def by (intro ok_try ok_if) (auto intro: decoder_ok)
qed

subsection \<open>Fields of decoded instructions\<close>

text \<open>Register numbers have five bits; the third one may be a marker where it is not used.  A failed attempt
  leaves the fields at zero for the next one.\<close>

definition memory_opcodes :: "u8 set" where
  "memory_opcodes = {0x60, 0x61, 0x62, 0x63, 0x70, 0x71, 0x72, 0x73}"

definition fields_ok :: "DecodedInstr \<Rightarrow> bool" where
  "fields_ok d \<longleftrightarrow> d_rd d < 32 \<and> d_rn d < 32 \<and> (d_opcode d \<in> {0x10, 0x12, 0x14} \<longrightarrow> d_rm d < 32) \<and>
     (d_opcode d \<in> {0x57, 0x58} \<longrightarrow> d_imm d < 32) \<and>
     (d_opcode d \<in> memory_opcodes \<longrightarrow> d_category d = LOAD_STORE)"

definition blank :: "DecodedInstr \<Rightarrow> bool" where
  "blank d \<longleftrightarrow> d_opcode d = 0 \<and> d_rd d = 0 \<and> d_rn d = 0"

definition attempt_ok :: "bool \<times> DecodedInstr \<Rightarrow> bool" where
  "attempt_ok r \<longleftrightarrow> (if fst r then fields_ok (snd r) else blank (snd r))"

lemma attempt_if: "(c \<Longrightarrow> attempt_ok a) \<Longrightarrow> (\<not> c \<Longrightarrow> attempt_ok b) \<Longrightarrow> attempt_ok (if c then a else b)"
  by simp

lemma attempt_try:
  "attempt_ok r \<Longrightarrow> (\<And>out. blank out \<Longrightarrow> attempt_ok (f out)) \<Longrightarrow>
   attempt_ok (case r of (ok, out) \<Rightarrow> if ok then (True, out) else f out)"
  by (cases r) (auto simp: attempt_ok_def)

lemma field_less:
  assumes "hi - lo = 4"
  shows "(ucast (bits w hi lo) :: u8) < 32" "(ucast (bits w hi lo) :: u64) < 32"
proof -
  have "bits w hi lo = take_bit 5 (drop_bit lo w)" using assms by (simp add: bits_take_drop)
  then have u: "unat (bits w hi lo) < 32"
    using take_bit_nat_less_exp [of 5 "unat (drop_bit lo w)"] by (simp add: unsigned_take_bit_eq)
  then show "(ucast (bits w hi lo) :: u8) < 32" "(ucast (bits w hi lo) :: u64) < 32"
    by (simp_all add: word_less_nat_alt unsigned_ucast_eq take_bit_nat_eq_self)
qed

lemma bit_field_less: "(ucast (bits w n n) :: u8) < 32"
proof -
  have "bits w n n = of_bool (bit w n)" by (rule bit_word_eqI) (auto simp: bit_bits bit_simps)
  then show ?thesis by simp
qed

lemmas field_rules = attempt_ok_def fields_ok_def blank_def memory_opcodes_def field_less bit_field_less

lemma shift_opcode: "(ucast (bits w 23 22) :: u8) \<notin> {0x10, 0x12, 0x14, 0x57, 0x58} \<union> memory_opcodes"
proof -
  have "bits w 23 22 = take_bit 2 (drop_bit 22 w)" by (simp add: bits_take_drop numeral_2_eq_2)
  then have "unat (bits w 23 22) < 4"
    using take_bit_nat_less_exp [of 2 "unat (drop_bit 22 w)"] by (simp add: unsigned_take_bit_eq)
  then have "(ucast (bits w 23 22) :: u8) < 4" by (simp add: word_less_nat_alt unsigned_ucast_eq take_bit_nat_eq_self)
  then show ?thesis by (auto simp: memory_opcodes_def)
qed

lemma reg_fields: "blank out \<Longrightarrow> attempt_ok (decode_data_proc_reg instr out)"
  unfolding decode_data_proc_reg_def Let_def
  using shift_opcode [of instr]
  by (intro attempt_if) (simp_all add: field_rules)

lemma imm_fields: "blank out \<Longrightarrow> attempt_ok (decode_data_proc_imm instr out)"
  unfolding decode_data_proc_imm_def Let_def by (intro attempt_if) (simp_all add: field_rules)

lemma branch_fields: "blank out \<Longrightarrow> attempt_ok (decode_branch instr out)"
  unfolding decode_branch_def by (intro attempt_if) (simp_all add: field_rules)

lemma load_store_fields: "blank out \<Longrightarrow> attempt_ok (decode_load_store instr out)"
  unfolding decode_load_store_def Let_def load_store_opcode_def by (intro attempt_if) (simp_all add: field_rules)

lemma system_fields: "blank out \<Longrightarrow> attempt_ok (decode_system instr out)"
  unfolding decode_system_def Let_def by (intro attempt_if) (simp_all add: field_rules)

lemma pcrel_fields: "blank out \<Longrightarrow> attempt_ok (decode_pcrel instr out)"
  unfolding decode_pcrel_def Let_def by (intro attempt_if) (simp_all add: field_rules)

lemma test_branch_fields: "blank out \<Longrightarrow> attempt_ok (decode_test_branch instr out)"
  by (simp add: decode_test_branch_def Let_def field_rules)

lemma simd_fields_ok: "blank out \<Longrightarrow> attempt_ok (decode_simd instr out)"
  unfolding decode_simd_def Let_def simd_fields_def by (intro attempt_if) (simp_all add: field_rules)

lemma fail_fields: "blank out \<Longrightarrow> attempt_ok (False, out)" "blank out \<Longrightarrow> attempt_ok (False, out\<lparr>d_category := CAT_UNKNOWN\<rparr>)"
  by (simp_all add: attempt_ok_def blank_def)

lemma even_group_fields: "blank out \<Longrightarrow> attempt_ok (decode_even_group instr out)"
  unfolding decode_even_group_def Let_def
  by (intro attempt_try attempt_if) (auto intro: reg_fields imm_fields fail_fields)

lemma tail_fields: "blank out \<Longrightarrow> attempt_ok (decode_tail instr out)"
  unfolding decode_tail_def Let_def
  by (intro attempt_try attempt_if) (auto intro: imm_fields simd_fields_ok system_fields fail_fields)

lemma decode_fields:
  assumes "decode instr = (True, d)"
  shows "fields_ok d"
proof -
  have b: "blank (DecodedInstr_zero\<lparr>d_raw := instr\<rparr>)" by (simp add: blank_def DecodedInstr_zero_def)
  have "attempt_ok (decode instr)"
    unfolding decode_def Let_def
    by (intro attempt_try attempt_if) (use b in \<open>auto intro: reg_fields imm_fields branch_fields load_store_fields
      system_fields pcrel_fields test_branch_fields even_group_fields tail_fields fail_fields\<close>)
  with assms show ?thesis by (simp add: attempt_ok_def)
qed

subsection \<open>Closed forms the translation uses\<close>

lemma decode_b_bl_eq:
  assumes "bits instr 30 26 = 0b00101"
  shows "decode instr = (True, DecodedInstr_zero\<lparr>d_raw := instr, d_category := BRANCH,
     d_opcode := (if bit instr 31 then 0x51 else 0x50),
     d_branch_offset := push_bit 2 (sign_extend (ucast instr) 26)\<rparr>)"
  using assms by (auto simp: decode_def field_bits decode_branch_def Let_def)

lemma decode_adrp_eq:
  assumes "bit instr 31" and "bits instr 28 24 = 0b10000"
  shows "decode instr = (True, DecodedInstr_zero\<lparr>d_raw := instr, d_category := MOVE,
     d_opcode := 0x25, d_rd := ucast (bits instr 4 0),
     d_imm_s := scast (sign_extend (pcrel_imm21 instr) 21),
     d_imm := scast (sign_extend (pcrel_imm21 instr) 21), d_is_pc_relative := True\<rparr>)"
  using assms by (auto simp: decode_def field_bits decode_pcrel_def Let_def)

lemma decode_add_register_logical:
  assumes "bits instr 30 24 = 0b0001011"
  shows "fst (decode instr) \<and> d_category (snd (decode instr)) = LOGICAL \<and>
    d_opcode (snd (decode instr)) = 0x17 \<and> d_sets_flags (snd (decode instr))"
proof -
  have f: "bits instr 30 29 = 0" "bits instr 28 24 = 0b01011" using assms by (simp_all add: fld)
  have r: "fst (decode_data_proc_reg instr out) \<and>
      d_category (snd (decode_data_proc_reg instr out)) = LOGICAL \<and>
      d_opcode (snd (decode_data_proc_reg instr out)) = 0x17 \<and>
      d_sets_flags (snd (decode_data_proc_reg instr out))" for out
    using assms unfolding decode_data_proc_reg_def Let_def f by (auto simp: fld)
  have "decode instr = decode_data_proc_reg instr (DecodedInstr_zero\<lparr>d_raw := instr\<rparr>)"
    using r [of "DecodedInstr_zero\<lparr>d_raw := instr\<rparr>"] assms
    by (auto simp: decode_def field_bits Let_def split: prod.split)
  then show ?thesis by (simp add: r)
qed

section \<open>What the decoder recognises\<close>

lemma decode_add_sub_imm_eq:
  assumes "bits instr 28 24 = 0b10001"
  shows "decode instr = (True, DecodedInstr_zero\<lparr>d_raw := instr, d_size := ucast (bits instr 31 31),
     d_category := INTEGER_ARITH, d_opcode := (if bit instr 30 then 0x01 else 0x00),
     d_rd := ucast (bits instr 4 0), d_rn := ucast (bits instr 9 5), d_rm := 0xFF,
     d_imm := (if bit instr 22 then push_bit 12 (ucast (bits instr 21 10)) else ucast (bits instr 21 10)),
     d_sets_flags := bit instr 30\<rparr>)"
  using assms
  by (simp add: decode_def field_bits decode_data_proc_imm_def decode_data_proc_reg_def Let_def) blast

text \<open>C36: Every word of the class ADD/SUB (immediate), in both widths and with or without flags,
  is decoded as integer arithmetic with its destination, source and shifted immediate; the
  flag-setting mark is bit 30 of the word, the bit that selects subtraction.\<close>

theorem decode_add_sub_imm:
  assumes "bits instr 28 24 = 0b10001"
  shows "decode instr = (True, DecodedInstr_zero\<lparr>d_raw := instr, d_size := ucast (bits instr 31 31),
     d_category := INTEGER_ARITH, d_opcode := (if bit instr 30 then 0x01 else 0x00),
     d_rd := ucast (bits instr 4 0), d_rn := ucast (bits instr 9 5), d_rm := 0xFF,
     d_imm := (if bit instr 22 then push_bit 12 (ucast (bits instr 21 10)) else ucast (bits instr 21 10)),
     d_sets_flags := bit instr 30\<rparr>)"
  using assms by (rule decode_add_sub_imm_eq)

theorem decode_add_sub_imm_witness:
  "bits 0xD1400C41 28 24 = 0b10001 \<and> d_opcode (snd (decode 0xD1400C41)) = 0x01 \<and>
   d_rd (snd (decode 0xD1400C41)) = 1 \<and> d_rn (snd (decode 0xD1400C41)) = 2 \<and>
   d_imm (snd (decode 0xD1400C41)) = 0x3000"
  using decode_add_sub_imm [of "0xD1400C41"] by (simp add: bits_def)

text \<open>MOVN, MOVZ and MOVK words are decoded as moves with their opcode, destination and
  16-bit immediate; the shift field stays in the raw word.\<close>

theorem decode_move_wide:
  assumes "bits instr 28 23 = 0b100101" and "bits instr 30 29 \<noteq> 0b01"
  shows "decode instr = (True, DecodedInstr_zero\<lparr>d_raw := instr, d_size := ucast (bits instr 31 31),
     d_category := MOVE, d_rd := ucast (bits instr 4 0), d_imm := ucast (bits instr 20 5),
     d_opcode := (if \<not> bit instr 30 then 0x21 else if bit instr 29 then 0x23 else 0x22)\<rparr>)"
  using assms
  by (cases "bit instr 30"; cases "bit instr 29")
    (simp_all add: decode_def field_bits decode_data_proc_imm_def decode_data_proc_reg_def Let_def)

theorem decode_move_wide_witness:
  "bits 0xF2A24682 28 23 = 0b100101 \<and> bits 0xF2A24682 30 29 \<noteq> 0b01 \<and>
   d_opcode (snd (decode 0xF2A24682)) = 0x23 \<and> d_rd (snd (decode 0xF2A24682)) = 2 \<and>
   d_imm (snd (decode 0xF2A24682)) = 0x1234"
  using decode_move_wide [of "0xF2A24682"] by (simp add: bits_def)

text \<open>Every word of the unconditional-branch-to-register group with the fields the decoder
  checks is RET when its register is 30 and BR otherwise, whatever bits 25 to 16 say.\<close>

theorem decode_br_ret:
  assumes "bits instr 31 26 = 0b110101" and "bits instr 15 10 = 0" and "bits instr 4 0 = 0"
  shows "decode instr = (True, DecodedInstr_zero\<lparr>d_raw := instr, d_category := BRANCH,
     d_opcode := (if bits instr 9 5 = 30 then 0x53 else 0x52), d_rn := ucast (bits instr 9 5)\<rparr>)"
proof -
  have "decode instr = decode_branch instr (DecodedInstr_zero\<lparr>d_raw := instr\<rparr>)"
    using assms by (simp add: decode_def field_bits Let_def)
  with assms show ?thesis by (simp add: decode_branch_def)
qed

text \<open>The witness is the word of \<open>blr x1\<close>: it becomes a plain BR.\<close>

theorem decode_br_ret_witness:
  "bits 0xD63F0020 31 26 = 0b110101 \<and> bits 0xD63F0020 15 10 = 0 \<and> bits 0xD63F0020 4 0 = 0 \<and>
   d_opcode (snd (decode 0xD63F0020)) = 0x52 \<and> d_rn (snd (decode 0xD63F0020)) = 1"
  using decode_br_ret [of "0xD63F0020"] by (simp add: bits_def)

text \<open>C37: No word decodes to the category SYSCALL or to one of the opcodes MUL, MOV (register),
  CMP, TST, CSEL, LDP, STP or the vector group: the branches of the decoder that produce them
  are shadowed by earlier checks.\<close>

theorem decode_unreachable_opcodes:
  "d_opcode (snd (decode instr)) \<notin> undecoded_opcodes \<and> d_category (snd (decode instr)) \<noteq> CAT_SYSCALL"
  using decode_opcode_ok [of instr] by (simp add: opcode_ok_def)

text \<open>Every SVC word is rejected by the decoder, so only the run loop's own test can
  recognise a supervisor call.\<close>

theorem decode_svc:
  assumes "instr AND 0xFFE0001F = 0xD4000001"
  shows "\<not> fst (decode instr)"
proof -
  have "bits instr 31 21 = 0b11010100000" "bits instr 4 0 = 1" "instr \<noteq> 0xD503201F"
    using assms by (auto simp: svc_bits bits_def)
  then show ?thesis
    by (simp add: decode_def field_bits Let_def decode_even_group_def decode_tail_def
      decode_data_proc_imm_def decode_system_def)
qed

theorem decode_svc_witness: "(0xD4000001 :: u32) AND 0xFFE0001F = 0xD4000001 \<and> \<not> fst (decode 0xD4000001)"
  using decode_svc [of "0xD4000001"] by simp

section \<open>Misrouted encodings\<close>

text \<open>C39: The words of LDR and STR (64-bit, unsigned immediate offset) take the register-offset
  branch: the immediate of the decoded instruction is 0 whatever the word's offset field, whose
  upper bits become the index register.\<close>

theorem decode_ldr_str_unsigned:
  assumes "bits instr 31 24 = 0b11111001" and "\<not> bit instr 23"
  shows "fst (decode instr) \<and> d_opcode (snd (decode instr)) = (if bit instr 22 then 0x63 else 0x73) \<and>
    d_imm (snd (decode instr)) = 0 \<and> d_rm (snd (decode instr)) = ucast (bits instr 20 16)"
  using assms
  by (auto simp: decode_def field_bits decode_data_proc_reg_def decode_load_store_def
    load_store_opcode_def Let_def)

theorem decode_ldr_str_unsigned_witness:
  "bits 0xF9400420 31 24 = 0b11111001 \<and> \<not> bit (0xF9400420 :: u32) 23 \<and>
   d_imm (snd (decode 0xF9400420)) = 0 \<and> d_opcode (snd (decode 0xF9400420)) = 0x63"
  using decode_ldr_str_unsigned [of "0xF9400420"] by (simp add: bits_def)

text \<open>The offset of a decoded B.cond comes from the low 19 bits of the word, which contain the
  condition and only 14 bits of the immediate.\<close>

theorem decode_b_cond:
  assumes "bits instr 31 25 = 0b0101010"
  shows "decode instr = (True, DecodedInstr_zero\<lparr>d_raw := instr, d_category := BRANCH_COND,
    d_opcode := 0x54, d_cond := ucast (bits instr 3 0),
    d_branch_offset := push_bit 2 (sign_extend (ucast instr) 19)\<rparr>)"
  using assms
  by (auto simp: decode_def field_bits decode_branch_def Let_def)

text \<open>The witness is \<open>b.eq\<close> to the address 8 bytes ahead: the decoded offset is 256.\<close>

theorem decode_b_cond_witness:
  "bits 0x54000040 31 25 = 0b0101010 \<and> d_cond (snd (decode 0x54000040)) = 0 \<and>
   d_branch_offset (snd (decode 0x54000040)) = 256"
  using decode_b_cond [of "0x54000040"] by (simp add: bits_def sign_extend_def)

end
