(* ===== verification/Ir.thy ===== *)
theory Ir
  imports Decoder
begin

text \<open>
  The intermediate representation, its builder and its optimiser
  (\<^verbatim>\<open>src/src/ir/ir.hpp\<close>, \<^verbatim>\<open>ir_builder.cpp\<close>, \<^verbatim>\<open>ir_optimizer.cpp\<close>).  The builder's
  \<open>push_back\<close> on the block's vector is \<open>emit_ir\<close>; the constructors of \<open>IROpcode\<close> carry
  the prefix \<open>Op_\<close> because the source's names are operators of the logic.
\<close>

section \<open>Data\<close>

datatype (plugins only: code size) IROpcode =
    Op_ADD | Op_SUB | Op_MUL | Op_UDIV | Op_SDIV | Op_NEG
  | Op_AND | Op_OR | Op_XOR | Op_NOT | Op_SHL | Op_SHR | Op_SAR | Op_ROR
  | Op_ZEXT8 | Op_ZEXT16 | Op_ZEXT32 | Op_SEXT8 | Op_SEXT16 | Op_SEXT32
  | Op_CMP | Op_TST
  | Op_CMOV_EQ | Op_CMOV_NE | Op_CMOV_LT | Op_CMOV_LE | Op_CMOV_GT | Op_CMOV_GE
  | Op_CMOV_LO | Op_CMOV_LS | Op_CMOV_HS | Op_CMOV_HI | Op_CMOV_MI | Op_CMOV_PL
  | Op_CMOV_VS | Op_CMOV_VC | Op_CMOV_CS | Op_CMOV_CC
  | Op_LOAD8 | Op_LOAD16 | Op_LOAD32 | Op_LOAD64
  | Op_STORE8 | Op_STORE16 | Op_STORE32 | Op_STORE64
  | Op_LOAD_PAIR | Op_STORE_PAIR
  | Op_JMP | Op_JMP_COND | Op_CALL | Op_RET | Op_SYSCALL
  | Op_GET_REG | Op_SET_REG | Op_MOV_IMM
  | Op_NOP | Op_BSWAP16 | Op_BSWAP32 | Op_BSWAP64 | Op_CLZ | Op_CTZ
  | Op_FADD | Op_FSUB | Op_FMUL | Op_FDIV | Op_FCMP
  | Op_VEC_ADD8 | Op_VEC_ADD16 | Op_VEC_ADD32 | Op_VEC_ADD64
  | Op_VEC_SUB8 | Op_VEC_SUB16 | Op_VEC_SUB32 | Op_VEC_SUB64
  | Op_VEC_AND | Op_VEC_OR | Op_VEC_XOR | Op_VEC_DUP
  | Op_BARRIER

type_synonym IRReg = u16

definition IR_NONE :: IRReg where "IR_NONE = 0"
definition IR_IMM :: IRReg where "IR_IMM = 0xFFFF"

record IRInst =
  i_op :: IROpcode
  i_dest :: IRReg
  i_src1 :: IRReg
  i_src2 :: IRReg
  i_imm :: u64
  i_imm2 :: u64
  i_size :: u8
  i_cond :: u8
  i_flags_set :: bool
  i_flags_used :: bool

definition IRInst_init :: IRInst where
  "IRInst_init =
     \<lparr>i_op = Op_NOP, i_dest = IR_NONE, i_src1 = IR_NONE, i_src2 = IR_NONE, i_imm = 0, i_imm2 = 0,
      i_size = 8, i_cond = 0, i_flags_set = False, i_flags_used = False\<rparr>"

record IRBlock =
  b_instructions :: "IRInst list"
  b_arm_pc_start :: u64
  b_arm_pc_end :: u64
  b_arm_instr_count :: u32
  b_is_conditional :: bool
  b_branch_target_taken :: u64
  b_branch_target_fallthrough :: u64

definition IRBlock_init :: IRBlock where
  "IRBlock_init =
     \<lparr>b_instructions = [], b_arm_pc_start = 0, b_arm_pc_end = 0, b_arm_instr_count = 0,
      b_is_conditional = False, b_branch_target_taken = 0, b_branch_target_fallthrough = 0\<rparr>"

text \<open>\<open>IRBlock::alloc_reg\<close> counts in a variable that all blocks share, here its state before and
  after; \<open>reset_reg_counter\<close> has an empty body.\<close>

definition IRBlock_alloc_reg :: "IRReg \<Rightarrow> IRReg \<times> IRReg" where
  "IRBlock_alloc_reg next_reg = (next_reg, next_reg + 1)"

definition reset_reg_counter :: "IRReg \<Rightarrow> IRReg" where
  "reset_reg_counter next_reg = next_reg"

section \<open>The builder\<close>

definition emit_ir :: "IRInst \<Rightarrow> IRBlock \<Rightarrow> IRBlock" where
  "emit_ir ir block = block\<lparr>b_instructions := b_instructions block @ [ir]\<rparr>"

text \<open>\<open>src2\<close> and \<open>imm\<close> of ADD and SUB: the register number 0xFF marks an immediate.\<close>

definition arith_operand :: "DecodedInstr \<Rightarrow> IRInst \<Rightarrow> IRInst" where
  "arith_operand instr ir =
     (if d_rm instr = 0xFF then ir\<lparr>i_src2 := IR_IMM, i_imm := d_imm instr\<rparr>
      else ir\<lparr>i_src2 := ucast (d_rm instr)\<rparr>)"

text \<open>The pair of instructions of CBZ and CBNZ; \<open>branch_offset\<close> is zero-extended to 64 bits.\<close>

definition compare_and_branch :: "u8 \<Rightarrow> DecodedInstr \<Rightarrow> u64 \<Rightarrow> IRInst \<Rightarrow> IRBlock \<Rightarrow> IRBlock" where
  "compare_and_branch cond instr pc ir block =
     (let block = emit_ir (ir\<lparr>i_op := Op_CMP, i_src1 := ucast (d_rn instr), i_src2 := IR_NONE,
                             i_imm := 0, i_flags_set := True\<rparr>) block;
          block = block\<lparr>b_is_conditional := True\<rparr>
      in emit_ir (IRInst_init\<lparr>i_op := Op_JMP_COND, i_flags_used := True,
                    i_imm := pc + ucast (d_branch_offset instr), i_cond := cond\<rparr>) block)"

text \<open>The cases of the switch in four groups: SIMD with the default, loads, stores and system,
  branches, and (in \<open>build_instr\<close> itself) arithmetic, moves and compares.\<close>

definition build_vector :: "DecodedInstr \<Rightarrow> u64 \<Rightarrow> IRInst \<Rightarrow> IRBlock \<Rightarrow> IRBlock" where
  "build_vector instr pc ir block =
    (let rd = ucast (d_rd instr); rn = ucast (d_rn instr); rm = ucast (d_rm instr);
         opcode = d_opcode instr
     in
      if opcode = 0xA0 then
        emit_ir (ir\<lparr>i_op := Op_VEC_DUP, i_dest := rd, i_src1 := rm,
                    i_imm := ucast (d_size instr)\<rparr>) block
      else if opcode = 0xA1 then
        emit_ir (ir\<lparr>i_op := Op_VEC_ADD8, i_dest := rd, i_src1 := rn, i_src2 := rm\<rparr>) block
      else if opcode = 0xA2 then
        emit_ir (ir\<lparr>i_op := Op_VEC_SUB8, i_dest := rd, i_src1 := rn, i_src2 := rm\<rparr>) block
      else if opcode = 0xA3 then
        emit_ir (ir\<lparr>i_op := Op_VEC_AND, i_dest := rd, i_src1 := rn, i_src2 := rm\<rparr>) block
      else if opcode = 0xA4 then
        emit_ir (ir\<lparr>i_op := Op_VEC_OR, i_dest := rd, i_src1 := rn, i_src2 := rm\<rparr>) block
      else if opcode = 0xA5 then
        emit_ir (ir\<lparr>i_op := Op_VEC_XOR, i_dest := rd, i_src1 := rn, i_src2 := rm\<rparr>) block
      else if opcode = 0xA6 then
        emit_ir (ir\<lparr>i_op := Op_VEC_AND, i_dest := rd, i_src1 := rn, i_src2 := rm\<rparr>) block
      else emit_ir (ir\<lparr>i_op := Op_NOP\<rparr>) block)"

definition build_memory_system :: "DecodedInstr \<Rightarrow> u64 \<Rightarrow> IRInst \<Rightarrow> IRBlock \<Rightarrow> IRBlock" where
  "build_memory_system instr pc ir block =
    (let rn = ucast (d_rn instr); rm = ucast (d_rm instr); rt = ucast (d_rt instr);
         opcode = d_opcode instr
     in
      if opcode = 0x63 then
        emit_ir (ir\<lparr>i_op := Op_LOAD64, i_dest := rt, i_src1 := rn, i_imm := d_imm instr\<rparr>) block
      else if opcode = 0x62 then
        emit_ir (ir\<lparr>i_op := Op_LOAD32, i_dest := rt, i_src1 := rn, i_imm := d_imm instr\<rparr>) block
      else if opcode = 0x73 then
        emit_ir (ir\<lparr>i_op := Op_STORE64, i_src1 := rn, i_src2 := rt, i_imm := d_imm instr\<rparr>) block
      else if opcode = 0x72 then
        emit_ir (ir\<lparr>i_op := Op_STORE32, i_src1 := rn, i_src2 := rt, i_imm := d_imm instr\<rparr>) block
      else if opcode = 0x80 then
        emit_ir (ir\<lparr>i_op := Op_LOAD_PAIR, i_dest := rt, i_src1 := rn, i_src2 := rm,
                    i_imm := d_imm_s instr\<rparr>) block
      else if opcode = 0x81 then
        emit_ir (ir\<lparr>i_op := Op_STORE_PAIR, i_src1 := rn, i_src2 := rt, i_imm := d_imm_s instr\<rparr>) block
      else if opcode = 0x90 then
        emit_ir (ir\<lparr>i_op := Op_NOP\<rparr>) block
      else if opcode = 0x91 \<or> opcode = 0x92 \<or> opcode = 0x93 then
        emit_ir (ir\<lparr>i_op := Op_BARRIER\<rparr>) block
      else if opcode = 0xFF then
        emit_ir (ir\<lparr>i_op := Op_SYSCALL, i_imm := d_imm instr\<rparr>) block
      else build_vector instr pc ir block)"

definition build_branch :: "DecodedInstr \<Rightarrow> u64 \<Rightarrow> IRInst \<Rightarrow> IRBlock \<Rightarrow> IRBlock" where
  "build_branch instr pc ir block =
    (let opcode = d_opcode instr
     in
      if opcode = 0x50 then
        emit_ir (ir\<lparr>i_op := Op_JMP, i_imm := pc + scast (d_branch_offset instr)\<rparr>) block
      else if opcode = 0x51 then
        emit_ir (ir\<lparr>i_op := Op_CALL, i_imm := pc + scast (d_branch_offset instr)\<rparr>)
          (emit_ir (IRInst_init\<lparr>i_op := Op_SET_REG, i_dest := 30, i_src1 := IR_NONE,
                                i_imm := pc + 4\<rparr>) block)
      else if opcode = 0x53 then
        emit_ir (ir\<lparr>i_op := Op_RET, i_src1 := 30\<rparr>) block
      else if opcode = 0x54 then
        emit_ir (ir\<lparr>i_op := Op_JMP_COND, i_flags_used := True,
                    i_imm := pc + ucast (d_branch_offset instr), i_cond := d_cond instr\<rparr>)
          (block\<lparr>b_is_conditional := True,
                  b_branch_target_taken := pc + ucast (d_branch_offset instr),
                  b_branch_target_fallthrough := pc + 4\<rparr>)
      else if opcode = 0x55 then compare_and_branch 0 instr pc ir block
      else if opcode = 0x56 then compare_and_branch 1 instr pc ir block
      else build_memory_system instr pc ir block)"

definition build_instr :: "DecodedInstr \<Rightarrow> u64 \<Rightarrow> IRBlock \<Rightarrow> bool \<times> IRBlock" where
  "build_instr instr pc block =
    (let ir = IRInst_init\<lparr>i_size := (if d_size instr \<noteq> 0 then 8 else 4)\<rparr>;
         rd = ucast (d_rd instr); rn = ucast (d_rn instr); rm = ucast (d_rm instr);
         opcode = d_opcode instr
     in (True,
      if opcode = 0x00 then
        emit_ir (arith_operand instr (ir\<lparr>i_op := Op_ADD, i_dest := rd, i_src1 := rn\<rparr>)
                   \<lparr>i_flags_set := d_sets_flags instr\<rparr>) block
      else if opcode = 0x01 then
        emit_ir (arith_operand instr (ir\<lparr>i_op := Op_SUB, i_dest := rd, i_src1 := rn\<rparr>)
                   \<lparr>i_flags_set := d_sets_flags instr\<rparr>) block
      else if opcode = 0x04 then
        emit_ir (ir\<lparr>i_op := Op_SAR, i_dest := rd, i_src1 := rn, i_src2 := IR_IMM,
                    i_imm := d_imm instr\<rparr>) block
      else if opcode = 0x05 then
        emit_ir (ir\<lparr>i_op := Op_SHR, i_dest := rd, i_src1 := rn, i_src2 := IR_IMM,
                    i_imm := d_imm instr\<rparr>) block
      else if opcode = 0x06 then
        emit_ir (ir\<lparr>i_op := Op_SHL, i_dest := rd, i_src1 := rn, i_src2 := IR_IMM,
                    i_imm := d_imm instr\<rparr>) block
      else if opcode = 0x20 then
        emit_ir (ir\<lparr>i_op := Op_SET_REG, i_dest := rd, i_src1 := rm\<rparr>) block
      else if opcode = 0x21 \<or> opcode = 0x22 \<or> opcode = 0x23 then
        emit_ir (ir\<lparr>i_op := Op_MOV_IMM, i_dest := rd, i_imm := d_imm instr\<rparr>) block
      else if opcode = 0x24 then
        emit_ir (ir\<lparr>i_op := Op_MOV_IMM, i_dest := rd, i_imm := pc + d_imm_s instr\<rparr>) block
      else if opcode = 0x25 then
        emit_ir (ir\<lparr>i_op := Op_MOV_IMM, i_dest := rd,
                    i_imm := (pc AND NOT 0xFFF) + push_bit 12 (d_imm_s instr)\<rparr>) block
      else if opcode = 0x30 then
        emit_ir (ir\<lparr>i_op := Op_CMP, i_src1 := rn, i_src2 := rm, i_flags_set := True\<rparr>) block
      else if opcode = 0x31 then
        emit_ir (ir\<lparr>i_op := Op_TST, i_src1 := rn, i_src2 := rm, i_flags_set := True\<rparr>) block
      else build_branch instr pc ir block))"

definition ends_block :: "InstrCategory \<Rightarrow> bool" where
  "ends_block cat \<longleftrightarrow> cat = BRANCH \<or> cat = BRANCH_COND \<or> cat = CAT_SYSCALL"

fun build_loop :: "DecodedInstr list \<Rightarrow> u32 \<Rightarrow> u64 \<Rightarrow> IRBlock \<Rightarrow> bool \<times> IRBlock" where
  "build_loop [] i start_pc out = (True, out)"
| "build_loop (d # ds) i start_pc out =
     (let (ok, out) = build_instr d (start_pc + ucast (i * 4)) out
      in if \<not> ok then (False, out)
         else if ends_block (d_category d) then (True, out\<lparr>b_arm_instr_count := i + 1\<rparr>)
         else build_loop ds (i + 1) start_pc out)"

definition build :: "DecodedInstr list \<Rightarrow> u32 \<Rightarrow> u64 \<Rightarrow> IRBlock \<Rightarrow> bool \<times> IRBlock" where
  "build instructions count start_pc out =
    (let out = out\<lparr>b_arm_pc_start := start_pc, b_arm_instr_count := count,
                   b_is_conditional := False\<rparr>;
         (ok, out) = build_loop (take (unat count) instructions) 0 start_pc out
     in if \<not> ok then (False, out)
        else (True, out\<lparr>b_arm_pc_end := start_pc + ucast (b_arm_instr_count out * 4)\<rparr>))"

text \<open>The builder object: its counter is set back by every call of \<open>build\<close>.\<close>

record IRBuilder =
  ib_next_reg :: IRReg

definition IRBuilder_init :: IRBuilder where
  "IRBuilder_init = \<lparr>ib_next_reg = 1\<rparr>"

definition IRBuilder_alloc_reg :: "IRBuilder \<Rightarrow> IRReg \<times> IRBuilder" where
  "IRBuilder_alloc_reg b = (ib_next_reg b, b\<lparr>ib_next_reg := ib_next_reg b + 1\<rparr>)"

definition IRBuilder_build :: "DecodedInstr list \<Rightarrow> u32 \<Rightarrow> u64 \<Rightarrow> IRBlock \<Rightarrow> IRBuilder \<Rightarrow> bool \<times> IRBlock \<times> IRBuilder" where
  "IRBuilder_build instructions count start_pc out b =
     (case build instructions count start_pc out of (ok, out) \<Rightarrow> (ok, out, b\<lparr>ib_next_reg := 1\<rparr>))"

text \<open>The registers a builder hands out after a reset: the numbers from 1 on, at width 16; the
  65535th is the marker \<open>IR_IMM\<close> and the next one \<open>IR_NONE\<close>.\<close>

fun alloc_regs :: "nat \<Rightarrow> IRBuilder \<Rightarrow> IRReg list" where
  "alloc_regs 0 b = []"
| "alloc_regs (Suc n) b = (let (r, b) = IRBuilder_alloc_reg b in r # alloc_regs n b)"

lemma alloc_regs_result: "alloc_regs n b = map (\<lambda>i. ib_next_reg b + of_nat i) [0..<n]"
proof (induction n arbitrary: b)
  case (Suc n)
  have "map (\<lambda>i. ib_next_reg b + of_nat i) [0..<Suc n] = ib_next_reg b # map (\<lambda>i. ib_next_reg b + 1 + of_nat i) [0..<n]"
    by (simp add: upt_conv_Cons map_Suc_upt [symmetric] add.assoc del: upt_Suc)
  with Suc show ?case by (simp add: IRBuilder_alloc_reg_def)
qed simp

lemma alloc_regs_distinct:
  assumes "n < 65535" "IRBuilder_build ds k pc out b = (ok, out', b')"
  shows "distinct (alloc_regs n b')" "IR_NONE \<notin> set (alloc_regs n b')" "IR_IMM \<notin> set (alloc_regs n b')"
proof -
  have b': "ib_next_reg b' = 1" using assms(2) by (auto simp: IRBuilder_build_def split: prod.splits)
  have u: "unat (1 + of_nat i :: IRReg) = i + 1" if "i < n" for i
  proof -
    have "unat (of_nat (Suc i) :: IRReg) = Suc i"
      using that assms(1) by (simp only: unsigned_of_nat) (simp add: take_bit_nat_eq_self)
    then show ?thesis by simp
  qed
  have "inj_on (\<lambda>i. 1 + of_nat i :: IRReg) {0..<n}"
  proof (rule inj_onI)
    fix i j assume "i \<in> {0..<n}" "j \<in> {0..<n}" "(1 + of_nat i :: IRReg) = 1 + of_nat j"
    then have "i + 1 = j + 1" by (metis u atLeastLessThan_iff)
    then show "i = j" by simp
  qed
  then show "distinct (alloc_regs n b')" by (simp add: alloc_regs_result b' distinct_map)
  have "unat r \<noteq> 0 \<and> unat r \<noteq> 0xFFFF" if "r \<in> set (alloc_regs n b')" for r
    using that u assms(1) by (auto simp: alloc_regs_result b')
  then show "IR_NONE \<notin> set (alloc_regs n b')" "IR_IMM \<notin> set (alloc_regs n b')"
    by (force simp: IR_NONE_def, force simp: IR_IMM_def)
qed

section \<open>The optimiser\<close>

definition constant_propagation :: "IRBlock \<Rightarrow> IRBlock" where
  "constant_propagation block = block"

definition dead_code_elimination :: "IRBlock \<Rightarrow> IRBlock" where
  "dead_code_elimination block = block"

text \<open>The inner loop: from position \<open>i + 1\<close> on, is a use of the flags met before the next
  instruction that sets them?\<close>

fun flags_used_between :: "IRInst list \<Rightarrow> bool" where
  "flags_used_between [] = False"
| "flags_used_between (x # xs) =
     (if i_flags_used x then True else if i_flags_set x then False else flags_used_between xs)"

definition flag_merging_step :: "nat \<Rightarrow> IRInst list \<Rightarrow> IRInst list" where
  "flag_merging_step i xs =
     (if i_flags_set (xs ! i) \<and> i_flags_set (xs ! (i + 1))
      then if \<not> flags_used_between (drop (i + 1) xs)
           then xs[i := (xs ! i)\<lparr>i_flags_set := False\<rparr>] else xs
      else xs)"

definition flag_merging :: "IRBlock \<Rightarrow> IRBlock" where
  "flag_merging block =
     block\<lparr>b_instructions :=
       fold flag_merging_step [0..<length (b_instructions block) - 1] (b_instructions block)\<rparr>"

definition optimize :: "IRBlock \<Rightarrow> IRBlock" where
  "optimize block = flag_merging (dead_code_elimination (constant_propagation block))"

section \<open>What the builder produces\<close>

definition appends :: "(IRBlock \<Rightarrow> IRBlock) \<Rightarrow> bool" where
  "appends f \<longleftrightarrow> (\<forall>b. b_instructions (f b) = b_instructions b @ b_instructions (f IRBlock_init))"

lemma appends_emit: "appends (emit_ir ir)"
  by (simp add: appends_def emit_ir_def IRBlock_init_def)

lemma appends_if: "appends f \<Longrightarrow> appends g \<Longrightarrow> appends (\<lambda>b. if c then f b else g b)"
  by (cases c) simp_all

lemma appends_special:
  "appends (\<lambda>b. emit_ir i1 (emit_ir i2 b))"
  "appends (\<lambda>b. emit_ir i1 (b\<lparr>b_is_conditional := True, b_branch_target_taken := t,
                               b_branch_target_fallthrough := f\<rparr>))"
  "appends (compare_and_branch cond d pc ir)"
  by (simp_all add: appends_def emit_ir_def IRBlock_init_def compare_and_branch_def Let_def)

lemmas appends_intros = appends_if appends_special appends_emit

lemma appends_vector: "appends (build_vector d pc ir)"
  unfolding build_vector_def [abs_def] Let_def by (intro appends_intros)

lemma appends_memory_system: "appends (build_memory_system d pc ir)"
  unfolding build_memory_system_def [abs_def] Let_def by (intro appends_intros appends_vector)

lemma appends_branch: "appends (build_branch d pc ir)"
  unfolding build_branch_def [abs_def] Let_def by (intro appends_intros appends_memory_system)

lemma appends_build_instr: "appends (\<lambda>b. snd (build_instr d pc b))"
  unfolding build_instr_def [abs_def] Let_def snd_conv by (intro appends_intros appends_branch)

lemma fst_build_instr [simp]: "fst (build_instr d pc b) = True"
  by (simp add: build_instr_def Let_def)

text \<open>The instructions one decoded instruction contributes.\<close>

definition instr_ir :: "DecodedInstr \<Rightarrow> u64 \<Rightarrow> IRInst list" where
  "instr_ir d pc = b_instructions (snd (build_instr d pc IRBlock_init))"

lemma b_instructions_build_instr [simp]:
  "b_instructions (snd (build_instr d pc b)) = b_instructions b @ instr_ir d pc"
  using appends_build_instr [of d pc] unfolding appends_def instr_ir_def by (rule spec)

text \<open>No case of the switch touches the fields \<open>build\<close> maintains.\<close>

definition keeps_frame :: "(IRBlock \<Rightarrow> IRBlock) \<Rightarrow> bool" where
  "keeps_frame f \<longleftrightarrow> (\<forall>b. b_arm_pc_start (f b) = b_arm_pc_start b \<and>
     b_arm_instr_count (f b) = b_arm_instr_count b \<and> b_arm_pc_end (f b) = b_arm_pc_end b)"

lemma keeps_frame_intros:
  "keeps_frame f \<Longrightarrow> keeps_frame g \<Longrightarrow> keeps_frame (\<lambda>b. if c then f b else g b)"
  "keeps_frame (\<lambda>b. emit_ir i1 (emit_ir i2 b))"
  "keeps_frame (\<lambda>b. emit_ir i1 (b\<lparr>b_is_conditional := True, b_branch_target_taken := t,
                               b_branch_target_fallthrough := h\<rparr>))"
  "keeps_frame (compare_and_branch cond d pc ir)"
  "keeps_frame (emit_ir ir)"
  by (simp_all add: keeps_frame_def emit_ir_def compare_and_branch_def Let_def)

lemma keeps_frame_build_instr: "keeps_frame (\<lambda>b. snd (build_instr d pc b))"
  unfolding build_instr_def [abs_def] build_branch_def build_memory_system_def build_vector_def
    Let_def snd_conv
  by (intro keeps_frame_intros)

lemma frame_build_instr [simp]:
  "b_arm_pc_start (snd (build_instr d pc b)) = b_arm_pc_start b"
  "b_arm_instr_count (snd (build_instr d pc b)) = b_arm_instr_count b"
  using keeps_frame_build_instr [of d pc] by (simp_all add: keeps_frame_def)

text \<open>The instructions a block is built from: up to and including the first one that ends it.\<close>

fun block_prefix :: "DecodedInstr list \<Rightarrow> DecodedInstr list" where
  "block_prefix [] = []"
| "block_prefix (d # ds) = (if ends_block (d_category d) then [d] else d # block_prefix ds)"

lemma block_prefix_takeWhile:
  "block_prefix ds = takeWhile (\<lambda>d. \<not> ends_block (d_category d)) ds @
     take 1 (dropWhile (\<lambda>d. \<not> ends_block (d_category d)) ds)"
  by (induction ds) auto

lemma block_prefix_all: "\<forall>d\<in>set ds. \<not> ends_block (d_category d) \<Longrightarrow> block_prefix ds = ds"
  by (induction ds) auto

definition block_ir :: "DecodedInstr list \<Rightarrow> u32 \<Rightarrow> u64 \<Rightarrow> IRInst list" where
  "block_ir ds i pc = concat (map (\<lambda>(k, d). instr_ir d (pc + ucast ((i + of_nat k) * 4))) (enumerate 0 ds))"

lemma block_ir_simps [simp]:
  "block_ir [] i pc = []"
  "block_ir (d # ds) i pc = instr_ir d (pc + ucast (i * 4)) @ block_ir ds (i + 1) pc"
proof -
  have "enumerate 1 ds = map (\<lambda>(k, d). (Suc k, d)) (enumerate 0 ds)"
    by (rule nth_equalityI) (simp_all add: nth_enumerate_eq)
  then show "block_ir (d # ds) i pc = instr_ir d (pc + ucast (i * 4)) @ block_ir ds (i + 1) pc"
    by (simp add: block_ir_def case_prod_beta' comp_def add.assoc)
qed (simp add: block_ir_def)

lemma build_loop_result:
  "fst (build_loop ds i pc out)"
  "b_instructions (snd (build_loop ds i pc out)) = b_instructions out @ block_ir (block_prefix ds) i pc"
  "b_arm_pc_start (snd (build_loop ds i pc out)) = b_arm_pc_start out"
  "b_arm_instr_count (snd (build_loop ds i pc out)) =
     (if \<exists>d\<in>set ds. ends_block (d_category d) then i + of_nat (length (block_prefix ds))
      else b_arm_instr_count out)"
  by (induction ds arbitrary: i out) (simp_all add: split_beta add.commute add.left_commute)


section \<open>What the optimiser keeps\<close>

text \<open>The reference: a flag setter loses its mark exactly when its successor sets the flags
  and does not use them.\<close>

definition merged_flags :: "IRInst list \<Rightarrow> nat \<Rightarrow> bool" where
  "merged_flags xs i \<longleftrightarrow> i_flags_set (xs ! i) \<and>
     \<not> (i + 1 < length xs \<and> i_flags_set (xs ! (i + 1)) \<and> \<not> i_flags_used (xs ! (i + 1)))"

definition merge_reference :: "IRInst list \<Rightarrow> IRInst list" where
  "merge_reference xs = map (\<lambda>i. (xs ! i)\<lparr>i_flags_set := merged_flags xs i\<rparr>) [0..<length xs]"

lemma flags_used_between_setter:
  "xs \<noteq> [] \<Longrightarrow> i_flags_set (hd xs) \<Longrightarrow> flags_used_between xs = i_flags_used (hd xs)"
  by (cases xs) auto

lemma ir_flags_same [simp]: "i_flags_set x = b \<Longrightarrow> x\<lparr>i_flags_set := b\<rparr> = x"
  by (cases x) simp

lemma flag_merging_step_nth:
  assumes "i + 1 < length xs"
  shows "flag_merging_step i xs = xs[i := (xs ! i)\<lparr>i_flags_set := merged_flags xs i\<rparr>]"
proof -
  from assms have "drop (i + 1) xs \<noteq> []" and "hd (drop (i + 1) xs) = xs ! (i + 1)"
    by (simp_all add: hd_drop_conv_nth)
  then show ?thesis using assms flags_used_between_setter [of "drop (i + 1) xs"]
    by (auto simp: flag_merging_step_def merged_flags_def list_update_same_conv)
qed

lemma flag_merging_fold:
  assumes "m < length xs"
  shows "fold flag_merging_step [0..<m] xs = take m (merge_reference xs) @ drop m xs"
  using assms
proof (induction m)
  case 0
  then show ?case by simp
next
  case (Suc m)
  let ?ys = "take m (merge_reference xs) @ drop m xs"
  have len: "length (merge_reference xs) = length xs" by (simp add: merge_reference_def)
  have nth: "?ys ! m = xs ! m" "?ys ! Suc m = xs ! Suc m" and L: "length ?ys = length xs"
    using Suc.prems len by (simp_all add: nth_append)
  have "fold flag_merging_step [0..<Suc m] xs = flag_merging_step m ?ys"
    using Suc by simp
  also have "\<dots> = ?ys[m := (xs ! m)\<lparr>i_flags_set := merged_flags xs m\<rparr>]"
    using Suc.prems L nth by (simp only: flag_merging_step_nth merged_flags_def Suc_eq_plus1)
  also have "\<dots> = take (Suc m) (merge_reference xs) @ drop (Suc m) xs"
    using Suc.prems len
    by (intro nth_equalityI)
       (auto simp: nth_append nth_list_update merge_reference_def less_Suc_eq nth_Cons split: nat.splits)
  finally show ?case .
qed

lemma flag_merging_reference:
  "b_instructions (flag_merging block) = merge_reference (b_instructions block)"
proof (cases "b_instructions block = []")
  case True
  then show ?thesis by (simp add: flag_merging_def merge_reference_def)
next
  case False
  let ?xs = "b_instructions block" let ?m = "length ?xs - 1"
  have m: "?m < length ?xs" using False by simp
  have len: "length (merge_reference ?xs) = length ?xs" by (simp add: merge_reference_def)
  have "merged_flags ?xs ?m = i_flags_set (?xs ! ?m)"
    using False by (simp add: merged_flags_def)
  then have "merge_reference ?xs ! ?m = ?xs ! ?m"
    using m by (simp add: merge_reference_def)
  then have "take ?m (merge_reference ?xs) @ drop ?m ?xs = merge_reference ?xs"
    using m len by (intro nth_equalityI) (auto simp: nth_append less_Suc_eq)
  then show ?thesis using flag_merging_fold [OF m] by (simp add: flag_merging_def)
qed

text \<open>The position of the last flag setter before position \<open>j\<close>.\<close>

primrec last_setter :: "IRInst list \<Rightarrow> nat \<Rightarrow> nat option" where
  "last_setter xs 0 = None"
| "last_setter xs (Suc j) = (if i_flags_set (xs ! j) then Some j else last_setter xs j)"

lemma last_setter_Some:
  "last_setter xs j = Some m \<longleftrightarrow>
     m < j \<and> i_flags_set (xs ! m) \<and> (\<forall>k. m < k \<and> k < j \<longrightarrow> \<not> i_flags_set (xs ! k))"
  by (induction j) (auto simp: less_Suc_eq)

lemma last_setter_None: "last_setter xs j = None \<longleftrightarrow> (\<forall>k<j. \<not> i_flags_set (xs ! k))"
  by (induction j) (auto simp: less_Suc_eq)

lemma nth_merge_reference [simp]:
  "i < length xs \<Longrightarrow> merge_reference xs ! i = (xs ! i)\<lparr>i_flags_set := merged_flags xs i\<rparr>"
  by (simp add: merge_reference_def)

lemma last_setter_merge:
  assumes j: "j = length xs \<or> (j < length xs \<and> i_flags_used (xs ! j))"
  shows "last_setter (merge_reference xs) j = last_setter xs j"
proof (cases "last_setter xs j")
  case None
  then have "\<forall>k<j. \<not> i_flags_set (xs ! k)" by (simp add: last_setter_None)
  with j show ?thesis unfolding None by (auto simp: last_setter_None merged_flags_def)
next
  case (Some m)
  then have m: "m < j" "i_flags_set (xs ! m)" and after: "\<And>k. m < k \<Longrightarrow> k < j \<Longrightarrow> \<not> i_flags_set (xs ! k)"
    by (auto simp: last_setter_Some)
  have "\<not> (m + 1 < length xs \<and> i_flags_set (xs ! (m + 1)) \<and> \<not> i_flags_used (xs ! (m + 1)))"
    using after [of "m + 1"] m(1) j by (cases "m + 1 = j") auto
  with m have "merged_flags xs m" by (simp add: merged_flags_def)
  moreover have "\<not> merged_flags xs k" if "m < k" "k < j" for k
    using after [OF that] by (simp add: merged_flags_def)
  ultimately show ?thesis using m j unfolding Some last_setter_Some by auto
qed

section \<open>Properties\<close>

text \<open>C17: Translating a block: the builder always succeeds, it appends the IR of the decoded
  instructions up to and including the first branch or system call, each at its own guest
  address, and it records the start address, the number of instructions consumed and the
  address after the last of them.\<close>

theorem build_block:
  assumes "length ds = unat count"
  shows "fst (build ds count pc out) \<and>
    b_instructions (snd (build ds count pc out)) = b_instructions out @ block_ir (block_prefix ds) 0 pc \<and>
    b_arm_pc_start (snd (build ds count pc out)) = pc \<and>
    b_arm_instr_count (snd (build ds count pc out)) = of_nat (length (block_prefix ds)) \<and>
    b_arm_pc_end (snd (build ds count pc out)) = pc + ucast (of_nat (length (block_prefix ds)) * 4 :: u32)"
proof -
  let ?out = "out\<lparr>b_arm_pc_start := pc, b_arm_instr_count := count, b_is_conditional := False\<rparr>"
  have count: "count = of_nat (length ds)" using assms by simp
  have all: "block_prefix ds = ds" if "\<not> (\<exists>d\<in>set ds. ends_block (d_category d))"
    using that by (intro block_prefix_all) blast
  have n: "b_arm_instr_count (snd (build_loop ds 0 pc ?out)) = of_nat (length (block_prefix ds))"
    unfolding build_loop_result using all count by auto
  have "build ds count pc out = (True, (snd (build_loop ds 0 pc ?out))
      \<lparr>b_arm_pc_end := pc + ucast (b_arm_instr_count (snd (build_loop ds 0 pc ?out)) * 4)\<rparr>)"
    using build_loop_result(1) [of ds 0 pc ?out] assms by (simp add: build_def Let_def split_beta)
  then show ?thesis by (simp add: n build_loop_result(2,3))
qed

theorem build_block_witness:
  "let b = snd (decode 0x14000002); ds = [DecodedInstr_zero, b, DecodedInstr_zero]
   in b_arm_instr_count (snd (build ds 3 0x1000 IRBlock_init)) = 2 \<and>
      b_arm_pc_end (snd (build ds 3 0x1000 IRBlock_init)) = 0x1008"
proof -
  have b: "d_category (snd (decode 0x14000002)) = BRANCH"
    by (simp add: decode_b_bl_eq bits_def)
  show ?thesis
    using build_block [of "[DecodedInstr_zero, snd (decode 0x14000002), DecodedInstr_zero]" 3 "0x1000" IRBlock_init]
    by (simp add: b ends_block_def DecodedInstr_zero_def)
qed

text \<open>C16: Flag merging is transparent to every consumer of the flags: it only clears
  \<open>flags_set\<close> marks, so the block keeps its instructions, and for every instruction that uses the
  flags, and for the end of the block, the last instruction that sets them is the same one
  before and after the optimiser.\<close>

theorem optimize_keeps_flag_producers:
  assumes "xs = b_instructions block" and "ys = b_instructions (optimize block)"
  shows "map (i_flags_set_update (\<lambda>_. False)) ys = map (i_flags_set_update (\<lambda>_. False)) xs \<and>
    (\<forall>j. j = length xs \<or> (j < length xs \<and> i_flags_used (xs ! j)) \<longrightarrow> last_setter ys j = last_setter xs j)"
proof -
  have ys: "ys = merge_reference xs"
    using assms by (simp add: optimize_def constant_propagation_def dead_code_elimination_def
      flag_merging_reference)
  have "map (i_flags_set_update (\<lambda>_. False)) ys = map (i_flags_set_update (\<lambda>_. False)) xs"
    unfolding ys merge_reference_def by (intro nth_equalityI) simp_all
  then show ?thesis unfolding ys by (simp add: last_setter_merge)
qed

theorem optimize_keeps_flag_producers_witness:
  "let s = IRInst_init\<lparr>i_op := Op_SUB, i_flags_set := True\<rparr>;
       u = IRInst_init\<lparr>i_op := Op_JMP_COND, i_flags_used := True\<rparr>;
       b = IRBlock_init\<lparr>b_instructions := [s, s, u]\<rparr>
   in map i_flags_set (b_instructions (optimize b)) = [False, True, False] \<and>
      last_setter (b_instructions (optimize b)) 2 = last_setter (b_instructions b) 2"
  using optimize_keeps_flag_producers [OF refl refl, of "IRBlock_init\<lparr>b_instructions :=
     [IRInst_init\<lparr>i_op := Op_SUB, i_flags_set := True\<rparr>, IRInst_init\<lparr>i_op := Op_SUB, i_flags_set := True\<rparr>,
      IRInst_init\<lparr>i_op := Op_JMP_COND, i_flags_used := True\<rparr>]\<rparr>"]
  by (simp add: optimize_def constant_propagation_def dead_code_elimination_def
      flag_merging_reference merge_reference_def merged_flags_def IRInst_init_def IRBlock_init_def
      upt_rec)

section \<open>From the instruction word to the IR\<close>

lemmas instr_ir_eval = instr_ir_def build_instr_def build_branch_def build_memory_system_def
  build_vector_def emit_ir_def

lemma scast_eq_of_int_sint: "(scast w :: 'b::len word) = word_of_int (sint w)"
  by simp

text \<open>A B word is translated into one jump and a BL word into the store of the return
  address and a call; the target is the instruction's address plus four times the signed
  26-bit immediate, as the architecture has it.\<close>

theorem translate_b_bl:
  assumes "bits instr 30 26 = 0b00101"
    and "target = pc + word_of_int (4 * sint (ucast instr :: 26 word))"
  shows "instr_ir (snd (decode instr)) pc =
    (if bit instr 31
     then [IRInst_init\<lparr>i_op := Op_SET_REG, i_dest := 30, i_imm := pc + 4\<rparr>,
           IRInst_init\<lparr>i_size := 4, i_op := Op_CALL, i_imm := target\<rparr>]
     else [IRInst_init\<lparr>i_size := 4, i_op := Op_JMP, i_imm := target\<rparr>])"
proof -
  have "(scast (push_bit 2 (sign_extend (ucast instr) 26)) :: u64) =
      word_of_int (4 * sint (ucast instr :: 26 word))"
    by (simp only: scast_eq_of_int_sint branch_offset_imm26)
  with assms show ?thesis
    by (simp add: decode_b_bl_eq instr_ir_eval DecodedInstr_zero_def IRBlock_init_def
      IRInst_init_def IR_NONE_def)
qed

theorem translate_b_bl_witness:
  "bits 0x97FFFFFF 30 26 = 0b00101 \<and>
   map i_op (instr_ir (snd (decode 0x97FFFFFF)) 0x1000) = [Op_SET_REG, Op_CALL] \<and>
   map i_imm (instr_ir (snd (decode 0x97FFFFFF)) 0x1000) = [0x1004, 0xFFC]"
  using translate_b_bl [of "0x97FFFFFF", OF _ refl, of "0x1000"] by (simp add: bits_def)

text \<open>An ADRP word is translated into a load of the constant that the architecture defines:
  the page of the instruction's address plus 4096 times the signed 21-bit immediate that the
  two fields of the word form.\<close>

theorem translate_adrp:
  assumes "bit instr 31" and "bits instr 28 24 = 0b10000"
    and "imm21 = (word_cat (ucast (drop_bit 5 instr) :: 19 word) (ucast (drop_bit 29 instr) :: 2 word) :: 21 word)"
  shows "instr_ir (snd (decode instr)) pc =
    [IRInst_init\<lparr>i_size := 4, i_op := Op_MOV_IMM, i_dest := ucast (bits instr 4 0),
       i_imm := (pc AND NOT 0xFFF) + word_of_int (4096 * sint imm21)\<rparr>]"
proof -
  let ?w = "scast (sign_extend (pcrel_imm21 instr) 21) :: i64"
  have "push_bit 12 ?w = word_of_int (2 ^ 12 * sint ?w)"
    by (simp add: push_bit_eq_mult mult.commute)
  then have "push_bit 12 ?w = word_of_int (4096 * sint imm21)"
    unfolding assms(3) adrp_imm21 by simp
  moreover have "(ucast (ucast (bits instr 4 0) :: u8) :: IRReg) = ucast (bits instr 4 0)"
    by (simp add: word_eq_iff_bits all_less_numeral bit_simps bits_def)
  ultimately show ?thesis using assms(1,2)
    by (simp add: decode_adrp_eq instr_ir_eval DecodedInstr_zero_def IRBlock_init_def)
qed

theorem translate_adrp_witness:
  "bit (0xF0FFFFE3 :: u32) 31 \<and> bits 0xF0FFFFE3 28 24 = 0b10000 \<and>
   map i_imm (instr_ir (snd (decode 0xF0FFFFE3)) 0x401234) = [0x400000]"
  using translate_adrp [of "0xF0FFFFE3", OF _ _ refl, of "0x401234"] by (simp add: bits_def word_cat_eq)

text \<open>C38: The words of ADD (register), shifted or extended, are decoded as the logical operation
  BICS with the flag-setting mark, because the test for the addition looks for another bit
  pattern, and the builder turns every logical operation into a NOP: the translated block
  drops the addition.\<close>

theorem translate_add_register:
  assumes "bits instr 30 24 = 0b0001011"
  shows "d_category (snd (decode instr)) = LOGICAL \<and> d_opcode (snd (decode instr)) = 0x17 \<and>
    map i_op (instr_ir (snd (decode instr)) pc) = [Op_NOP]"
  using decode_add_register_logical [OF assms]
  by (simp add: instr_ir_eval IRBlock_init_def)

theorem translate_add_register_witness:
  "bits 0x8B020020 30 24 = 0b0001011 \<and>
   map i_op (instr_ir (snd (decode 0x8B020020)) 0x1000) = [Op_NOP]"
  using translate_add_register [of "0x8B020020" "0x1000"] by (simp add: bits_def)

end
