(* ===== verification/Emitter.thy ===== *)
theory Emitter
  imports Prelude
begin

text \<open>
  The x86-64 code emitter (\<^verbatim>\<open>src/src/backend/x86_64_emitter.hpp\<close> and \<^verbatim>\<open>.cpp\<close>).  The output buffer
  is the list of bytes of the memory the emitter was given, \<^const>\<open>None\<close> for the null pointer;
  \<open>size_t\<close> values are natural numbers (buffer sizes are far below \<open>2 ^ 64\<close>).  Every emitting
  method is a function on the emitter's state, a sequence of calls is their composition with
  \<open>seq\<close>.
\<close>

section \<open>Registers and condition codes\<close>

definition RAX :: u8 where "RAX = 0"
definition RCX :: u8 where "RCX = 1"
definition RDX :: u8 where "RDX = 2"
definition RBX :: u8 where "RBX = 3"
definition RSP :: u8 where "RSP = 4"
definition RBP :: u8 where "RBP = 5"
definition RSI :: u8 where "RSI = 6"
definition RDI :: u8 where "RDI = 7"
definition R8 :: u8 where "R8 = 8"
definition R9 :: u8 where "R9 = 9"
definition R10 :: u8 where "R10 = 10"
definition R11 :: u8 where "R11 = 11"
definition R12 :: u8 where "R12 = 12"
definition R13 :: u8 where "R13 = 13"
definition R14 :: u8 where "R14 = 14"
definition R15 :: u8 where "R15 = 15"

definition CC_O :: u8 where "CC_O = 0"
definition CC_NO :: u8 where "CC_NO = 1"
definition CC_B :: u8 where "CC_B = 2"
definition CC_NB :: u8 where "CC_NB = 3"
definition CC_Z :: u8 where "CC_Z = 4"
definition CC_NZ :: u8 where "CC_NZ = 5"
definition CC_BE :: u8 where "CC_BE = 6"
definition CC_NBE :: u8 where "CC_NBE = 7"
definition CC_S :: u8 where "CC_S = 8"
definition CC_NS :: u8 where "CC_NS = 9"
definition CC_P :: u8 where "CC_P = 10"
definition CC_NP :: u8 where "CC_NP = 11"
definition CC_L :: u8 where "CC_L = 12"
definition CC_NL :: u8 where "CC_NL = 13"
definition CC_LE :: u8 where "CC_LE = 14"
definition CC_NLE :: u8 where "CC_NLE = 15"

lemmas reg_defs = RAX_def RCX_def RDX_def RBX_def RSP_def RBP_def RSI_def RDI_def
  R8_def R9_def R10_def R11_def R12_def R13_def R14_def R15_def
lemmas cc_defs = CC_O_def CC_NO_def CC_B_def CC_NB_def CC_Z_def CC_NZ_def CC_BE_def CC_NBE_def
  CC_S_def CC_NS_def CC_P_def CC_NP_def CC_L_def CC_NL_def CC_LE_def CC_NLE_def

section \<open>The emitter\<close>

record X86_64Emitter =
  e_buf :: "u8 list option"
  e_size :: nat
  e_offset :: nat

definition X86_64Emitter_init :: X86_64Emitter where
  "X86_64Emitter_init = \<lparr>e_buf = None, e_size = 0, e_offset = 0\<rparr>"

definition set_buffer :: "u8 list option \<Rightarrow> nat \<Rightarrow> X86_64Emitter \<Rightarrow> X86_64Emitter" where
  "set_buffer buf sz e = e\<lparr>e_buf := buf, e_size := sz, e_offset := 0\<rparr>"

definition code_size :: "X86_64Emitter \<Rightarrow> nat" where
  "code_size e = e_offset e"

subsection \<open>Raw bytes\<close>

definition emit_byte :: "u8 \<Rightarrow> X86_64Emitter \<Rightarrow> X86_64Emitter" where
  "emit_byte b e = (case e_buf e of
       None \<Rightarrow> e
     | Some buf \<Rightarrow> if e_offset e < e_size e
                  then e\<lparr>e_buf := Some (buf[e_offset e := b]), e_offset := e_offset e + 1\<rparr> else e)"

definition emit_word :: "u16 \<Rightarrow> X86_64Emitter \<Rightarrow> X86_64Emitter" where
  "emit_word w = seq [emit_byte (ucast (w AND 0xFF)), emit_byte (ucast (drop_bit 8 w AND 0xFF))]"

definition emit_dword :: "u32 \<Rightarrow> X86_64Emitter \<Rightarrow> X86_64Emitter" where
  "emit_dword d =
     seq [emit_byte (ucast (d AND 0xFF)), emit_byte (ucast (drop_bit 8 d AND 0xFF)),
       emit_byte (ucast (drop_bit 16 d AND 0xFF)), emit_byte (ucast (drop_bit 24 d AND 0xFF))]"

definition emit_qword :: "u64 \<Rightarrow> X86_64Emitter \<Rightarrow> X86_64Emitter" where
  "emit_qword q = seq [emit_dword (ucast (q AND 0xFFFFFFFF)), emit_dword (ucast (drop_bit 32 q))]"

definition emit_rex :: "bool \<Rightarrow> u8 \<Rightarrow> u8 \<Rightarrow> u8 \<Rightarrow> X86_64Emitter \<Rightarrow> X86_64Emitter" where
  "emit_rex w r x b =
     emit_byte (0x40 OR (if w then 0x08 else 0) OR push_bit 2 (r AND 1) OR push_bit 1 (x AND 1) OR (b AND 1))"

definition emit_vex :: "bool \<Rightarrow> bool \<Rightarrow> bool \<Rightarrow> u8 \<Rightarrow> bool \<Rightarrow> u8 \<Rightarrow> u8 \<Rightarrow> X86_64Emitter \<Rightarrow> X86_64Emitter" where
  "emit_vex r x b mmmmm w vvvv pp =
     seq [emit_byte 0xC4,
       emit_byte ((if r then 0 else 0x80) OR (if x then 0 else 0x40) OR (if b then 0 else 0x20) OR mmmmm),
       emit_byte ((if w then 0x80 else 0) OR push_bit 3 (vvvv AND 0xF) OR pp)]"

subsection \<open>Register instructions\<close>

text \<open>The two byte patterns most methods share: REX.W with the high bits of two registers,
  and the ModR/M byte of the register-register form.\<close>

definition rex_rr :: "u8 \<Rightarrow> u8 \<Rightarrow> X86_64Emitter \<Rightarrow> X86_64Emitter" where
  "rex_rr dst src = emit_rex True (drop_bit 3 src AND 1) 0 (drop_bit 3 dst AND 1)"

definition modrm_rr :: "u8 \<Rightarrow> u8 \<Rightarrow> u8" where
  "modrm_rr dst src = 0xC0 OR push_bit 3 (src AND 7) OR (dst AND 7)"

definition emit_mov_reg_imm :: "u8 \<Rightarrow> u64 \<Rightarrow> X86_64Emitter \<Rightarrow> X86_64Emitter" where
  "emit_mov_reg_imm reg imm =
     seq [(if reg \<ge> 8 then emit_rex True 0 0 1 else emit_rex True 0 0 0),
       emit_byte (0xB8 + (reg AND 7)), emit_qword imm]"

definition emit_mov_reg_reg :: "u8 \<Rightarrow> u8 \<Rightarrow> X86_64Emitter \<Rightarrow> X86_64Emitter" where
  "emit_mov_reg_reg dst src = seq [rex_rr dst src, emit_byte 0x89, emit_byte (modrm_rr dst src)]"

definition emit_add_reg_reg :: "u8 \<Rightarrow> u8 \<Rightarrow> X86_64Emitter \<Rightarrow> X86_64Emitter" where
  "emit_add_reg_reg dst src = seq [rex_rr dst src, emit_byte 0x01, emit_byte (modrm_rr dst src)]"

definition emit_sub_reg_reg :: "u8 \<Rightarrow> u8 \<Rightarrow> X86_64Emitter \<Rightarrow> X86_64Emitter" where
  "emit_sub_reg_reg dst src = seq [rex_rr dst src, emit_byte 0x29, emit_byte (modrm_rr dst src)]"

definition emit_and_reg_reg :: "u8 \<Rightarrow> u8 \<Rightarrow> X86_64Emitter \<Rightarrow> X86_64Emitter" where
  "emit_and_reg_reg dst src = seq [rex_rr dst src, emit_byte 0x21, emit_byte (modrm_rr dst src)]"

definition emit_or_reg_reg :: "u8 \<Rightarrow> u8 \<Rightarrow> X86_64Emitter \<Rightarrow> X86_64Emitter" where
  "emit_or_reg_reg dst src = seq [rex_rr dst src, emit_byte 0x09, emit_byte (modrm_rr dst src)]"

definition emit_xor_reg_reg :: "u8 \<Rightarrow> u8 \<Rightarrow> X86_64Emitter \<Rightarrow> X86_64Emitter" where
  "emit_xor_reg_reg dst src = seq [rex_rr dst src, emit_byte 0x31, emit_byte (modrm_rr dst src)]"

definition emit_mul_reg :: "u8 \<Rightarrow> X86_64Emitter \<Rightarrow> X86_64Emitter" where
  "emit_mul_reg src =
     seq [emit_rex True 0 0 (src AND 1), emit_byte 0xF7, emit_byte (0xE0 OR (src AND 7))]"

definition emit_imul_reg_reg :: "u8 \<Rightarrow> u8 \<Rightarrow> X86_64Emitter \<Rightarrow> X86_64Emitter" where
  "emit_imul_reg_reg dst src = seq [rex_rr dst src, emit_byte 0x0F, emit_byte 0xAF, emit_byte (modrm_rr dst src)]"

definition emit_div_reg :: "u8 \<Rightarrow> X86_64Emitter \<Rightarrow> X86_64Emitter" where
  "emit_div_reg src =
     seq [emit_rex True 0 0 (src AND 1), emit_byte 0xF7, emit_byte (0xF0 OR (src AND 7))]"

definition emit_idiv_reg :: "u8 \<Rightarrow> X86_64Emitter \<Rightarrow> X86_64Emitter" where
  "emit_idiv_reg src =
     seq [emit_rex True 0 0 (src AND 1), emit_byte 0xF7, emit_byte (0xF8 OR (src AND 7))]"

definition emit_shl_reg_imm :: "u8 \<Rightarrow> u8 \<Rightarrow> X86_64Emitter \<Rightarrow> X86_64Emitter" where
  "emit_shl_reg_imm reg imm =
     seq [emit_rex True 0 0 (reg AND 1), emit_byte 0xC1, emit_byte (0xE0 OR (reg AND 7)), emit_byte imm]"

definition emit_shr_reg_imm :: "u8 \<Rightarrow> u8 \<Rightarrow> X86_64Emitter \<Rightarrow> X86_64Emitter" where
  "emit_shr_reg_imm reg imm =
     seq [emit_rex True 0 0 (reg AND 1), emit_byte 0xC1, emit_byte (0xE8 OR (reg AND 7)), emit_byte imm]"

definition emit_sar_reg_imm :: "u8 \<Rightarrow> u8 \<Rightarrow> X86_64Emitter \<Rightarrow> X86_64Emitter" where
  "emit_sar_reg_imm reg imm =
     seq [emit_rex True 0 0 (reg AND 1), emit_byte 0xC1, emit_byte (0xF8 OR (reg AND 7)), emit_byte imm]"

definition emit_ror_reg_imm :: "u8 \<Rightarrow> u8 \<Rightarrow> X86_64Emitter \<Rightarrow> X86_64Emitter" where
  "emit_ror_reg_imm reg imm =
     seq [emit_rex True 0 0 (reg AND 1), emit_byte 0xC1, emit_byte (0xC8 OR (reg AND 7)), emit_byte imm]"

definition emit_shl_reg_cl :: "u8 \<Rightarrow> X86_64Emitter \<Rightarrow> X86_64Emitter" where
  "emit_shl_reg_cl reg =
     seq [emit_rex True 0 0 (reg AND 1), emit_byte 0xD3, emit_byte (0xE0 OR (reg AND 7))]"

definition emit_shr_reg_cl :: "u8 \<Rightarrow> X86_64Emitter \<Rightarrow> X86_64Emitter" where
  "emit_shr_reg_cl reg =
     seq [emit_rex True 0 0 (reg AND 1), emit_byte 0xD3, emit_byte (0xE8 OR (reg AND 7))]"

definition emit_sar_reg_cl :: "u8 \<Rightarrow> X86_64Emitter \<Rightarrow> X86_64Emitter" where
  "emit_sar_reg_cl reg =
     seq [emit_rex True 0 0 (reg AND 1), emit_byte 0xD3, emit_byte (0xF8 OR (reg AND 7))]"

definition emit_neg_reg :: "u8 \<Rightarrow> X86_64Emitter \<Rightarrow> X86_64Emitter" where
  "emit_neg_reg reg =
     seq [emit_rex True 0 0 (reg AND 1), emit_byte 0xF7, emit_byte (0xD8 OR (reg AND 7))]"

definition emit_cmp_reg_reg :: "u8 \<Rightarrow> u8 \<Rightarrow> X86_64Emitter \<Rightarrow> X86_64Emitter" where
  "emit_cmp_reg_reg dst src = seq [rex_rr dst src, emit_byte 0x39, emit_byte (modrm_rr dst src)]"

definition emit_test_reg_reg :: "u8 \<Rightarrow> u8 \<Rightarrow> X86_64Emitter \<Rightarrow> X86_64Emitter" where
  "emit_test_reg_reg dst src = seq [rex_rr dst src, emit_byte 0x85, emit_byte (modrm_rr dst src)]"

definition emit_test_reg_imm :: "u8 \<Rightarrow> u32 \<Rightarrow> X86_64Emitter \<Rightarrow> X86_64Emitter" where
  "emit_test_reg_imm reg imm =
     seq [emit_rex True 0 0 (reg AND 1), emit_byte 0xF7, emit_byte (0xC0 OR (reg AND 7)), emit_dword imm]"

subsection \<open>Memory operands\<close>

text \<open>The operand \<open>[base + disp]\<close>: the same six cases follow the opcode in both directions
  of the move; a base whose low bits are 4 needs a SIB byte.\<close>

definition emit_mem_operand :: "u8 \<Rightarrow> u8 \<Rightarrow> i32 \<Rightarrow> X86_64Emitter \<Rightarrow> X86_64Emitter" where
  "emit_mem_operand reg base disp =
    (let r = push_bit 3 (reg AND 7) in
     if disp = 0 \<and> base AND 7 \<noteq> 4 then emit_byte (r OR (base AND 7))
     else if disp = 0 \<and> base AND 7 = 4 then seq [emit_byte (r OR 0x04), emit_byte 0x24]
     else if sint disp \<ge> -128 \<and> sint disp \<le> 127 \<and> base AND 7 \<noteq> 4 then
       seq [emit_byte (0x40 OR r OR (base AND 7)), emit_byte (ucast (disp AND 0xFF))]
     else if sint disp \<ge> -128 \<and> sint disp \<le> 127 \<and> base AND 7 = 4 then
       seq [emit_byte (0x40 OR r OR 0x04), emit_byte 0x24, emit_byte (ucast (disp AND 0xFF))]
     else if base AND 7 \<noteq> 4 then seq [emit_byte (0x80 OR r OR (base AND 7)), emit_dword disp]
     else seq [emit_byte (0x80 OR r OR 0x04), emit_byte 0x24, emit_dword disp])"

definition emit_mov_reg_mem :: "u8 \<Rightarrow> u8 \<Rightarrow> i32 \<Rightarrow> X86_64Emitter \<Rightarrow> X86_64Emitter" where
  "emit_mov_reg_mem reg base disp =
     seq [emit_rex True (drop_bit 3 reg AND 1) 0 (drop_bit 3 base AND 1), emit_byte 0x8B,
       emit_mem_operand reg base disp]"

definition emit_mov_mem_reg :: "u8 \<Rightarrow> i32 \<Rightarrow> u8 \<Rightarrow> X86_64Emitter \<Rightarrow> X86_64Emitter" where
  "emit_mov_mem_reg base disp reg =
     seq [emit_rex True (drop_bit 3 reg AND 1) 0 (drop_bit 3 base AND 1), emit_byte 0x89,
       emit_mem_operand reg base disp]"

definition emit_mov_reg_mem64 :: "u8 \<Rightarrow> u8 \<Rightarrow> i32 \<Rightarrow> X86_64Emitter \<Rightarrow> X86_64Emitter" where
  "emit_mov_reg_mem64 reg base disp = emit_mov_reg_mem reg base disp"

definition emit_mov_mem64_reg :: "u8 \<Rightarrow> i32 \<Rightarrow> u8 \<Rightarrow> X86_64Emitter \<Rightarrow> X86_64Emitter" where
  "emit_mov_mem64_reg base disp reg = emit_mov_mem_reg base disp reg"

subsection \<open>Control flow\<close>

text \<open>\<open>offset - 4\<close> is a subtraction of \<open>int32_t\<close>, undefined when it overflows.\<close>

definition rel_minus_4 :: "i32 \<Rightarrow> u32 option" where
  "rel_minus_4 off = (if sint off - 4 < - (2 ^ 31) then None else Some (off - 4))"

definition emit_jmp_rel :: "i32 \<Rightarrow> X86_64Emitter \<Rightarrow> X86_64Emitter option" where
  "emit_jmp_rel off e = map_option (\<lambda>d. (seq [emit_byte 0xE9, emit_dword d]) e) (rel_minus_4 off)"

definition emit_jcc_rel :: "u8 \<Rightarrow> i32 \<Rightarrow> X86_64Emitter \<Rightarrow> X86_64Emitter option" where
  "emit_jcc_rel cc off e =
     map_option (\<lambda>d. (seq [emit_byte 0x0F, emit_byte (0x80 OR cc), emit_dword d]) e) (rel_minus_4 off)"

definition emit_call_rel :: "i32 \<Rightarrow> X86_64Emitter \<Rightarrow> X86_64Emitter option" where
  "emit_call_rel off e = map_option (\<lambda>d. (seq [emit_byte 0xE8, emit_dword d]) e) (rel_minus_4 off)"

definition emit_ret :: "X86_64Emitter \<Rightarrow> X86_64Emitter" where
  "emit_ret = emit_byte 0xC3"

subsection \<open>Conditional moves, extensions, bit counts\<close>

definition emit_cmovcc_reg_reg :: "u8 \<Rightarrow> u8 \<Rightarrow> u8 \<Rightarrow> X86_64Emitter \<Rightarrow> X86_64Emitter" where
  "emit_cmovcc_reg_reg cc dst src =
     seq [rex_rr dst src, emit_byte 0x0F, emit_byte (0x40 OR cc), emit_byte (modrm_rr dst src)]"

definition emit_movzx_reg8_reg :: "u8 \<Rightarrow> u8 \<Rightarrow> X86_64Emitter \<Rightarrow> X86_64Emitter" where
  "emit_movzx_reg8_reg dst src = seq [rex_rr dst src, emit_byte 0x0F, emit_byte 0xB6, emit_byte (modrm_rr dst src)]"

definition emit_movzx_reg16_reg :: "u8 \<Rightarrow> u8 \<Rightarrow> X86_64Emitter \<Rightarrow> X86_64Emitter" where
  "emit_movzx_reg16_reg dst src = seq [rex_rr dst src, emit_byte 0x0F, emit_byte 0xB7, emit_byte (modrm_rr dst src)]"

definition emit_movsx_reg8_reg :: "u8 \<Rightarrow> u8 \<Rightarrow> X86_64Emitter \<Rightarrow> X86_64Emitter" where
  "emit_movsx_reg8_reg dst src = seq [rex_rr dst src, emit_byte 0x0F, emit_byte 0xBE, emit_byte (modrm_rr dst src)]"

definition emit_movsx_reg16_reg :: "u8 \<Rightarrow> u8 \<Rightarrow> X86_64Emitter \<Rightarrow> X86_64Emitter" where
  "emit_movsx_reg16_reg dst src = seq [rex_rr dst src, emit_byte 0x0F, emit_byte 0xBF, emit_byte (modrm_rr dst src)]"

definition emit_cdq :: "X86_64Emitter \<Rightarrow> X86_64Emitter" where
  "emit_cdq = emit_byte 0x99"

definition emit_cqo :: "X86_64Emitter \<Rightarrow> X86_64Emitter" where
  "emit_cqo = seq [emit_rex True 0 0 0, emit_byte 0x99]"

definition emit_bswap :: "u8 \<Rightarrow> X86_64Emitter \<Rightarrow> X86_64Emitter" where
  "emit_bswap reg =
     seq [emit_rex True 0 0 (reg AND 1), emit_byte 0x0F, emit_byte (0xC8 OR (reg AND 7))]"

definition emit_lzcnt :: "u8 \<Rightarrow> u8 \<Rightarrow> X86_64Emitter \<Rightarrow> X86_64Emitter" where
  "emit_lzcnt dst src = seq [rex_rr dst src, emit_byte 0xF3, emit_byte 0x0F, emit_byte 0xBD, emit_byte (modrm_rr dst src)]"

definition emit_tzcnt :: "u8 \<Rightarrow> u8 \<Rightarrow> X86_64Emitter \<Rightarrow> X86_64Emitter" where
  "emit_tzcnt dst src = seq [rex_rr dst src, emit_byte 0xF3, emit_byte 0x0F, emit_byte 0xBC, emit_byte (modrm_rr dst src)]"

definition emit_nop :: "X86_64Emitter \<Rightarrow> X86_64Emitter" where
  "emit_nop = emit_byte 0x90"

definition emit_int3 :: "X86_64Emitter \<Rightarrow> X86_64Emitter" where
  "emit_int3 = emit_byte 0xCC"

subsection \<open>Immediate operands\<close>

text \<open>The short form of all six: opcode 0x81 with a 32-bit immediate.\<close>

definition emit_imm32_form :: "u8 \<Rightarrow> u8 \<Rightarrow> u64 \<Rightarrow> X86_64Emitter \<Rightarrow> X86_64Emitter" where
  "emit_imm32_form base reg imm =
     seq [emit_rex True 0 0 (reg AND 1), emit_byte 0x81, emit_byte (base OR (reg AND 7)),
       emit_dword (ucast imm)]"

definition emit_add_reg_imm :: "u8 \<Rightarrow> u64 \<Rightarrow> X86_64Emitter \<Rightarrow> X86_64Emitter" where
  "emit_add_reg_imm reg imm =
     (if imm \<le> 0xFFFFFFFF then emit_imm32_form 0xC0 reg imm
      else seq [emit_mov_reg_reg RAX reg, emit_rex True 0 0 0, emit_byte 0x48, emit_byte 0x05,
             emit_qword imm, emit_mov_reg_reg reg RAX])"

definition emit_sub_reg_imm :: "u8 \<Rightarrow> u64 \<Rightarrow> X86_64Emitter \<Rightarrow> X86_64Emitter" where
  "emit_sub_reg_imm reg imm =
     (if imm \<le> 0xFFFFFFFF then emit_imm32_form 0xE8 reg imm
      else seq [emit_mov_reg_reg RAX reg, emit_rex True 0 0 0, emit_byte 0x2D,
             emit_qword imm, emit_mov_reg_reg reg RAX])"

definition emit_and_reg_imm :: "u8 \<Rightarrow> u64 \<Rightarrow> X86_64Emitter \<Rightarrow> X86_64Emitter" where
  "emit_and_reg_imm reg imm =
     (if imm \<le> 0xFFFFFFFF then emit_imm32_form 0xE0 reg imm else emit_mov_reg_imm reg imm)"

definition emit_or_reg_imm :: "u8 \<Rightarrow> u64 \<Rightarrow> X86_64Emitter \<Rightarrow> X86_64Emitter" where
  "emit_or_reg_imm reg imm =
     (if imm \<le> 0xFFFFFFFF then emit_imm32_form 0xC8 reg imm else emit_mov_reg_imm reg imm)"

definition emit_xor_reg_imm :: "u8 \<Rightarrow> u64 \<Rightarrow> X86_64Emitter \<Rightarrow> X86_64Emitter" where
  "emit_xor_reg_imm reg imm =
     (if imm \<le> 0xFFFFFFFF then emit_imm32_form 0xF0 reg imm else emit_mov_reg_imm reg imm)"

definition emit_cmp_reg_imm :: "u8 \<Rightarrow> u64 \<Rightarrow> X86_64Emitter \<Rightarrow> X86_64Emitter" where
  "emit_cmp_reg_imm reg imm =
     (if imm \<le> 0xFFFFFFFF then emit_imm32_form 0xF8 reg imm
      else seq [emit_mov_reg_reg RAX reg, emit_rex True 0 0 0, emit_byte 0x3D, emit_qword imm])"

subsection \<open>Patching\<close>

text \<open>A 32-bit store into the buffer, little-endian.\<close>

definition patch_dword_at :: "nat \<Rightarrow> u32 \<Rightarrow> X86_64Emitter \<Rightarrow> X86_64Emitter" where
  "patch_dword_at off value e = (case e_buf e of
       None \<Rightarrow> e
     | Some buf \<Rightarrow> if off + 4 \<le> e_size e
                  then e\<lparr>e_buf := Some (take off buf @ le_bytes 4 value @ drop (off + 4) buf)\<rparr> else e)"

section \<open>The byte-sink interface\<close>

text \<open>
  What a client that only appends bytes relies on: a byte is appended while there is room and
  dropped afterwards.
\<close>

locale byte_sink =
  fixes put :: "u8 \<Rightarrow> 's \<Rightarrow> 's"
    and contents :: "'s \<Rightarrow> u8 list"
    and room :: "'s \<Rightarrow> nat"
    and invar :: "'s \<Rightarrow> bool"
  assumes put_contents: "invar s \<Longrightarrow> 0 < room s \<Longrightarrow> contents (put b s) = contents s @ [b]"
    and put_room: "invar s \<Longrightarrow> 0 < room s \<Longrightarrow> room (put b s) = room s - 1"
    and put_full: "invar s \<Longrightarrow> room s = 0 \<Longrightarrow> put b s = s"
    and put_invar: "invar s \<Longrightarrow> invar (put b s)"
begin

lemma puts_full: "invar s \<Longrightarrow> room s = 0 \<Longrightarrow> fold put bs s = s"
  by (induction bs) (simp_all add: put_full)

lemma puts_invar: "invar s \<Longrightarrow> invar (fold put bs s)"
  by (induction bs arbitrary: s) (simp_all add: put_invar)

lemma puts_contents: "invar s \<Longrightarrow> contents (fold put bs s) = contents s @ take (room s) bs"
proof (induction bs arbitrary: s)
  case (Cons b bs)
  then show ?case
    by (cases "room s") (simp_all add: put_invar put_contents put_room puts_full put_full)
qed simp

lemma puts_room: "invar s \<Longrightarrow> room (fold put bs s) = room s - length bs"
proof (induction bs arbitrary: s)
  case (Cons b bs)
  then show ?case
    by (cases "room s") (simp_all add: put_invar put_room puts_full put_full)
qed simp

end

definition emitter_wf :: "X86_64Emitter \<Rightarrow> bool" where
  "emitter_wf e \<longleftrightarrow> (case e_buf e of None \<Rightarrow> True
     | Some buf \<Rightarrow> e_size e \<le> length buf \<and> e_offset e \<le> e_size e)"

definition emitted :: "X86_64Emitter \<Rightarrow> u8 list" where
  "emitted e = (case e_buf e of None \<Rightarrow> [] | Some buf \<Rightarrow> take (e_offset e) buf)"

definition emit_room :: "X86_64Emitter \<Rightarrow> nat" where
  "emit_room e = (case e_buf e of None \<Rightarrow> 0 | Some buf \<Rightarrow> e_size e - e_offset e)"

lemmas emitter_view = emitter_wf_def emitted_def emit_room_def

interpretation em: byte_sink emit_byte emitted emit_room emitter_wf
  by unfold_locales
     (auto simp: emitter_view emit_byte_def take_Suc_conv_app_nth split: option.splits)

text \<open>A method emits a fixed list of bytes.\<close>

definition emits :: "(X86_64Emitter \<Rightarrow> X86_64Emitter) \<Rightarrow> u8 list \<Rightarrow> bool" where
  "emits f bs \<longleftrightarrow> f = fold emit_byte bs"

lemma emits_byte: "emits (emit_byte b) [b]"
  by (simp add: emits_def fun_eq_iff)

lemma emits_seq: "emits (seq []) []" "emits f a \<Longrightarrow> emits (seq fs) b \<Longrightarrow> emits (seq (f # fs)) (a @ b)"
  by (simp_all add: emits_def fun_eq_iff)

lemma emits_dword: "emits (emit_dword d) (le_bytes 4 d)"
proof -
  have "le_bytes 4 d = [ucast d, ucast (drop_bit 8 d), ucast (drop_bit 16 d), ucast (drop_bit 24 d)]"
    by (simp add: le_bytes_def upt_rec)
  moreover have "(ucast (w AND 0xFF) :: u8) = ucast w" for w :: u32
    by (simp add: word_eq_iff_bits all_less_numeral bit_simps)
  ultimately show ?thesis by (simp add: emits_def emit_dword_def fun_eq_iff)
qed

lemma emits_qword: "emits (emit_qword q) (le_bytes 8 q)"
proof -
  have b: "(ucast (drop_bit k (ucast q :: u32)) :: u8) = ucast (drop_bit k q)" if "k \<le> 24" for k
    using that by (intro bit_word_eqI) (auto simp: bit_simps)
  have lo: "(ucast (q AND 0xFFFFFFFF) :: u32) = ucast q"
    by (simp add: word_eq_iff_bits all_less_numeral bit_simps)
  have hi: "(ucast (drop_bit k (ucast (drop_bit 32 q) :: u32)) :: u8) = ucast (drop_bit (32 + k) q)"
    if "k \<le> 24" for k
    using that by (intro bit_word_eqI) (auto simp: bit_simps ac_simps)
  have "le_bytes 8 q = le_bytes 4 (ucast q :: u32) @ le_bytes 4 (ucast (drop_bit 32 q) :: u32)"
    using b [of 0] b [of 8] b [of 16] b [of 24] hi [of 0] hi [of 8] hi [of 16] hi [of 24]
    by (simp add: le_bytes_def upt_rec)
  then show ?thesis
    using emits_seq(2) [OF emits_dword emits_seq(2) [OF emits_dword emits_seq(1)]]
    by (simp add: emit_qword_def lo)
qed

subsection \<open>The bytes of the methods the lowering uses\<close>

definition rex_byte :: "bool \<Rightarrow> bool \<Rightarrow> bool \<Rightarrow> u8" where
  "rex_byte w r b = 0x40 OR (if w then 0x08 else 0) OR (if r then 0x04 else 0) OR (if b then 0x01 else 0)"

lemma emits_rex: "emits (emit_rex w r 0 b) [rex_byte w (bit r 0) (bit b 0)]"
proof -
  have "v AND 1 = of_bool (bit v 0)" for v :: u8
    by (simp add: word_eq_iff_bits all_less_numeral bit_simps)
  then show ?thesis by (simp add: emit_rex_def rex_byte_def emits_def fun_eq_iff)
qed

lemma bit_shift_and_one [simp]: "bit (drop_bit k v) 0 = bit v k" "bit (v AND 1) 0 = bit v 0"
  for v :: "'a::len word"
  by (simp_all add: bit_simps)

definition rr_bytes :: "u8 list \<Rightarrow> u8 \<Rightarrow> u8 \<Rightarrow> u8 list" where
  "rr_bytes ops dst src = rex_byte True (bit src 3) (bit dst 3) # ops @ [modrm_rr dst src]"

lemma emits_rex_rr: "emits (rex_rr dst src) [rex_byte True (bit src 3) (bit dst 3)]"
  using emits_rex [of True "drop_bit 3 src AND 1" "drop_bit 3 dst AND 1"] by (simp add: rex_rr_def)

lemma emits_rr:
  "emits (emit_mov_reg_reg dst src) (rr_bytes [0x89] dst src)"
  "emits (emit_add_reg_reg dst src) (rr_bytes [0x01] dst src)"
  "emits (emit_sub_reg_reg dst src) (rr_bytes [0x29] dst src)"
  "emits (emit_and_reg_reg dst src) (rr_bytes [0x21] dst src)"
  "emits (emit_or_reg_reg dst src) (rr_bytes [0x09] dst src)"
  "emits (emit_xor_reg_reg dst src) (rr_bytes [0x31] dst src)"
  "emits (emit_cmp_reg_reg dst src) (rr_bytes [0x39] dst src)"
  "emits (emit_test_reg_reg dst src) (rr_bytes [0x85] dst src)"
  "emits (emit_imul_reg_reg dst src) (rr_bytes [0x0F, 0xAF] dst src)"
  using emits_rex_rr [of dst src]
  by (simp_all add: emits_def fun_eq_iff rr_bytes_def emit_mov_reg_reg_def emit_add_reg_reg_def
    emit_sub_reg_reg_def emit_and_reg_reg_def emit_or_reg_reg_def emit_xor_reg_reg_def
    emit_cmp_reg_reg_def emit_test_reg_reg_def emit_imul_reg_reg_def)

text \<open>The one-operand group: REX.B is the lowest bit of the register number.\<close>

definition ext_bytes :: "u8 \<Rightarrow> u8 \<Rightarrow> u8 \<Rightarrow> u8 list" where
  "ext_bytes op base reg = [rex_byte True False (bit reg 0), op, base OR (reg AND 7)]"

lemma emits_rex_ext: "emits (emit_rex True 0 0 (reg AND 1)) [rex_byte True False (bit reg 0)]"
  using emits_rex [of True 0 "reg AND 1"] by simp

lemma emits_shift:
  "emits (emit_shl_reg_imm reg k) (ext_bytes 0xC1 0xE0 reg @ [k])"
  "emits (emit_shr_reg_imm reg k) (ext_bytes 0xC1 0xE8 reg @ [k])"
  "emits (emit_sar_reg_imm reg k) (ext_bytes 0xC1 0xF8 reg @ [k])"
  "emits (emit_shl_reg_cl reg) (ext_bytes 0xD3 0xE0 reg)"
  "emits (emit_shr_reg_cl reg) (ext_bytes 0xD3 0xE8 reg)"
  "emits (emit_sar_reg_cl reg) (ext_bytes 0xD3 0xF8 reg)"
  using emits_rex_ext [of reg]
  by (simp_all add: emits_def fun_eq_iff ext_bytes_def emit_shl_reg_imm_def emit_shr_reg_imm_def
    emit_sar_reg_imm_def emit_shl_reg_cl_def emit_shr_reg_cl_def emit_sar_reg_cl_def)

lemma emits_mov_reg_imm:
  "emits (emit_mov_reg_imm reg imm) (rex_byte True False (reg \<ge> 8) # (0xB8 + (reg AND 7)) # le_bytes 8 imm)"
  using emits_rex [of True 0 0] emits_rex [of True 0 1] emits_qword [of imm]
  by (simp add: emits_def fun_eq_iff emit_mov_reg_imm_def)

lemma emits_imm32_form:
  "emits (emit_imm32_form base reg imm) (ext_bytes 0x81 base reg @ le_bytes 4 (ucast imm :: u32))"
  using emits_rex_ext [of reg] emits_dword [of "ucast imm"]
  by (simp add: emits_def fun_eq_iff emit_imm32_form_def ext_bytes_def)

definition mem_operand_bytes :: "u8 \<Rightarrow> u8 \<Rightarrow> i32 \<Rightarrow> u8 list" where
  "mem_operand_bytes reg base disp =
    (let r = push_bit 3 (reg AND 7); short = (sint disp \<ge> -128 \<and> sint disp \<le> 127);
         sib = (base AND 7 = 4);
         md = (if disp = 0 then 0 else if short then 0x40 else 0x80)
     in [md OR r OR (base AND 7)] @ (if sib then [0x24] else []) @
        (if disp = 0 then [] else if short then [ucast disp] else le_bytes 4 disp))"

lemma emits_mem_operand: "emits (emit_mem_operand reg base disp) (mem_operand_bytes reg base disp)"
proof -
  have "(ucast (disp AND 0xFF) :: u8) = ucast disp"
    by (simp add: word_eq_iff_bits all_less_numeral bit_simps)
  then show ?thesis using emits_dword [of disp]
    by (auto simp: emits_def fun_eq_iff emit_mem_operand_def mem_operand_bytes_def Let_def)
qed

lemma emits_mov_reg_mem:
  "emits (emit_mov_reg_mem reg base disp)
     (rex_byte True (bit reg 3) (bit base 3) # 0x8B # mem_operand_bytes reg base disp)"
  using emits_rex [of True "drop_bit 3 reg AND 1" "drop_bit 3 base AND 1"] emits_mem_operand
  by (simp add: emits_def fun_eq_iff emit_mov_reg_mem_def)

lemma emits_mov_mem_reg:
  "emits (emit_mov_mem_reg base disp reg)
     (rex_byte True (bit reg 3) (bit base 3) # 0x89 # mem_operand_bytes reg base disp)"
  using emits_rex [of True "drop_bit 3 reg AND 1" "drop_bit 3 base AND 1"] emits_mem_operand
  by (simp add: emits_def fun_eq_iff emit_mov_mem_reg_def)

end
