(* ===== verification/X86_Spec.thy ===== *)
theory X86_Spec
  imports Emitter
begin

text \<open>
  A reference for the machine code the emitter writes: the encodings of the 64-bit instructions
  the lowering uses, as the Intel manual lists them, read by a disassembler \<open>x86_decode\<close>.  It
  models no code of the repository; it is the specification against which the bytes written by
  \<open>X86_64Emitter\<close> are read back.  Encodings outside the subset are \<^const>\<open>None\<close>.
\<close>

section \<open>Instructions\<close>

datatype alu = X_ADD | X_OR | X_AND | X_SUB | X_XOR | X_CMP
datatype shift = X_SHL | X_SHR | X_SAR | X_ROR
datatype operand = OReg u8 | OMem u8 i32

datatype x86 =
    MovImm u8 u64 | MovRR u8 u8 | AluRR alu u8 u8 | AluImm alu u8 u32 | TestRR u8 u8 | ImulRR u8 u8
  | Load u8 u8 i32 | Store u8 i32 u8 | ShiftImm shift u8 u8 | ShiftCl shift u8
  | Jcc u8 u32 | Pushfq | Pop u8 | Ret | Nop | Int3

definition alu_of :: "u8 \<Rightarrow> alu option" where
  "alu_of n = (if n = 0 then Some X_ADD else if n = 1 then Some X_OR else if n = 4 then Some X_AND
     else if n = 5 then Some X_SUB else if n = 6 then Some X_XOR else if n = 7 then Some X_CMP else None)"

definition shift_of :: "u8 \<Rightarrow> shift option" where
  "shift_of n = (if n = 1 then Some X_ROR else if n = 4 then Some X_SHL else if n = 5 then Some X_SHR
     else if n = 7 then Some X_SAR else None)"

section \<open>Decoding\<close>

definition take_imm :: "nat \<Rightarrow> u8 list \<Rightarrow> ('a::len word \<times> u8 list) option" where
  "take_imm n bs = (if n \<le> length bs then Some (le_word (take n bs), drop n bs) else None)"

definition ext_reg :: "bool \<Rightarrow> u8 \<Rightarrow> u8" where
  "ext_reg b n = (if b then 8 else 0) OR n"

text \<open>ModR/M with its SIB byte and displacement; the only SIB byte of the subset is 0x24, a
  base without an index, and the form \<open>[rip + disp32]\<close> is outside it.\<close>

definition x86_modrm :: "bool \<Rightarrow> bool \<Rightarrow> u8 list \<Rightarrow> (u8 \<times> operand \<times> u8 list) option" where
  "x86_modrm r b bs = (case bs of [] \<Rightarrow> None | m # bs \<Rightarrow>
     (let md = drop_bit 6 m; reg = ext_reg r (drop_bit 3 m AND 7); rm = m AND 7; base = ext_reg b rm in
      if md = 3 then Some (reg, OReg base, bs)
      else if md = 0 \<and> rm = 5 then None
      else do {
        bs \<leftarrow> (if rm = 4 then (case bs of s # bs \<Rightarrow> if s = 0x24 then Some bs else None | [] \<Rightarrow> None)
              else Some bs);
        (disp, bs) \<leftarrow> (if md = 0 then Some (0, bs)
                      else if md = 1 then map_option (\<lambda>(d :: u8, bs). (scast d, bs)) (take_imm 1 bs)
                      else take_imm 4 bs);
        Some (reg, OMem base disp, bs)
      }))"

definition x86_opcode :: "bool \<Rightarrow> bool \<Rightarrow> bool \<Rightarrow> u8 \<Rightarrow> u8 list \<Rightarrow> (x86 \<times> u8 list) option" where
  "x86_opcode w r b op bs =
     (if op = 0xC3 then Some (Ret, bs)
      else if op = 0x90 then Some (Nop, bs)
      else if op = 0xCC then Some (Int3, bs)
      else if op = 0x9C then Some (Pushfq, bs)
      else if op AND 0xF8 = 0x58 then Some (Pop (ext_reg b (op AND 7)), bs)
      else if op = 0x0F then (case bs of [] \<Rightarrow> None | op2 # bs \<Rightarrow>
        if op2 AND 0xF0 = 0x80 then
          map_option (\<lambda>(d, bs). (Jcc (op2 AND 0x0F) d, bs)) (take_imm 4 bs)
        else if op2 = 0xAF \<and> w then
          (case x86_modrm r b bs of Some (reg, OReg rm, bs) \<Rightarrow> Some (ImulRR reg rm, bs) | _ \<Rightarrow> None)
        else None)
      else if \<not> w then None
      else if op AND 0xF8 = 0xB8 then
        map_option (\<lambda>(i, bs). (MovImm (ext_reg b (op AND 7)) i, bs)) (take_imm 8 bs)
      else do {
        (reg, rm, bs) \<leftarrow> x86_modrm r b bs;
        let sub = reg AND 7;
        case rm of
          OMem base disp \<Rightarrow>
            if op = 0x8B then Some (Load reg base disp, bs)
            else if op = 0x89 then Some (Store base disp reg, bs) else None
        | OReg rm \<Rightarrow>
            if op = 0x89 then Some (MovRR rm reg, bs)
            else if op = 0x85 then Some (TestRR rm reg, bs)
            else if op AND 0xC7 = 0x01 then
              map_option (\<lambda>a. (AluRR a rm reg, bs)) (alu_of (drop_bit 3 op))
            else if op = 0x81 then do {
              a \<leftarrow> alu_of sub; (i, bs) \<leftarrow> take_imm 4 bs; Some (AluImm a rm i, bs) }
            else if op = 0xC1 then do {
              s \<leftarrow> shift_of sub; (i, bs) \<leftarrow> take_imm 1 bs; Some (ShiftImm s rm i, bs) }
            else if op = 0xD3 then map_option (\<lambda>s. (ShiftCl s rm, bs)) (shift_of sub)
            else None
      })"

definition x86_decode :: "u8 list \<Rightarrow> (x86 \<times> u8 list) option" where
  "x86_decode bs = (case bs of [] \<Rightarrow> None | p # bs \<Rightarrow>
     if p AND 0xF0 = 0x40
     then if bit p 1 then None
          else (case bs of [] \<Rightarrow> None | op # bs \<Rightarrow> x86_opcode (bit p 3) (bit p 2) (bit p 0) op bs)
     else x86_opcode False False False p bs)"

text \<open>Disassembly of a whole buffer: the bytes shrink with every instruction.\<close>

fun x86_disasm :: "nat \<Rightarrow> u8 list \<Rightarrow> x86 list option" where
  "x86_disasm fuel [] = Some []"
| "x86_disasm 0 (b # bs) = None"
| "x86_disasm (Suc fuel) (b # bs) =
     (case x86_decode (b # bs) of None \<Rightarrow> None
      | Some (i, bs') \<Rightarrow> map_option ((#) i) (x86_disasm fuel bs'))"

section \<open>Reading back what the emitter writes\<close>

lemma rex_byte_simps [simp]:
  "rex_byte w r b AND 0xF0 = 0x40" "bit (rex_byte w r b) 0 = b" "\<not> bit (rex_byte w r b) (Suc 0)"
  "bit (rex_byte w r b) 2 = r" "bit (rex_byte w r b) 3 = w"
  by (simp_all add: rex_byte_def)

lemma x86_decode_rex [simp]:
  "x86_decode (rex_byte w r b # op # bs) = x86_opcode w r b op bs"
  by (simp add: x86_decode_def)

lemma take_imm_le_bytes [simp]: "LENGTH('a) = 8 * n \<Longrightarrow> take_imm n (le_bytes n (v :: 'a::len word) @ bs) = Some (v, bs)"
  by (simp add: take_imm_def le_word_le_bytes)

lemma take_imm_byte [simp]: "take_imm (Suc 0) (b # bs) = Some (b :: u8, bs)"
  by (simp add: take_imm_def le_word_Cons)

lemma u8_high_bits [simp]: "8 \<le> n \<Longrightarrow> \<not> bit (v :: u8) n"
  using bit_imp_le_length [of v n] by auto

lemma reg16_bits: "r < 16 \<longleftrightarrow> \<not> bit r 4 \<and> \<not> bit r 5 \<and> \<not> bit r 6 \<and> \<not> bit r 7" for r :: u8
proof -
  have "r < 16 \<longleftrightarrow> take_bit 4 (unat r) = unat r"
    by (simp add: word_less_nat_alt take_bit_nat_eq_self_iff)
  also have "\<dots> \<longleftrightarrow> take_bit 4 r = r"
    by (simp add: word_unat_eq_iff unsigned_take_bit_eq)
  also have "\<dots> \<longleftrightarrow> \<not> bit r 4 \<and> \<not> bit r 5 \<and> \<not> bit r 6 \<and> \<not> bit r 7"
    by (auto simp: word_eq_iff_bits all_less_numeral bit_simps)
  finally show ?thesis .
qed

lemma ext_reg_split [simp]: "r < 16 \<Longrightarrow> ext_reg (bit r 3) (r AND 7) = r" for r :: u8
  by (simp add: ext_reg_def reg16_bits, simp add: word_eq_iff_bits all_less_numeral bit_simps)


lemma modrm_rr_fields [simp]:
  "drop_bit 6 (modrm_rr dst src) = 3" "drop_bit 3 (modrm_rr dst src) AND 7 = src AND 7"
  "modrm_rr dst src AND 7 = dst AND 7"
  by (simp_all add: modrm_rr_def, simp_all add: word_eq_iff_bits all_less_numeral bit_simps)

lemma x86_modrm_rr [simp]:
  "dst < 16 \<Longrightarrow> src < 16 \<Longrightarrow> x86_modrm (bit src 3) (bit dst 3) (modrm_rr dst src # bs) = Some (src, OReg dst, bs)"
  by (simp add: x86_modrm_def Let_def)

text \<open>The register-register forms.\<close>

lemma decode_rr:
  assumes "dst < 16" and "src < 16"
  shows "x86_decode (rr_bytes [0x89] dst src @ bs) = Some (MovRR dst src, bs)"
    and "x86_decode (rr_bytes [0x85] dst src @ bs) = Some (TestRR dst src, bs)"
    and "x86_decode (rr_bytes [0x01] dst src @ bs) = Some (AluRR X_ADD dst src, bs)"
    and "x86_decode (rr_bytes [0x09] dst src @ bs) = Some (AluRR X_OR dst src, bs)"
    and "x86_decode (rr_bytes [0x21] dst src @ bs) = Some (AluRR X_AND dst src, bs)"
    and "x86_decode (rr_bytes [0x29] dst src @ bs) = Some (AluRR X_SUB dst src, bs)"
    and "x86_decode (rr_bytes [0x31] dst src @ bs) = Some (AluRR X_XOR dst src, bs)"
    and "x86_decode (rr_bytes [0x39] dst src @ bs) = Some (AluRR X_CMP dst src, bs)"
    and "x86_decode (rr_bytes [0x0F, 0xAF] dst src @ bs) = Some (ImulRR src dst, bs)"
  using assms by (simp_all add: rr_bytes_def x86_opcode_def alu_of_def)

text \<open>The one-operand group: the register read back has its bit 3 replaced by bit 0.\<close>

definition ext_reg_read :: "u8 \<Rightarrow> u8" where
  "ext_reg_read reg = ext_reg (bit reg 0) (reg AND 7)"

lemma ext_modrm_fields:
  assumes "base AND 0xC7 = (0xC0 :: u8)"
  shows "drop_bit 6 (base OR (reg AND 7)) = 3" "drop_bit 3 (base OR (reg AND 7)) AND 7 = drop_bit 3 base AND 7"
    "(base OR (reg AND 7)) AND 7 = reg AND 7"
  using assms by (simp_all add: word_eq_iff_bits all_less_numeral bit_simps)

lemma x86_modrm_ext:
  assumes "base AND 0xC7 = (0xC0 :: u8)"
  shows "x86_modrm False b ((base OR (reg AND 7)) # bs) =
    Some (drop_bit 3 base AND 7, OReg (ext_reg b (reg AND 7)), bs)"
  unfolding x86_modrm_def list.case Let_def ext_modrm_fields [OF assms] by (simp add: ext_reg_def)

lemma decode_shift:
  "x86_decode (ext_bytes 0xC1 0xE0 reg @ k # bs) = Some (ShiftImm X_SHL (ext_reg_read reg) k, bs)"
  "x86_decode (ext_bytes 0xC1 0xE8 reg @ k # bs) = Some (ShiftImm X_SHR (ext_reg_read reg) k, bs)"
  "x86_decode (ext_bytes 0xC1 0xF8 reg @ k # bs) = Some (ShiftImm X_SAR (ext_reg_read reg) k, bs)"
  "x86_decode (ext_bytes 0xD3 0xE0 reg @ bs) = Some (ShiftCl X_SHL (ext_reg_read reg), bs)"
  "x86_decode (ext_bytes 0xD3 0xE8 reg @ bs) = Some (ShiftCl X_SHR (ext_reg_read reg), bs)"
  "x86_decode (ext_bytes 0xD3 0xF8 reg @ bs) = Some (ShiftCl X_SAR (ext_reg_read reg), bs)"
  by (simp_all add: ext_bytes_def x86_opcode_def x86_modrm_ext shift_of_def ext_reg_read_def)

lemma decode_imm32:
  "x86_decode (ext_bytes 0x81 0xC0 reg @ le_bytes 4 (i :: u32) @ bs) = Some (AluImm X_ADD (ext_reg_read reg) i, bs)"
  "x86_decode (ext_bytes 0x81 0xC8 reg @ le_bytes 4 (i :: u32) @ bs) = Some (AluImm X_OR (ext_reg_read reg) i, bs)"
  "x86_decode (ext_bytes 0x81 0xE0 reg @ le_bytes 4 (i :: u32) @ bs) = Some (AluImm X_AND (ext_reg_read reg) i, bs)"
  "x86_decode (ext_bytes 0x81 0xE8 reg @ le_bytes 4 (i :: u32) @ bs) = Some (AluImm X_SUB (ext_reg_read reg) i, bs)"
  "x86_decode (ext_bytes 0x81 0xF0 reg @ le_bytes 4 (i :: u32) @ bs) = Some (AluImm X_XOR (ext_reg_read reg) i, bs)"
  "x86_decode (ext_bytes 0x81 0xF8 reg @ le_bytes 4 (i :: u32) @ bs) = Some (AluImm X_CMP (ext_reg_read reg) i, bs)"
  by (simp_all add: ext_bytes_def x86_opcode_def x86_modrm_ext alu_of_def ext_reg_read_def)

lemma mov_imm_opcode:
  "(0xB8 + (reg AND 7)) AND 7 = reg AND 7" "(0xB8 + (reg AND 7)) AND 0xF8 = 0xB8" for reg :: u8
proof -
  have "0xB8 + (reg AND 7) = 0xB8 OR (reg AND 7)"
    by (rule disjunctive_add_eq_or) (simp add: word_eq_iff_bits all_less_numeral bit_simps)
  then show "(0xB8 + (reg AND 7)) AND 7 = reg AND 7" "(0xB8 + (reg AND 7)) AND 0xF8 = 0xB8"
    by (simp_all, simp_all add: word_eq_iff_bits all_less_numeral bit_simps)
qed

lemma decode_mov_imm:
  assumes "reg < 16"
  shows "x86_decode (rex_byte True False (reg \<ge> 8) # (0xB8 + (reg AND 7)) # le_bytes 8 imm @ bs) =
    Some (MovImm reg imm, bs)"
proof -
  have "(reg \<ge> 8) = bit reg 3"
  proof -
    have "reg < 8 \<longleftrightarrow> take_bit 3 (unat reg) = unat reg"
      by (simp add: word_less_nat_alt take_bit_nat_eq_self_iff)
    also have "\<dots> \<longleftrightarrow> take_bit 3 reg = reg"
      by (simp add: word_unat_eq_iff unsigned_take_bit_eq)
    also have "\<dots> \<longleftrightarrow> \<not> bit reg 3"
      using assms by (auto simp: reg16_bits word_eq_iff_bits all_less_numeral bit_simps)
    finally show ?thesis by auto
  qed
  moreover have "x \<noteq> 0xC3" "x \<noteq> 0x90" "x \<noteq> 0xCC" "x \<noteq> 0x9C" "x AND 0xF8 \<noteq> 0x58" "x \<noteq> 0x0F"
    if "x AND 0xF8 = 0xB8" for x :: u8
    using that by auto
  ultimately show ?thesis using assms
    by (simp add: x86_opcode_def mov_imm_opcode)
qed

lemma scast_ucast_short:
  assumes "- 128 \<le> sint (disp :: i32)" and "sint disp \<le> 127"
  shows "scast (ucast disp :: u8) = disp"
proof -
  have "sint (ucast disp :: u8) = signed_take_bit 7 (sint disp)"
    by (rule bit_eqI) (auto simp: bit_simps bit_signed_take_bit_iff min_def)
  also have "\<dots> = sint disp"
    using assms by (intro signed_take_bit_int_eq_self) simp_all
  finally show ?thesis by (metis scast_id of_int_sint)
qed

lemma mem_modrm_fields:
  fixes reg base md :: u8
  assumes "md AND 0x3F = 0"
  shows "drop_bit 6 (md OR push_bit 3 (reg AND 7) OR (base AND 7)) = drop_bit 6 md"
    "drop_bit 3 (md OR push_bit 3 (reg AND 7) OR (base AND 7)) AND 7 = reg AND 7"
    "(md OR push_bit 3 (reg AND 7) OR (base AND 7)) AND 7 = base AND 7"
  using assms by (simp_all add: word_eq_iff_bits all_less_numeral bit_simps)

lemma x86_modrm_mem:
  assumes "reg < 16" "base < 16" "disp \<noteq> 0 \<or> base AND 7 \<noteq> 5"
  shows "x86_modrm (bit reg 3) (bit base 3) (mem_operand_bytes reg base disp @ bs) =
    Some (reg, OMem base disp, bs)"
proof -
  define md :: u8 where
    "md = (if disp = 0 then 0 else if sint disp \<ge> -128 \<and> sint disp \<le> 127 then 0x40 else 0x80)"
  have md: "md AND 0x3F = 0" by (simp add: md_def)
  have base: "ext_reg (bit base 3) 4 = base" if "base AND 7 = 4"
    using ext_reg_split [OF assms(2)] that by simp
  show ?thesis
    unfolding mem_operand_bytes_def Let_def x86_modrm_def append.simps list.case
      md_def [symmetric] mem_modrm_fields [OF md]
    using assms base by (auto simp: md_def scast_ucast_short)
qed

lemma decode_load:
  assumes "reg < 16" "base < 16" "disp \<noteq> 0 \<or> base AND 7 \<noteq> 5"
  shows "x86_decode (rex_byte True (bit reg 3) (bit base 3) # 0x8B # mem_operand_bytes reg base disp @ bs) =
    Some (Load reg base disp, bs)"
  using x86_modrm_mem [OF assms] by (simp add: x86_opcode_def)

lemma decode_store:
  assumes "reg < 16" "base < 16" "disp \<noteq> 0 \<or> base AND 7 \<noteq> 5"
  shows "x86_decode (rex_byte True (bit reg 3) (bit base 3) # 0x89 # mem_operand_bytes reg base disp @ bs) =
    Some (Store base disp reg, bs)"
  using x86_modrm_mem [OF assms] by (simp add: x86_opcode_def)

end
