(* ===== verification/Regalloc.thy ===== *)
theory Regalloc
  imports Prelude
begin

text \<open>
  The register allocator (\<^verbatim>\<open>src/src/backend/x86_64_regalloc.hpp\<close> and \<^verbatim>\<open>.cpp\<close>): the static map from
  guest to host registers that the lowering uses, and the on-demand allocation of virtual
  registers.  An index outside the 256 entries of \<open>vreg_map_\<close> is undefined behaviour,
  \<^const>\<open>None\<close>.
\<close>

section \<open>Host registers\<close>

datatype X86Reg =
    Reg_RAX | Reg_RCX | Reg_RDX | Reg_RBX | Reg_RSP | Reg_RBP | Reg_RSI | Reg_RDI
  | Reg_R8 | Reg_R9 | Reg_R10 | Reg_R11 | Reg_R12 | Reg_R13 | Reg_R14 | Reg_R15 | Reg_NONE

text \<open>The enumerators' values, and the cast from an index.\<close>

fun x86reg_code :: "X86Reg \<Rightarrow> u8" where
  "x86reg_code Reg_RAX = 0"
| "x86reg_code Reg_RCX = 1"
| "x86reg_code Reg_RDX = 2"
| "x86reg_code Reg_RBX = 3"
| "x86reg_code Reg_RSP = 4"
| "x86reg_code Reg_RBP = 5"
| "x86reg_code Reg_RSI = 6"
| "x86reg_code Reg_RDI = 7"
| "x86reg_code Reg_R8 = 8"
| "x86reg_code Reg_R9 = 9"
| "x86reg_code Reg_R10 = 10"
| "x86reg_code Reg_R11 = 11"
| "x86reg_code Reg_R12 = 12"
| "x86reg_code Reg_R13 = 13"
| "x86reg_code Reg_R14 = 14"
| "x86reg_code Reg_R15 = 15"
| "x86reg_code Reg_NONE = 0xFF"

definition x86reg_of :: "nat \<Rightarrow> X86Reg" where
  "x86reg_of i =
     (if i < 16
      then [Reg_RAX, Reg_RCX, Reg_RDX, Reg_RBX, Reg_RSP, Reg_RBP, Reg_RSI, Reg_RDI,
            Reg_R8, Reg_R9, Reg_R10, Reg_R11, Reg_R12, Reg_R13, Reg_R14, Reg_R15] ! i
      else Reg_NONE)"

lemma x86reg_code_of [simp]: "i < 16 \<Longrightarrow> x86reg_code (x86reg_of i) = of_nat i"
proof -
  have "\<forall>i<16. x86reg_code (x86reg_of i) = of_nat i"
    by (simp add: all_less_numeral x86reg_of_def)
  then show "i < 16 \<Longrightarrow> x86reg_code (x86reg_of i) = of_nat i" by blast
qed

lemma x86reg_of_inj: "x86reg_of i = x86reg_of j \<Longrightarrow> i < 16 \<Longrightarrow> j < 16 \<Longrightarrow> i = j"
proof -
  assume *: "x86reg_of i = x86reg_of j" "i < 16" "j < 16"
  then have "(of_nat i :: u8) = of_nat j" by (metis x86reg_code_of)
  with * show ?thesis by (simp add: word_of_nat_eq_iff take_bit_nat_eq_self)
qed

lemma x86reg_of_ne_NONE [simp]: "i < 16 \<Longrightarrow> x86reg_of i \<noteq> Reg_NONE"
proof
  assume *: "i < 16" "x86reg_of i = Reg_NONE"
  then have "(of_nat i :: u8) = 0xFF" by (metis x86reg_code_of x86reg_code.simps(17))
  then have "unat (of_nat i :: u8) = unat (0xFF :: u8)" by simp
  with * show False by (simp add: unat_of_nat)
qed

section \<open>The static map\<close>

definition arm_to_x86_static :: "u8 \<Rightarrow> X86Reg" where
  "arm_to_x86_static arm_reg =
     (let mapping = [Reg_RAX, Reg_RCX, Reg_RDX, Reg_RBX, Reg_RSI, Reg_RDI, Reg_R8, Reg_R9,
                     Reg_R10, Reg_R11, Reg_R13, Reg_R14, Reg_R15, Reg_RSI, Reg_RDI, Reg_R8]
      in if arm_reg < 16 then mapping ! unat arm_reg
         else if arm_reg = 29 then Reg_R9
         else if arm_reg = 30 then Reg_R11
         else if arm_reg = 31 then Reg_RAX
         else Reg_NONE)"

section \<open>Allocation on demand\<close>

record X86_64RegAlloc =
  r_vreg_map :: "X86Reg list"
  r_xreg_map :: "u16 list"
  r_dirty_vregs :: "u16 list"
  r_free_regs :: u16

definition ALL_FREE :: u16 where "ALL_FREE = 0xFFFF"

definition X86_64RegAlloc_init :: X86_64RegAlloc where
  "X86_64RegAlloc_init = \<lparr>r_vreg_map = replicate 256 Reg_NONE, r_xreg_map = replicate 16 0,
     r_dirty_vregs = [], r_free_regs = ALL_FREE\<rparr>"

definition regalloc_reset :: "X86_64RegAlloc \<Rightarrow> X86_64RegAlloc" where
  "regalloc_reset ra = ra\<lparr>r_vreg_map := replicate 256 Reg_NONE, r_xreg_map := replicate 16 0,
     r_dirty_vregs := [], r_free_regs := ALL_FREE\<rparr>"

definition map_arm_reg :: "u8 \<Rightarrow> X86Reg" where
  "map_arm_reg arm_reg = arm_to_x86_static arm_reg"

text \<open>The search loop, from index \<open>i\<close>.\<close>

function alloc_search :: "nat \<Rightarrow> u16 \<Rightarrow> X86_64RegAlloc \<Rightarrow> (X86Reg \<times> X86_64RegAlloc) option" where
  "alloc_search i vreg ra =
     (if i < 16
      then if r_free_regs ra AND push_bit i 1 \<noteq> 0
           then if unat vreg < 256
                then Some (x86reg_of i, ra\<lparr>r_free_regs := r_free_regs ra AND NOT (push_bit i 1),
                       r_vreg_map := (r_vreg_map ra)[unat vreg := x86reg_of i],
                       r_xreg_map := (r_xreg_map ra)[i := vreg]\<rparr>)
                else None
           else alloc_search (i + 1) vreg ra
      else Some (Reg_RAX, ra))"
  by pat_completeness auto
termination by (relation "measure (\<lambda>(i, _). 16 - i)") auto

declare alloc_search.simps [simp del]

definition alloc_vreg :: "u16 \<Rightarrow> X86_64RegAlloc \<Rightarrow> (X86Reg \<times> X86_64RegAlloc) option" where
  "alloc_vreg vreg ra =
     (if unat vreg < 256 \<and> r_vreg_map ra ! unat vreg \<noteq> Reg_NONE
      then Some (r_vreg_map ra ! unat vreg, ra)
      else alloc_search 0 vreg ra)"

definition get_vreg :: "u16 \<Rightarrow> X86_64RegAlloc \<Rightarrow> X86Reg" where
  "get_vreg vreg ra = (if unat vreg < 256 then r_vreg_map ra ! unat vreg else Reg_NONE)"

definition spill_vreg :: "u16 \<Rightarrow> X86Reg \<Rightarrow> X86_64RegAlloc \<Rightarrow> X86_64RegAlloc" where
  "spill_vreg vreg xreg ra = ra"

definition reload_vreg :: "u16 \<Rightarrow> X86_64RegAlloc \<Rightarrow> X86_64RegAlloc" where
  "reload_vreg vreg ra = ra"

section \<open>The allocation invariant\<close>

text \<open>An allocated host register is marked as taken, and the reverse map names its owner.\<close>

definition ra_inv :: "X86_64RegAlloc \<Rightarrow> bool" where
  "ra_inv ra \<longleftrightarrow> length (r_vreg_map ra) = 256 \<and> length (r_xreg_map ra) = 16 \<and>
     (\<forall>v<256. r_vreg_map ra ! v = Reg_NONE \<or>
        (\<exists>i<16. r_vreg_map ra ! v = x86reg_of i \<and> \<not> bit (r_free_regs ra) i \<and> r_xreg_map ra ! i = of_nat v))"

lemma ra_inv_init: "ra_inv X86_64RegAlloc_init"
  by (simp add: ra_inv_def X86_64RegAlloc_init_def)

lemma ra_inv_reset: "ra_inv (regalloc_reset ra)"
  by (simp add: ra_inv_def regalloc_reset_def)

text \<open>The search takes the first free register, or reports RAX when there is none.\<close>

definition take_reg :: "nat \<Rightarrow> u16 \<Rightarrow> X86_64RegAlloc \<Rightarrow> X86_64RegAlloc" where
  "take_reg j vreg ra = ra\<lparr>r_free_regs := r_free_regs ra AND NOT (push_bit j 1),
     r_vreg_map := (r_vreg_map ra)[unat vreg := x86reg_of j], r_xreg_map := (r_xreg_map ra)[j := vreg]\<rparr>"

lemma alloc_search_result:
  "alloc_search i vreg ra = Some (reg, ra') \<Longrightarrow>
     (reg = Reg_RAX \<and> ra' = ra \<and> (\<forall>j. i \<le> j \<and> j < 16 \<longrightarrow> \<not> bit (r_free_regs ra) j)) \<or>
     (\<exists>j. i \<le> j \<and> j < 16 \<and> bit (r_free_regs ra) j \<and> unat vreg < 256 \<and> reg = x86reg_of j \<and>
          ra' = take_reg j vreg ra)"
proof (induction "16 - i" arbitrary: i)
  case 0
  then show ?case by (auto simp: alloc_search.simps [of i])
next
  case (Suc n)
  then have i: "i < 16" by simp
  show ?case
  proof (cases "bit (r_free_regs ra) i")
    case True
    with i Suc.prems show ?thesis
      by (auto simp: alloc_search.simps [of i] and_exp_eq_0_iff_not_bit take_reg_def split: if_splits)
  next
    case False
    with i have eq: "alloc_search i vreg ra = alloc_search (i + 1) vreg ra"
      by (simp add: alloc_search.simps [of i] and_exp_eq_0_iff_not_bit)
    from Suc.hyps(2) have "n = 16 - (i + 1)" by simp
    from Suc.hyps(1) [OF this] Suc.prems have "(reg = Reg_RAX \<and> ra' = ra \<and>
        (\<forall>j. i + 1 \<le> j \<and> j < 16 \<longrightarrow> \<not> bit (r_free_regs ra) j)) \<or>
      (\<exists>j. i + 1 \<le> j \<and> j < 16 \<and> bit (r_free_regs ra) j \<and> unat vreg < 256 \<and> reg = x86reg_of j \<and>
          ra' = take_reg j vreg ra)"
      unfolding eq by blast
    with False show ?thesis by (metis Suc_eq_plus1 Suc_leD le_antisym not_less_eq_eq)
  qed
qed

lemma ra_inv_take_reg:
  assumes "ra_inv ra" "j < 16" "bit (r_free_regs ra) j" "unat vreg < 256"
  shows "ra_inv (take_reg j vreg ra)"
  unfolding ra_inv_def
proof (intro conjI allI impI)
  fix v :: nat assume v: "v < 256"
  show "r_vreg_map (take_reg j vreg ra) ! v = Reg_NONE \<or>
     (\<exists>i<16. r_vreg_map (take_reg j vreg ra) ! v = x86reg_of i \<and>
        \<not> bit (r_free_regs (take_reg j vreg ra)) i \<and> r_xreg_map (take_reg j vreg ra) ! i = of_nat v)"
  proof (cases "v = unat vreg")
    case True
    with assms v show ?thesis
      by (auto simp: take_reg_def ra_inv_def bit_simps intro!: exI [of _ j])
  next
    case False
    with assms v consider "r_vreg_map ra ! v = Reg_NONE" | i where "i < 16"
        "r_vreg_map ra ! v = x86reg_of i" "\<not> bit (r_free_regs ra) i" "r_xreg_map ra ! i = of_nat v"
      unfolding ra_inv_def by blast
    then show ?thesis
    proof cases
      case 2
      with assms have "i \<noteq> j" by auto
      with 2 False show ?thesis
        by (auto simp: take_reg_def bit_simps intro!: exI [of _ i])
    qed (use False in \<open>simp add: take_reg_def\<close>)
  qed
qed (use assms in \<open>simp_all add: ra_inv_def take_reg_def\<close>)

lemma alloc_vreg_cases:
  assumes "alloc_vreg vreg ra = Some (reg, ra')"
  obtains (old) "ra' = ra" "unat vreg < 256" "reg = r_vreg_map ra ! unat vreg" "reg \<noteq> Reg_NONE"
    | (full) "ra' = ra" "reg = Reg_RAX" "\<forall>j<16. \<not> bit (r_free_regs ra) j"
    | (new) j where "j < 16" "bit (r_free_regs ra) j" "unat vreg < 256"
        "r_vreg_map ra ! unat vreg = Reg_NONE" "reg = x86reg_of j" "ra' = take_reg j vreg ra"
  using assms alloc_search_result [of 0 vreg ra reg ra'] unfolding alloc_vreg_def
  by (auto split: if_splits)

lemma alloc_search_defined:
  "unat vreg < 256 \<Longrightarrow> \<exists>reg ra'. alloc_search i vreg ra = Some (reg, ra')"
proof (induction "16 - i" arbitrary: i)
  case 0
  then show ?case by (simp add: alloc_search.simps [of i])
next
  case (Suc n)
  from Suc.hyps(2) have "n = 16 - (i + 1)" by simp
  with Suc show ?case by (simp add: alloc_search.simps [of i])
qed

lemma alloc_vreg_defined: "unat vreg < 256 \<Longrightarrow> \<exists>reg ra'. alloc_vreg vreg ra = Some (reg, ra')"
  using alloc_search_defined by (auto simp: alloc_vreg_def)

lemma ra_inv_alloc: "ra_inv ra \<Longrightarrow> alloc_vreg vreg ra = Some (reg, ra') \<Longrightarrow> ra_inv ra'"
  by (erule alloc_vreg_cases) (simp_all add: ra_inv_take_reg)

lemma ra_inv_injective:
  assumes "ra_inv ra" "u < 256" "v < 256" "r_vreg_map ra ! u = r_vreg_map ra ! v"
    "r_vreg_map ra ! u \<noteq> Reg_NONE"
  shows "u = v"
proof -
  have owner: "\<exists>i<16. r_vreg_map ra ! w = x86reg_of i \<and> r_xreg_map ra ! i = of_nat w"
    if "w < 256" "r_vreg_map ra ! w \<noteq> Reg_NONE" for w
    using assms(1) that unfolding ra_inv_def by blast
  obtain i where "i < 16" "r_vreg_map ra ! u = x86reg_of i" "r_xreg_map ra ! i = of_nat u"
    using owner [OF assms(2,5)] by blast
  moreover have "r_vreg_map ra ! v \<noteq> Reg_NONE" using assms(4,5) by simp
  moreover from owner [OF assms(3) this] obtain j where "j < 16" "r_vreg_map ra ! v = x86reg_of j" "r_xreg_map ra ! j = of_nat v"
    by blast
  ultimately have "(of_nat u :: u16) = of_nat v" using x86reg_of_inj [of i j] assms(4) by metis
  with assms(2,3) show ?thesis by (simp add: word_of_nat_eq_iff take_bit_nat_eq_self)
qed

text \<open>The states of an allocator that is created, reset and asked for registers.\<close>

inductive ra_reachable :: "X86_64RegAlloc \<Rightarrow> bool" where
  init: "ra_reachable X86_64RegAlloc_init"
| reset: "ra_reachable ra \<Longrightarrow> ra_reachable (regalloc_reset ra)"
| alloc: "ra_reachable ra \<Longrightarrow> alloc_vreg vreg ra = Some (reg, ra') \<Longrightarrow> ra_reachable ra'"

lemma ra_reachable_inv: "ra_reachable ra \<Longrightarrow> ra_inv ra"
  by (induction rule: ra_reachable.induct) (auto intro: ra_inv_init ra_inv_reset ra_inv_alloc)

section \<open>Properties\<close>



end
