(* ===== verification/Lower.thy ===== *)
theory Lower
  imports Ir X86_Spec Regalloc
begin

text \<open>
  Lowering of IR blocks to x86-64 code (\<^verbatim>\<open>src/src/backend/x86_64_lower.hpp\<close> and \<^verbatim>\<open>.cpp\<close>).  The
  members of \<open>IRLowering\<close> are arguments: the emitter is the state that is passed on,
  \<open>fallthrough_pc_\<close> is a parameter of \<open>lower_instr\<close>, and the allocator is only used for its
  static map.  \<open>instr.imm\<close> truncated to \<open>int32_t\<close> plus 8 overflows for displacements within 8
  of the maximum: undefined behaviour, \<^const>\<open>None\<close>.
\<close>

section \<open>The lowering\<close>

definition CTX_NZCV_OFFSET :: i32 where "CTX_NZCV_OFFSET = 272"
definition CTX_PC_OFFSET :: i32 where "CTX_PC_OFFSET = 256"

definition arm_reg_to_x86 :: "u8 \<Rightarrow> u8" where
  "arm_reg_to_x86 arm_reg = x86reg_code (arm_to_x86_static arm_reg)"

definition arm_reg_offset :: "u8 \<Rightarrow> i32" where
  "arm_reg_offset arm_reg = (if arm_reg = 31 then 248 else ucast arm_reg * 8)"

definition load_arm_reg :: "u8 \<Rightarrow> u8 \<Rightarrow> X86_64Emitter \<Rightarrow> X86_64Emitter" where
  "load_arm_reg arm_reg xreg = emit_mov_reg_mem xreg R12 (arm_reg_offset arm_reg)"

definition store_arm_reg :: "u8 \<Rightarrow> u8 \<Rightarrow> X86_64Emitter \<Rightarrow> X86_64Emitter" where
  "store_arm_reg xreg arm_reg = emit_mov_mem_reg R12 (arm_reg_offset arm_reg) xreg"

definition save_nzcv :: "X86_64Emitter \<Rightarrow> X86_64Emitter" where
  "save_nzcv =
     seq [emit_mov_mem_reg R12 512 RAX, emit_mov_mem_reg R12 520 RCX, emit_mov_mem_reg R12 528 RDX,
       emit_byte 0x9C, emit_byte 0x58,
       emit_mov_reg_reg RCX RAX, emit_shr_reg_imm RCX 7, emit_and_reg_imm RCX 1,
       emit_mov_reg_reg RDX RAX, emit_shr_reg_imm RDX 6, emit_and_reg_imm RDX 1,
       emit_shl_reg_imm RDX 1, emit_or_reg_reg RCX RDX,
       emit_mov_reg_reg RDX RAX, emit_and_reg_imm RDX 1, emit_shl_reg_imm RDX 2,
       emit_or_reg_reg RCX RDX,
       emit_mov_reg_reg RDX RAX, emit_shr_reg_imm RDX 11, emit_and_reg_imm RDX 1,
       emit_shl_reg_imm RDX 3, emit_or_reg_reg RCX RDX,
       emit_shl_reg_imm RCX 28,
       emit_mov_mem_reg R12 272 RCX,
       emit_mov_reg_mem RDX R12 528, emit_mov_reg_mem RCX R12 520, emit_mov_reg_mem RAX R12 512]"

definition emit_block_ret :: "u64 \<Rightarrow> X86_64Emitter \<Rightarrow> X86_64Emitter" where
  "emit_block_ret target_pc =
     seq [emit_mov_reg_imm RAX target_pc, emit_mov_mem_reg R12 CTX_PC_OFFSET RAX, emit_ret]"

text \<open>The shape of the binary operations: load the first operand, combine it with the immediate
  or with the second register, save the flags if asked to, store.\<close>

definition lower_binary ::
  "(u64 \<Rightarrow> X86_64Emitter \<Rightarrow> X86_64Emitter) \<Rightarrow> (X86_64Emitter \<Rightarrow> X86_64Emitter) \<Rightarrow> bool \<Rightarrow> IRInst \<Rightarrow>
   X86_64Emitter \<Rightarrow> X86_64Emitter" where
  "lower_binary op_imm op_reg save instr =
     seq [load_arm_reg (ucast (i_src1 instr)) RAX,
       (if i_src2 instr = IR_IMM then op_imm (i_imm instr)
      else seq [load_arm_reg (ucast (i_src2 instr)) RCX, op_reg]),
       (if save then save_nzcv else id),
       store_arm_reg RAX (ucast (i_dest instr))]"

definition arm_cond_to_x86 :: "u8 \<Rightarrow> u8" where
  "arm_cond_to_x86 cond =
     (if cond = 0 then CC_Z else if cond = 1 then CC_NZ else if cond = 2 then CC_NB
      else if cond = 3 then CC_B else if cond = 4 then CC_S else if cond = 5 then CC_NS
      else if cond = 6 then CC_O else if cond = 7 then CC_NO else if cond = 8 then CC_NBE
      else if cond = 9 then CC_BE else if cond = 10 then CC_NL else if cond = 11 then CC_L
      else if cond = 12 then CC_NLE else if cond = 13 then CC_LE else if cond = 14 then CC_NZ
      else CC_Z)"

text \<open>A jump over the taken path whose displacement is patched once the path is emitted.\<close>

definition lower_jmp_cond :: "u64 \<Rightarrow> IRInst \<Rightarrow> X86_64Emitter \<Rightarrow> X86_64Emitter" where
  "lower_jmp_cond fallthrough_pc instr e =
     (let x86_cc = arm_cond_to_x86 (i_cond instr);
          taken_target = i_imm instr;
          inv_cc = x86_cc XOR 1;
          e = (seq [emit_byte 0x0F, emit_byte (0x80 OR inv_cc)]) e;
          jcc_offset_pos = e_offset e;
          e = emit_dword 0 e;
          e = (seq [emit_mov_reg_imm RAX taken_target, emit_mov_mem_reg R12 CTX_PC_OFFSET RAX, emit_ret]) e;
          fallthrough_pos = e_offset e;
          jcc_offset = (of_nat fallthrough_pos - of_nat (jcc_offset_pos + 4) :: u32);
          e = patch_dword_at jcc_offset_pos jcc_offset e
      in (seq [emit_mov_reg_imm RAX fallthrough_pc, emit_mov_mem_reg R12 CTX_PC_OFFSET RAX, emit_ret]) e)"

definition plus_8 :: "i32 \<Rightarrow> i32 option" where
  "plus_8 d = (if sint d + 8 < 2 ^ 31 then Some (d + 8) else None)"

definition lower_vec_dup :: "IRInst \<Rightarrow> X86_64Emitter \<Rightarrow> X86_64Emitter" where
  "lower_vec_dup instr =
     (let gpr = arm_reg_to_x86 (ucast (i_src1 instr))
      in seq [load_arm_reg (ucast (i_src1 instr)) gpr,
           (if i_imm instr = 0 then
            seq [emit_byte 0xC4, emit_byte 0xE2, emit_byte 0x79, emit_byte 0x78,
              emit_byte (0xC0 OR push_bit 3 (ucast (i_dest instr) AND 7) OR (gpr AND 7))]
          else
            (let vd_reg = ucast (i_dest instr AND 7)
             in seq [emit_byte 0x66, emit_byte 0x0F, emit_byte 0xEF,
                  emit_byte (0xC0 OR push_bit 3 vd_reg OR vd_reg)]))])"

text \<open>Loads and stores of both widths move 64 bits; pairs add 8 to the displacement.\<close>

definition lower_load :: "IRInst \<Rightarrow> X86_64Emitter \<Rightarrow> X86_64Emitter" where
  "lower_load instr = seq [load_arm_reg (ucast (i_src1 instr)) RAX, emit_mov_reg_mem RAX RAX (ucast (i_imm instr)),
     store_arm_reg RAX (ucast (i_dest instr))]"

definition lower_store :: "IRInst \<Rightarrow> X86_64Emitter \<Rightarrow> X86_64Emitter" where
  "lower_store instr = seq [load_arm_reg (ucast (i_src1 instr)) RAX, load_arm_reg (ucast (i_src2 instr)) RCX,
     emit_mov_mem_reg RAX (ucast (i_imm instr)) RCX]"

definition lower_jmp :: "IRInst \<Rightarrow> X86_64Emitter \<Rightarrow> X86_64Emitter" where
  "lower_jmp instr = seq [emit_mov_reg_imm RAX (i_imm instr), emit_mov_mem_reg R12 CTX_PC_OFFSET RAX, emit_ret]"

definition lower_call :: "IRInst \<Rightarrow> X86_64Emitter \<Rightarrow> X86_64Emitter" where
  "lower_call instr = seq [emit_mov_reg_imm RAX (i_imm instr), emit_mov_mem_reg R12 CTX_PC_OFFSET RAX, emit_ret]"

definition lower_ret :: "X86_64Emitter \<Rightarrow> X86_64Emitter" where
  "lower_ret = seq [emit_mov_reg_mem RAX R12 264, emit_mov_mem_reg R12 CTX_PC_OFFSET RAX, emit_ret]"

definition lower_load_pair :: "IRInst \<Rightarrow> X86_64Emitter \<Rightarrow> (bool \<times> X86_64Emitter) option" where
  "lower_load_pair instr e = do {
     d8 \<leftarrow> plus_8 (ucast (i_imm instr));
     Some (True, seq [load_arm_reg (ucast (i_src1 instr)) RAX, emit_mov_reg_mem RCX RAX (ucast (i_imm instr)),
       emit_mov_reg_mem RDX RAX d8, store_arm_reg RCX (ucast (i_dest instr)), store_arm_reg RDX (ucast (i_src2 instr))] e) }"

definition lower_store_pair :: "IRInst \<Rightarrow> X86_64Emitter \<Rightarrow> (bool \<times> X86_64Emitter) option" where
  "lower_store_pair instr e = do {
     d8 \<leftarrow> plus_8 (ucast (i_imm instr));
     Some (True, seq [load_arm_reg (ucast (i_src1 instr)) RAX, load_arm_reg (ucast (i_src2 instr)) RCX,
       load_arm_reg (ucast (drop_bit 32 (i_imm instr))) RDX,
       emit_mov_mem_reg RAX (ucast (i_imm instr)) RCX, emit_mov_mem_reg RAX d8 RDX] e) }"

lemmas lower_cases = lower_load_def lower_store_def lower_jmp_def lower_call_def lower_ret_def
  lower_load_pair_def lower_store_pair_def

definition lower_instr :: "u64 \<Rightarrow> IRInst \<Rightarrow> X86_64Emitter \<Rightarrow> (bool \<times> X86_64Emitter) option" where
  "lower_instr fallthrough_pc instr e =
    (let dest = ucast (i_dest instr); src1 = ucast (i_src1 instr); src2 = ucast (i_src2 instr);
         ret = (\<lambda>f. Some (True, f e))
     in case i_op instr of
      Op_ADD \<Rightarrow> ret (lower_binary (emit_add_reg_imm RAX) (emit_add_reg_reg RAX RCX) (i_flags_set instr) instr)
    | Op_SUB \<Rightarrow> ret (lower_binary (emit_sub_reg_imm RAX) (emit_sub_reg_reg RAX RCX) (i_flags_set instr) instr)
    | Op_MUL \<Rightarrow> ret (seq [load_arm_reg src1 RAX, load_arm_reg src2 RCX, emit_imul_reg_reg RAX RCX,
                      store_arm_reg RAX dest])
    | Op_SAR \<Rightarrow> ret (lower_binary (\<lambda>i. emit_sar_reg_imm RAX (ucast i)) (emit_sar_reg_cl RAX) False instr)
    | Op_SHR \<Rightarrow> ret (lower_binary (\<lambda>i. emit_shr_reg_imm RAX (ucast i)) (emit_shr_reg_cl RAX) False instr)
    | Op_SHL \<Rightarrow> ret (lower_binary (\<lambda>i. emit_shl_reg_imm RAX (ucast i)) (emit_shl_reg_cl RAX) False instr)
    | Op_AND \<Rightarrow> ret (lower_binary (emit_and_reg_imm RAX) (emit_and_reg_reg RAX RCX) (i_flags_set instr) instr)
    | Op_OR \<Rightarrow> ret (lower_binary (emit_or_reg_imm RAX) (emit_or_reg_reg RAX RCX) False instr)
    | Op_XOR \<Rightarrow> ret (lower_binary (emit_xor_reg_imm RAX) (emit_xor_reg_reg RAX RCX) False instr)
    | Op_CMP \<Rightarrow> ret (seq [load_arm_reg src1 RAX,
          (if i_src2 instr = IR_IMM \<or> i_src2 instr = IR_NONE then emit_cmp_reg_imm RAX (i_imm instr)
         else seq [load_arm_reg src2 RCX, emit_cmp_reg_reg RAX RCX]),
          (if i_flags_set instr then save_nzcv else id)])
    | Op_TST \<Rightarrow> ret (seq [load_arm_reg src1 RAX, load_arm_reg src2 RCX, emit_test_reg_reg RAX RCX,
          (if i_flags_set instr then save_nzcv else id)])
    | Op_MOV_IMM \<Rightarrow> ret (seq [emit_mov_reg_imm (arm_reg_to_x86 dest) (i_imm instr),
          store_arm_reg (arm_reg_to_x86 dest) dest])
    | Op_SET_REG \<Rightarrow> ret
        (if i_src1 instr = IR_NONE
         then seq [emit_mov_reg_imm RAX (i_imm instr), store_arm_reg RAX dest]
         else seq [load_arm_reg src1 (arm_reg_to_x86 src1), store_arm_reg (arm_reg_to_x86 src1) dest])
    | Op_LOAD64 \<Rightarrow> ret (lower_load instr) | Op_LOAD32 \<Rightarrow> ret (lower_load instr)
    | Op_STORE64 \<Rightarrow> ret (lower_store instr) | Op_STORE32 \<Rightarrow> ret (lower_store instr)
    | Op_JMP \<Rightarrow> ret (lower_jmp instr)
    | Op_JMP_COND \<Rightarrow> ret (lower_jmp_cond fallthrough_pc instr)
    | Op_CALL \<Rightarrow> ret (lower_call instr)
    | Op_RET \<Rightarrow> ret lower_ret
    | Op_NOP \<Rightarrow> ret emit_nop
    | Op_BARRIER \<Rightarrow> ret emit_nop
    | Op_SYSCALL \<Rightarrow> ret emit_int3
    | Op_LOAD_PAIR \<Rightarrow> lower_load_pair instr e
    | Op_STORE_PAIR \<Rightarrow> lower_store_pair instr e
    | Op_VEC_DUP \<Rightarrow> ret (lower_vec_dup instr)
    | _ \<Rightarrow> ret emit_nop)"

fun lower_instrs :: "u64 \<Rightarrow> IRInst list \<Rightarrow> X86_64Emitter \<Rightarrow> (bool \<times> X86_64Emitter) option" where
  "lower_instrs fallthrough_pc [] e = Some (True, e)"
| "lower_instrs fallthrough_pc (instr # instrs) e = do {
     (ok, e) \<leftarrow> lower_instr fallthrough_pc instr e;
     if \<not> ok then Some (False, e) else lower_instrs fallthrough_pc instrs e }"

definition lower_block :: "IRBlock \<Rightarrow> u64 \<Rightarrow> X86_64Emitter \<Rightarrow> (bool \<times> X86_64Emitter) option" where
  "lower_block block fallthrough_pc e = do {
     (ok, e) \<leftarrow> lower_instrs fallthrough_pc (b_instructions block) (emit_mov_reg_reg R12 RDI e);
     if \<not> ok then Some (False, e) else Some (True, emit_block_ret fallthrough_pc e) }"

section \<open>Reading the lowered code back\<close>

text \<open>
  \<open>decodes_to bs is\<close>: the bytes disassemble to these instructions whatever follows them.
  \<open>assembles f is\<close>: a method that has room appends bytes that disassemble to \<open>is\<close>.
\<close>

fun decodes_to :: "u8 list \<Rightarrow> x86 list \<Rightarrow> bool" where
  "decodes_to bs [] \<longleftrightarrow> bs = []"
| "decodes_to bs (i # is) \<longleftrightarrow>
     (\<exists>bs'. length bs' < length bs \<and> (\<forall>rest. x86_decode (bs @ rest) = Some (i, bs' @ rest)) \<and> decodes_to bs' is)"

lemma decodes_to_append: "decodes_to a is \<Longrightarrow> decodes_to b js \<Longrightarrow> decodes_to (a @ b) (is @ js)"
proof (induction "is" arbitrary: a)
  case (Cons i "is")
  then obtain a' where "length a' < length a" "\<forall>rest. x86_decode (a @ rest) = Some (i, a' @ rest)"
      "decodes_to a' is" by auto
  with Cons show ?case by (auto intro!: exI [of _ "a' @ b"])
qed simp

lemma decodes_to_single: "(\<And>rest. x86_decode (bs @ rest) = Some (i, rest)) \<Longrightarrow> bs \<noteq> [] \<Longrightarrow> decodes_to bs [i]"
  by auto

text \<open>A disassembler run with as much fuel as there are bytes finds the instructions.\<close>

lemma decodes_to_disasm: "decodes_to bs is \<Longrightarrow> x86_disasm (length bs) bs = Some is"
proof -
  have "decodes_to bs is \<Longrightarrow> length bs \<le> n \<Longrightarrow> x86_disasm n bs = Some is" for n
  proof (induction "is" arbitrary: bs n)
    case Nil
    then show ?case by (cases n) simp_all
  next
    case (Cons i "is")
    then obtain bs' where bs': "length bs' < length bs" "x86_decode bs = Some (i, bs')" "decodes_to bs' is"
      by simp (metis append_Nil2)
    with Cons.prems obtain m b cs where "n = Suc m" "bs = b # cs" by (cases n; cases bs) auto
    with bs' Cons show ?case by simp
  qed
  then show "decodes_to bs is \<Longrightarrow> x86_disasm (length bs) bs = Some is" by simp
qed

definition assembles :: "(X86_64Emitter \<Rightarrow> X86_64Emitter) \<Rightarrow> nat \<Rightarrow> x86 list \<Rightarrow> bool" where
  "assembles f n is \<longleftrightarrow> (\<exists>bs. length bs \<le> n \<and> decodes_to bs is \<and>
     (\<forall>e. emitter_wf e \<and> length bs \<le> emit_room e \<longrightarrow> f e = fold emit_byte bs e))"

lemma assembles_seq_Nil: "assembles (seq []) 0 []"
  by (simp add: assembles_def)

lemma assembles_seq:
  assumes "assembles f m is" "assembles (seq fs) n js"
  shows "assembles (seq (f # fs)) (m + n) (is @ js)"
proof -
  obtain a b where a: "length a \<le> m" "decodes_to a is"
      "\<And>e. emitter_wf e \<and> length a \<le> emit_room e \<Longrightarrow> f e = fold emit_byte a e"
    and b: "length b \<le> n" "decodes_to b js"
      "\<And>e. emitter_wf e \<and> length b \<le> emit_room e \<Longrightarrow> seq fs e = fold emit_byte b e"
    using assms unfolding assembles_def by blast
  have "seq (f # fs) e = fold emit_byte (a @ b) e" if "emitter_wf e" "length (a @ b) \<le> emit_room e" for e
    using that a(3) [of e] b(3) [of "fold emit_byte a e"] by (simp add: em.puts_invar em.puts_room)
  then show ?thesis using a b decodes_to_append unfolding assembles_def
    by (intro exI [of _ "a @ b"]) auto
qed

lemmas assembles_seq_rules = assembles_seq assembles_seq_Nil

lemma assembles_emits: "emits f bs \<Longrightarrow> decodes_to bs is \<Longrightarrow> length bs \<le> n \<Longrightarrow> assembles f n is"
  unfolding assembles_def emits_def by blast

lemma assembles_id: "assembles id 0 []"
  by (simp add: assembles_def)

lemma assembles_emitted:
  assumes "assembles f n is" "emitter_wf e" "n \<le> emit_room e"
  shows "\<exists>bs. emitted (f e) = emitted e @ bs \<and> decodes_to bs is \<and> emitter_wf (f e)"
  using assms unfolding assembles_def by (auto simp: em.puts_contents em.puts_invar)

lemma assembles_single:
  "emits f bs \<Longrightarrow> (\<And>rest. x86_decode (bs @ rest) = Some (i, rest)) \<Longrightarrow> bs \<noteq> [] \<Longrightarrow> length bs \<le> n \<Longrightarrow>
   assembles f n [i]"
  by (rule assembles_emits) (simp_all add: decodes_to_single)

lemma encoding_lengths [simp]:
  "length (rr_bytes ops dst src) = length ops + 2" "rr_bytes ops dst src \<noteq> []"
  "length (ext_bytes op base reg) = 3" "ext_bytes op base reg \<noteq> []"
  by (simp_all add: rr_bytes_def ext_bytes_def)

lemma length_mem_operand_bytes: "length (mem_operand_bytes reg base disp) \<le> 6"
  by (simp add: mem_operand_bytes_def Let_def)

lemma assembles_rr:
  assumes "dst < 16" "src < 16"
  shows "assembles (emit_mov_reg_reg dst src) 3 [MovRR dst src]"
    and "assembles (emit_add_reg_reg dst src) 3 [AluRR X_ADD dst src]"
    and "assembles (emit_sub_reg_reg dst src) 3 [AluRR X_SUB dst src]"
    and "assembles (emit_and_reg_reg dst src) 3 [AluRR X_AND dst src]"
    and "assembles (emit_or_reg_reg dst src) 3 [AluRR X_OR dst src]"
    and "assembles (emit_xor_reg_reg dst src) 3 [AluRR X_XOR dst src]"
    and "assembles (emit_cmp_reg_reg dst src) 3 [AluRR X_CMP dst src]"
    and "assembles (emit_test_reg_reg dst src) 3 [TestRR dst src]"
    and "assembles (emit_imul_reg_reg dst src) 4 [ImulRR src dst]"
  using assms by (auto intro!: assembles_single [OF emits_rr(1)] assembles_single [OF emits_rr(2)]
    assembles_single [OF emits_rr(3)] assembles_single [OF emits_rr(4)] assembles_single [OF emits_rr(5)]
    assembles_single [OF emits_rr(6)] assembles_single [OF emits_rr(7)] assembles_single [OF emits_rr(8)]
    assembles_single [OF emits_rr(9)] simp: decode_rr)

lemma assembles_shift:
  "assembles (emit_shl_reg_imm reg k) 4 [ShiftImm X_SHL (ext_reg_read reg) k]"
  "assembles (emit_shr_reg_imm reg k) 4 [ShiftImm X_SHR (ext_reg_read reg) k]"
  "assembles (emit_sar_reg_imm reg k) 4 [ShiftImm X_SAR (ext_reg_read reg) k]"
  "assembles (emit_shl_reg_cl reg) 3 [ShiftCl X_SHL (ext_reg_read reg)]"
  "assembles (emit_shr_reg_cl reg) 3 [ShiftCl X_SHR (ext_reg_read reg)]"
  "assembles (emit_sar_reg_cl reg) 3 [ShiftCl X_SAR (ext_reg_read reg)]"
  by (auto intro!: assembles_single [OF emits_shift(1)] assembles_single [OF emits_shift(2)]
    assembles_single [OF emits_shift(3)] assembles_single [OF emits_shift(4)]
    assembles_single [OF emits_shift(5)] assembles_single [OF emits_shift(6)] simp: decode_shift)

text \<open>Immediate operands of at most 32 bits.\<close>

lemma assembles_alu_imm:
  assumes "imm \<le> 0xFFFFFFFF"
  shows "assembles (emit_add_reg_imm reg imm) 7 [AluImm X_ADD (ext_reg_read reg) (ucast imm)]"
    and "assembles (emit_sub_reg_imm reg imm) 7 [AluImm X_SUB (ext_reg_read reg) (ucast imm)]"
    and "assembles (emit_and_reg_imm reg imm) 7 [AluImm X_AND (ext_reg_read reg) (ucast imm)]"
    and "assembles (emit_or_reg_imm reg imm) 7 [AluImm X_OR (ext_reg_read reg) (ucast imm)]"
    and "assembles (emit_xor_reg_imm reg imm) 7 [AluImm X_XOR (ext_reg_read reg) (ucast imm)]"
    and "assembles (emit_cmp_reg_imm reg imm) 7 [AluImm X_CMP (ext_reg_read reg) (ucast imm)]"
  using assms
  by (auto intro!: assembles_single [OF emits_imm32_form] simp: decode_imm32 emit_add_reg_imm_def
    emit_sub_reg_imm_def emit_and_reg_imm_def emit_or_reg_imm_def emit_xor_reg_imm_def emit_cmp_reg_imm_def)

text \<open>A guest register without a host register is mapped to number 0xFF, of which the encoding
  keeps what it keeps of R15.\<close>

definition host_reg :: "u8 \<Rightarrow> u8" where
  "host_reg r = (if r = 0xFF then R15 else r)"

lemma emit_mov_reg_imm_host: "emit_mov_reg_imm 0xFF imm = emit_mov_reg_imm R15 imm"
  by (simp add: emit_mov_reg_imm_def R15_def)

lemma emit_mem_host:
  "emit_mov_reg_mem 0xFF base disp = emit_mov_reg_mem R15 base disp"
  "emit_mov_mem_reg base disp 0xFF = emit_mov_mem_reg base disp R15"
  by (simp_all add: emit_mov_reg_mem_def emit_mov_mem_reg_def emit_mem_operand_def R15_def)

lemma assembles_mov_imm:
  assumes "host_reg r < 16"
  shows "assembles (emit_mov_reg_imm r imm) 10 [MovImm (host_reg r) imm]"
proof -
  have "assembles (emit_mov_reg_imm q imm) 10 [MovImm q imm]" if "q < 16" for q
    using decode_mov_imm [OF that]
    by (intro assembles_single [OF emits_mov_reg_imm]) simp_all
  with assms show ?thesis by (cases "r = 0xFF") (simp_all add: host_reg_def emit_mov_reg_imm_host)
qed

lemma assembles_mem:
  assumes "host_reg r < 16" "base < 16" "disp \<noteq> 0 \<or> base AND 7 \<noteq> 5"
  shows "assembles (emit_mov_reg_mem r base disp) 8 [Load (host_reg r) base disp]"
    and "assembles (emit_mov_mem_reg base disp r) 8 [Store base disp (host_reg r)]"
proof -
  have "assembles (emit_mov_reg_mem q base disp) 8 [Load q base disp]"
    "assembles (emit_mov_mem_reg base disp q) 8 [Store base disp q]" if "q < 16" for q
    using decode_load [OF that assms(2,3)] decode_store [OF that assms(2,3)]
      length_mem_operand_bytes [of q base disp]
    by (auto intro!: assembles_single [OF emits_mov_reg_mem] assembles_single [OF emits_mov_mem_reg])
  with assms(1) show "assembles (emit_mov_reg_mem r base disp) 8 [Load (host_reg r) base disp]"
    and "assembles (emit_mov_mem_reg base disp r) 8 [Store base disp (host_reg r)]"
    by (simp_all add: host_reg_def emit_mem_host split: if_splits)
qed

lemma assembles_bytes:
  "assembles emit_ret 1 [Ret]" "assembles emit_nop 1 [Nop]" "assembles emit_int3 1 [Int3]"
  "assembles (emit_byte 0x9C) 1 [Pushfq]" "assembles (emit_byte 0x58) 1 [Pop RAX]"
  unfolding emit_ret_def emit_nop_def emit_int3_def
  by (auto intro!: assembles_single [OF emits_byte]
      simp: x86_decode_def x86_opcode_def RAX_def ext_reg_def)

lemma assembles_mono: "assembles f m is \<Longrightarrow> m \<le> n \<Longrightarrow> assembles f n is"
  unfolding assembles_def by (meson le_trans)

subsection \<open>The patched jump\<close>

text \<open>With room, a sequence of bytes lands at the write position.\<close>

lemma fold_emit_byte_buf:
  assumes "emitter_wf e" "length bs \<le> emit_room e" "e_buf e = Some buf"
  shows "fold emit_byte bs e =
    e\<lparr>e_buf := Some (take (e_offset e) buf @ bs @ drop (e_offset e + length bs) buf),
      e_offset := e_offset e + length bs\<rparr>"
  using assms
proof (induction bs arbitrary: e buf)
  case Nil
  then show ?case by simp
next
  case (Cons b bs)
  let ?n = "e_offset e"
  have n: "?n < e_size e" "e_size e \<le> length buf"
    using Cons.prems by (auto simp: emitter_view)
  let ?e = "e\<lparr>e_buf := Some (buf[?n := b]), e_offset := ?n + 1\<rparr>"
  have e: "emit_byte b e = ?e" using Cons.prems n by (simp add: emit_byte_def)
  have "emitter_wf ?e" "length bs \<le> emit_room ?e"
    using Cons.prems n by (auto simp: emitter_view)
  then have "fold emit_byte bs ?e = ?e\<lparr>e_buf := Some (take (?n + 1) (buf[?n := b]) @ bs @
      drop (?n + 1 + length bs) (buf[?n := b])), e_offset := ?n + 1 + length bs\<rparr>"
    by (subst Cons.IH [of ?e "buf[?n := b]"]) simp_all
  moreover have "take (?n + 1) (buf[?n := b]) = take ?n buf @ [b]"
    using n by (simp add: take_Suc_conv_app_nth)
  ultimately show ?case using e by simp
qed

lemma patch_emitted:
  assumes "emitter_wf e" "4 + length bs \<le> emit_room e"
  shows "patch_dword_at (e_offset e) v (fold emit_byte (le_bytes 4 (w :: u32) @ bs) e) =
    fold emit_byte (le_bytes 4 v @ bs) e"
proof -
  obtain buf where buf: "e_buf e = Some buf"
    using assms(2) by (cases "e_buf e") (auto simp: emit_room_def)
  have n: "e_offset e + (4 + length bs) \<le> e_size e" "e_size e \<le> length buf"
    using assms buf by (auto simp: emitter_view)
  have f: "fold emit_byte (le_bytes 4 (u :: u32) @ bs) e =
      e\<lparr>e_buf := Some (take (e_offset e) buf @ (le_bytes 4 u @ bs) @ drop (e_offset e + (4 + length bs)) buf),
        e_offset := e_offset e + (4 + length bs)\<rparr>" for u
    using fold_emit_byte_buf [OF assms(1) _ buf, of "le_bytes 4 u @ bs"] assms(2)
    by (simp del: fold_append)
  show ?thesis using n unfolding patch_dword_at_def f by simp
qed

definition block_ret_bytes :: "u64 \<Rightarrow> u8 list" where
  "block_ret_bytes t =
     rex_byte True False False # 0xB8 # le_bytes 8 t @ [0x49, 0x89, 0x84, 0x24, 0x00, 0x01, 0x00, 0x00, 0xC3]"

lemma block_ret_store:
  "rex_byte True (bit RAX 3) (bit R12 3) # 0x89 # mem_operand_bytes RAX R12 CTX_PC_OFFSET =
     [0x49, 0x89, 0x84, 0x24, 0x00, 0x01, 0x00, 0x00]"
  by (simp add: rex_byte_def mem_operand_bytes_def CTX_PC_OFFSET_def RAX_def R12_def le_bytes_def upt_rec)

lemma length_block_ret_bytes [simp]: "length (block_ret_bytes t) = 19"
  by (simp add: block_ret_bytes_def)

lemma emits_block_ret: "emits (emit_block_ret t) (block_ret_bytes t)"
  using emits_seq(2) [OF emits_mov_reg_imm [of RAX t] emits_seq(2) [OF emits_mov_mem_reg [of R12 CTX_PC_OFFSET RAX]
    emits_seq(2) [OF emits_byte [of "0xC3"] emits_seq(1)]]] block_ret_store
  by (simp add: emit_block_ret_def emit_ret_def block_ret_bytes_def RAX_def)

definition block_ret_asm :: "u64 \<Rightarrow> x86 list" where
  "block_ret_asm t = [MovImm RAX t, Store R12 CTX_PC_OFFSET RAX, Ret]"

lemma host_regs [simp]:
  "host_reg RAX = RAX" "host_reg RCX = RCX" "host_reg RDX = RDX" "RAX < 16" "RCX < 16" "RDX < 16"
  "R12 < 16" "R12 AND 7 \<noteq> 5" "RAX AND 7 \<noteq> 5" "RDI < 16"
  "ext_reg_read RAX = RAX" "ext_reg_read RCX = R9" "ext_reg_read RDX = RDX"
  by (simp_all add: host_reg_def reg_defs ext_reg_read_def ext_reg_def)

lemma decodes_block_ret: "decodes_to (block_ret_bytes t) (block_ret_asm t)"
proof -
  have 1: "decodes_to (rex_byte True False False # 0xB8 # le_bytes 8 t) [MovImm RAX t]"
    using decode_mov_imm [of RAX t] by (intro decodes_to_single) (simp_all add: RAX_def)
  have 2: "decodes_to [0x49, 0x89, 0x84, 0x24, 0x00, 0x01, 0x00, 0x00] [Store R12 CTX_PC_OFFSET RAX]"
    unfolding block_ret_store [symmetric]
    using decode_store [of RAX R12 CTX_PC_OFFSET] by (intro decodes_to_single) simp_all
  have 3: "decodes_to [0xC3] [Ret]"
    by (intro decodes_to_single) (simp_all add: x86_decode_def x86_opcode_def)
  show ?thesis
    using decodes_to_append [OF decodes_to_append [OF 1 2] 3]
    by (simp add: block_ret_bytes_def block_ret_asm_def)
qed

lemma assembles_block_ret: "assembles (emit_block_ret t) 19 (block_ret_asm t)"
  using assembles_emits [OF emits_block_ret decodes_block_ret] by simp

lemma jcc_decodes:
  assumes "cc < 16"
  shows "decodes_to (0x0F # (0x80 OR cc) # le_bytes 4 (d :: u32)) [Jcc cc d]"
proof -
  have "(0x80 OR cc) AND 0xF0 = 0x80" "(0x80 OR cc) AND 0x0F = cc"
    using assms by (simp_all add: reg16_bits, simp_all add: word_eq_iff_bits all_less_numeral bit_simps)
  then show ?thesis
    by (intro decodes_to_single) (simp_all add: x86_decode_def x86_opcode_def)
qed

definition jmp_cond_asm :: "u64 \<Rightarrow> IRInst \<Rightarrow> x86 list" where
  "jmp_cond_asm fall instr =
     Jcc (arm_cond_to_x86 (i_cond instr) XOR 1) 19 # block_ret_asm (i_imm instr) @ block_ret_asm fall"

lemma inv_cc_less: "arm_cond_to_x86 c XOR 1 < 16"
  by (simp add: arm_cond_to_x86_def cc_defs)

definition jmp_cond_bytes :: "u64 \<Rightarrow> IRInst \<Rightarrow> u8 list" where
  "jmp_cond_bytes fall instr = (0x0F # (0x80 OR (arm_cond_to_x86 (i_cond instr) XOR 1)) # le_bytes 4 (19 :: u32)) @
     block_ret_bytes (i_imm instr) @ block_ret_bytes fall"

lemma length_jmp_cond_bytes [simp]: "length (jmp_cond_bytes fall instr) = 44"
  by (simp add: jmp_cond_bytes_def)

text \<open>The displacement is patched to the 19 bytes of the taken branch.\<close>

lemma emits_jmp_cond:
  assumes "emitter_wf e" and "44 \<le> emit_room e"
  shows "lower_jmp_cond fall instr e = fold emit_byte (jmp_cond_bytes fall instr) e"
proof -
  let ?cc = "arm_cond_to_x86 (i_cond instr) XOR 1" let ?t = "i_imm instr"
  define e1 where "e1 = fold emit_byte [0x0F, 0x80 OR ?cc] e"
  have w: "emitter_wf e1" unfolding e1_def using assms(1) by (rule em.puts_invar)
  have r: "42 \<le> emit_room e1" using assms(2) unfolding e1_def em.puts_room [OF assms(1)] by simp
  obtain buf where buf: "e_buf e1 = Some buf"
    using r by (cases "e_buf e1") (auto simp: emit_room_def)
  have ret: "seq [emit_mov_reg_imm RAX a, emit_mov_mem_reg R12 CTX_PC_OFFSET RAX, emit_ret] =
      fold emit_byte (block_ret_bytes a)" for a
    using emits_block_ret [of a] by (simp add: emits_def emit_block_ret_def)
  have dw: "emit_dword 0 = fold emit_byte (le_bytes 4 (0 :: u32))"
    using emits_dword [of 0] by (simp add: emits_def)
  have off: "e_offset (fold emit_byte (le_bytes 4 (0 :: u32) @ block_ret_bytes ?t) e1) = e_offset e1 + 23"
    using fold_emit_byte_buf [OF w _ buf, of "le_bytes 4 (0 :: u32) @ block_ret_bytes ?t"] r
    by (simp del: fold_append)
  have p: "patch_dword_at (e_offset e1) 19 (fold emit_byte (le_bytes 4 (0 :: u32) @ block_ret_bytes ?t) e1) =
      fold emit_byte (le_bytes 4 (19 :: u32) @ block_ret_bytes ?t) e1"
    using w r by (intro patch_emitted) simp_all
  have "lower_jmp_cond fall instr e = fold emit_byte (block_ret_bytes fall)
      (fold emit_byte (le_bytes 4 (19 :: u32) @ block_ret_bytes ?t) e1)"
    using off p by (simp add: lower_jmp_cond_def ret dw e1_def Let_def)
  then show ?thesis by (simp add: e1_def jmp_cond_bytes_def)
qed

lemma assembles_jmp_cond: "assembles (lower_jmp_cond fall instr) 44 (jmp_cond_asm fall instr)"
proof -
  have "decodes_to (jmp_cond_bytes fall instr) (jmp_cond_asm fall instr)"
    using decodes_to_append [OF jcc_decodes [OF inv_cc_less]
      decodes_to_append [OF decodes_block_ret decodes_block_ret]]
    by (simp add: jmp_cond_asm_def jmp_cond_bytes_def)
  then show ?thesis unfolding assembles_def by (intro exI [of _ "jmp_cond_bytes fall instr"]) (simp add: emits_jmp_cond)
qed

subsection \<open>The reference assembly\<close>

definition nzcv_asm :: "x86 list" where
  "nzcv_asm =
    [Store R12 512 RAX, Store R12 520 RCX, Store R12 528 RDX, Pushfq, Pop RAX,
     MovRR RCX RAX, ShiftImm X_SHR R9 7, AluImm X_AND R9 1,
     MovRR RDX RAX, ShiftImm X_SHR RDX 6, AluImm X_AND RDX 1, ShiftImm X_SHL RDX 1, AluRR X_OR RCX RDX,
     MovRR RDX RAX, AluImm X_AND RDX 1, ShiftImm X_SHL RDX 2, AluRR X_OR RCX RDX,
     MovRR RDX RAX, ShiftImm X_SHR RDX 11, AluImm X_AND RDX 1, ShiftImm X_SHL RDX 3, AluRR X_OR RCX RDX,
     ShiftImm X_SHL R9 28, Store R12 272 RCX, Load RDX R12 528, Load RCX R12 520, Load RAX R12 512]"

text \<open>Rules that follow the composition of the emitter's methods; the bounds and the instruction
  lists are compared at the end.\<close>

lemma asm_eq: "assembles f m is \<Longrightarrow> m \<le> n \<Longrightarrow> is = js \<Longrightarrow> assembles f n js"
  by (blast intro: assembles_mono)

lemma asm_mem:
  assumes "host_reg r < 16" "base < 16" "base AND 7 \<noteq> 5"
  shows "assembles (emit_mov_reg_mem r base disp) 8 [Load (host_reg r) base disp]"
    and "assembles (emit_mov_mem_reg base disp r) 8 [Store base disp (host_reg r)]"
  using assms by (simp_all add: assembles_mem)

lemmas asm_rules = assembles_seq_rules assembles_block_ret assembles_rr assembles_shift assembles_alu_imm
  assembles_mov_imm asm_mem assembles_bytes assembles_id

lemma assembles_save_nzcv: "assembles save_nzcv 160 nzcv_asm"
  unfolding save_nzcv_def
  by (rule asm_eq, (rule asm_rules | simp)+) (simp_all add: nzcv_asm_def)

text \<open>The instructions whose code lies in the subset of the disassembler: immediates of at most 32
  bits, no vector broadcast, displacements that do not overflow.\<close>

definition imm32_operand :: "IRInst \<Rightarrow> bool" where
  "imm32_operand instr \<longleftrightarrow> (i_src2 instr = IR_IMM \<longrightarrow> i_imm instr \<le> 0xFFFFFFFF)"

definition encodable :: "IRInst \<Rightarrow> bool" where
  "encodable instr = (case i_op instr of
      Op_ADD \<Rightarrow> imm32_operand instr | Op_SUB \<Rightarrow> imm32_operand instr | Op_AND \<Rightarrow> imm32_operand instr
    | Op_OR \<Rightarrow> imm32_operand instr | Op_XOR \<Rightarrow> imm32_operand instr
    | Op_CMP \<Rightarrow> i_imm instr \<le> 0xFFFFFFFF
    | Op_LOAD_PAIR \<Rightarrow> plus_8 (ucast (i_imm instr)) \<noteq> None
    | Op_STORE_PAIR \<Rightarrow> plus_8 (ucast (i_imm instr)) \<noteq> None
    | Op_VEC_DUP \<Rightarrow> False
    | _ \<Rightarrow> True)"

definition ld_asm :: "IRReg \<Rightarrow> u8 \<Rightarrow> x86" where
  "ld_asm r xreg = Load xreg R12 (arm_reg_offset (ucast r))"

definition st_asm :: "u8 \<Rightarrow> IRReg \<Rightarrow> x86" where
  "st_asm xreg r = Store R12 (arm_reg_offset (ucast r)) xreg"

definition binary_asm :: "x86 \<Rightarrow> x86 \<Rightarrow> bool \<Rightarrow> IRInst \<Rightarrow> x86 list" where
  "binary_asm op_imm op_reg save instr =
     [ld_asm (i_src1 instr) RAX] @
     (if i_src2 instr = IR_IMM then [op_imm] else [ld_asm (i_src2 instr) RCX, op_reg]) @
     (if save then nzcv_asm else []) @ [st_asm RAX (i_dest instr)]"

definition guest_host :: "IRReg \<Rightarrow> u8" where
  "guest_host r = host_reg (arm_reg_to_x86 (ucast r))"

definition lower_asm :: "u64 \<Rightarrow> IRInst \<Rightarrow> x86 list" where
  "lower_asm fall instr =
    (let imm32 = ucast (i_imm instr); imm8 = ucast (i_imm instr); d = ucast (i_imm instr);
         flags = (if i_flags_set instr then nzcv_asm else []);
         alu = (\<lambda>op. binary_asm (AluImm op RAX imm32) (AluRR op RAX RCX));
         shift = (\<lambda>op. binary_asm (ShiftImm op RAX imm8) (ShiftCl op RAX) False instr)
     in case i_op instr of
      Op_ADD \<Rightarrow> alu X_ADD (i_flags_set instr) instr
    | Op_SUB \<Rightarrow> alu X_SUB (i_flags_set instr) instr
    | Op_MUL \<Rightarrow> [ld_asm (i_src1 instr) RAX, ld_asm (i_src2 instr) RCX, ImulRR RCX RAX, st_asm RAX (i_dest instr)]
    | Op_SAR \<Rightarrow> shift X_SAR | Op_SHR \<Rightarrow> shift X_SHR | Op_SHL \<Rightarrow> shift X_SHL
    | Op_AND \<Rightarrow> alu X_AND (i_flags_set instr) instr
    | Op_OR \<Rightarrow> alu X_OR False instr | Op_XOR \<Rightarrow> alu X_XOR False instr
    | Op_CMP \<Rightarrow> [ld_asm (i_src1 instr) RAX] @
        (if i_src2 instr = IR_IMM \<or> i_src2 instr = IR_NONE then [AluImm X_CMP RAX imm32]
         else [ld_asm (i_src2 instr) RCX, AluRR X_CMP RAX RCX]) @ flags
    | Op_TST \<Rightarrow> [ld_asm (i_src1 instr) RAX, ld_asm (i_src2 instr) RCX, TestRR RAX RCX] @ flags
    | Op_MOV_IMM \<Rightarrow> [MovImm (guest_host (i_dest instr)) (i_imm instr),
                   st_asm (guest_host (i_dest instr)) (i_dest instr)]
    | Op_SET_REG \<Rightarrow>
        if i_src1 instr = IR_NONE then [MovImm RAX (i_imm instr), st_asm RAX (i_dest instr)]
        else [ld_asm (i_src1 instr) (guest_host (i_src1 instr)), st_asm (guest_host (i_src1 instr)) (i_dest instr)]
    | Op_LOAD64 \<Rightarrow> [ld_asm (i_src1 instr) RAX, Load RAX RAX d, st_asm RAX (i_dest instr)]
    | Op_LOAD32 \<Rightarrow> [ld_asm (i_src1 instr) RAX, Load RAX RAX d, st_asm RAX (i_dest instr)]
    | Op_STORE64 \<Rightarrow> [ld_asm (i_src1 instr) RAX, ld_asm (i_src2 instr) RCX, Store RAX d RCX]
    | Op_STORE32 \<Rightarrow> [ld_asm (i_src1 instr) RAX, ld_asm (i_src2 instr) RCX, Store RAX d RCX]
    | Op_JMP \<Rightarrow> block_ret_asm (i_imm instr)
    | Op_JMP_COND \<Rightarrow> jmp_cond_asm fall instr
    | Op_CALL \<Rightarrow> block_ret_asm (i_imm instr)
    | Op_RET \<Rightarrow> [Load RAX R12 264, Store R12 CTX_PC_OFFSET RAX, Ret]
    | Op_SYSCALL \<Rightarrow> [Int3]
    | Op_LOAD_PAIR \<Rightarrow> [ld_asm (i_src1 instr) RAX, Load RCX RAX d, Load RDX RAX (d + 8),
        st_asm RCX (i_dest instr), st_asm RDX (i_src2 instr)]
    | Op_STORE_PAIR \<Rightarrow> [ld_asm (i_src1 instr) RAX, ld_asm (i_src2 instr) RCX,
        Load RDX R12 (arm_reg_offset (ucast (drop_bit 32 (i_imm instr)))), Store RAX d RCX, Store RAX (d + 8) RDX]
    | _ \<Rightarrow> [Nop])"

lemma assembles_ld: "host_reg xreg < 16 \<Longrightarrow> assembles (load_arm_reg (ucast r) xreg) 8 [ld_asm r (host_reg xreg)]"
  and assembles_st: "host_reg xreg < 16 \<Longrightarrow> assembles (store_arm_reg xreg (ucast r)) 8 [st_asm (host_reg xreg) r]"
  unfolding load_arm_reg_def store_arm_reg_def ld_asm_def st_asm_def by (simp_all add: asm_mem)

lemma assembles_ld8:
  "host_reg xreg < 16 \<Longrightarrow> assembles (load_arm_reg r xreg) 8 [Load (host_reg xreg) R12 (arm_reg_offset r)]"
  unfolding load_arm_reg_def by (simp add: asm_mem)

lemma assembles_flags:
  "assembles (if save then save_nzcv else id) 160 (if save then nzcv_asm else [])"
  using assembles_save_nzcv assembles_id assembles_mono by (cases save) auto

lemma assembles_binary:
  assumes "i_src2 instr = IR_IMM \<Longrightarrow> assembles (op_imm (i_imm instr)) 7 [a]" "assembles op_reg 4 [b]"
  shows "assembles (lower_binary op_imm op_reg save instr) 200 (binary_asm a b save instr)"
proof -
  have "assembles (seq [load_arm_reg (ucast (i_src2 instr)) RCX, op_reg]) 12 [ld_asm (i_src2 instr) RCX, b]"
    by (rule asm_eq, (rule assembles_seq_rules assembles_ld assms(2) | simp)+)
  moreover have "i_src2 instr = IR_IMM \<Longrightarrow> assembles (op_imm (i_imm instr)) 12 [a]"
    by (rule asm_eq [OF assms(1)]) simp_all
  ultimately have operand: "assembles (if i_src2 instr = IR_IMM then op_imm (i_imm instr)
      else seq [load_arm_reg (ucast (i_src2 instr)) RCX, op_reg]) 12
      (if i_src2 instr = IR_IMM then [a] else [ld_asm (i_src2 instr) RCX, b])"
    by simp
  show ?thesis unfolding lower_binary_def binary_asm_def
    by (rule asm_eq, (rule assembles_seq_rules operand assembles_flags assembles_ld assembles_st | simp)+)
qed

lemma x86reg_code_range: "x86reg_code r < 16 \<or> x86reg_code r = 0xFF"
  by (cases r) simp_all

lemma host_reg_guest [simp]: "host_reg (arm_reg_to_x86 r) < 16"
  using x86reg_code_range [of "arm_to_x86_static r"]
  by (auto simp: host_reg_def arm_reg_to_x86_def R15_def)

lemma assembles_cmp:
  assumes "i_imm instr \<le> 0xFFFFFFFF"
  shows "assembles (if i_src2 instr = IR_IMM \<or> i_src2 instr = IR_NONE then emit_cmp_reg_imm RAX (i_imm instr)
         else seq [load_arm_reg (ucast (i_src2 instr)) RCX, emit_cmp_reg_reg RAX RCX]) 12
       (if i_src2 instr = IR_IMM \<or> i_src2 instr = IR_NONE then [AluImm X_CMP RAX (ucast (i_imm instr))]
         else [ld_asm (i_src2 instr) RCX, AluRR X_CMP RAX RCX])"
proof -
  have "assembles (seq [load_arm_reg (ucast (i_src2 instr)) RCX, emit_cmp_reg_reg RAX RCX]) 12
      [ld_asm (i_src2 instr) RCX, AluRR X_CMP RAX RCX]"
    by (rule asm_eq, (rule asm_rules assembles_ld | simp)+)
  moreover have "assembles (emit_cmp_reg_imm RAX (i_imm instr)) 12 [AluImm X_CMP RAX (ucast (i_imm instr))]"
    by (rule asm_eq [OF assembles_alu_imm(6) [OF assms]]) simp_all
  ultimately show ?thesis by simp
qed

definition assembles_opt :: "(X86_64Emitter \<Rightarrow> (bool \<times> X86_64Emitter) option) \<Rightarrow> nat \<Rightarrow> x86 list \<Rightarrow> bool" where
  "assembles_opt g n is \<longleftrightarrow> (\<exists>f. assembles f n is \<and> (\<forall>e. g e = Some (True, f e)))"

lemma assembles_optI: "assembles f n is \<Longrightarrow> assembles_opt (\<lambda>e. Some (True, f e)) n is"
  unfolding assembles_opt_def by blast

lemma assembles_alu_binary:
  assumes "imm32_operand instr"
  shows "assembles (lower_binary (emit_add_reg_imm RAX) (emit_add_reg_reg RAX RCX) s instr) 200
      (binary_asm (AluImm X_ADD RAX (ucast (i_imm instr))) (AluRR X_ADD RAX RCX) s instr)"
    and "assembles (lower_binary (emit_sub_reg_imm RAX) (emit_sub_reg_reg RAX RCX) s instr) 200
      (binary_asm (AluImm X_SUB RAX (ucast (i_imm instr))) (AluRR X_SUB RAX RCX) s instr)"
    and "assembles (lower_binary (emit_and_reg_imm RAX) (emit_and_reg_reg RAX RCX) s instr) 200
      (binary_asm (AluImm X_AND RAX (ucast (i_imm instr))) (AluRR X_AND RAX RCX) s instr)"
    and "assembles (lower_binary (emit_or_reg_imm RAX) (emit_or_reg_reg RAX RCX) s instr) 200
      (binary_asm (AluImm X_OR RAX (ucast (i_imm instr))) (AluRR X_OR RAX RCX) s instr)"
    and "assembles (lower_binary (emit_xor_reg_imm RAX) (emit_xor_reg_reg RAX RCX) s instr) 200
      (binary_asm (AluImm X_XOR RAX (ucast (i_imm instr))) (AluRR X_XOR RAX RCX) s instr)"
  using assms unfolding imm32_operand_def
  by (auto intro!: assembles_binary asm_eq [OF assembles_alu_imm(1)] asm_eq [OF assembles_rr(2)]
    asm_eq [OF assembles_alu_imm(2)] asm_eq [OF assembles_rr(3)]
    asm_eq [OF assembles_alu_imm(3)] asm_eq [OF assembles_rr(4)]
    asm_eq [OF assembles_alu_imm(4)] asm_eq [OF assembles_rr(5)]
    asm_eq [OF assembles_alu_imm(5)] asm_eq [OF assembles_rr(6)])

lemma assembles_shift_binary:
  "assembles (lower_binary (\<lambda>i. emit_shl_reg_imm RAX (ucast i)) (emit_shl_reg_cl RAX) s instr) 200
      (binary_asm (ShiftImm X_SHL RAX (ucast (i_imm instr))) (ShiftCl X_SHL RAX) s instr)"
  "assembles (lower_binary (\<lambda>i. emit_shr_reg_imm RAX (ucast i)) (emit_shr_reg_cl RAX) s instr) 200
      (binary_asm (ShiftImm X_SHR RAX (ucast (i_imm instr))) (ShiftCl X_SHR RAX) s instr)"
  "assembles (lower_binary (\<lambda>i. emit_sar_reg_imm RAX (ucast i)) (emit_sar_reg_cl RAX) s instr) 200
      (binary_asm (ShiftImm X_SAR RAX (ucast (i_imm instr))) (ShiftCl X_SAR RAX) s instr)"
  by (auto intro!: assembles_binary asm_eq [OF assembles_shift(1)] asm_eq [OF assembles_shift(2)]
    asm_eq [OF assembles_shift(3)] asm_eq [OF assembles_shift(4)] asm_eq [OF assembles_shift(5)]
    asm_eq [OF assembles_shift(6)])

lemma assembles_set_reg:
  "assembles (if i_src1 instr = IR_NONE
      then seq [emit_mov_reg_imm RAX (i_imm instr), store_arm_reg RAX (ucast (i_dest instr))]
      else seq [load_arm_reg (ucast (i_src1 instr)) (arm_reg_to_x86 (ucast (i_src1 instr))),
             store_arm_reg (arm_reg_to_x86 (ucast (i_src1 instr))) (ucast (i_dest instr))]) 18
    (if i_src1 instr = IR_NONE then [MovImm RAX (i_imm instr), st_asm RAX (i_dest instr)]
     else [ld_asm (i_src1 instr) (guest_host (i_src1 instr)), st_asm (guest_host (i_src1 instr)) (i_dest instr)])"
proof -
  have "assembles (seq [emit_mov_reg_imm RAX (i_imm instr), store_arm_reg RAX (ucast (i_dest instr))]) 18
      [MovImm RAX (i_imm instr), st_asm RAX (i_dest instr)]"
    by (rule asm_eq, (rule asm_rules assembles_st | simp)+)
  moreover have "assembles (seq [load_arm_reg (ucast (i_src1 instr)) (arm_reg_to_x86 (ucast (i_src1 instr))),
             store_arm_reg (arm_reg_to_x86 (ucast (i_src1 instr))) (ucast (i_dest instr))]) 18
      [ld_asm (i_src1 instr) (guest_host (i_src1 instr)), st_asm (guest_host (i_src1 instr)) (i_dest instr)]"
    unfolding guest_host_def by (rule asm_eq, (rule asm_rules assembles_ld assembles_st | simp)+)
  ultimately show ?thesis by simp
qed

lemmas lower_rules = assembles_set_reg assembles_alu_binary assembles_shift_binary assembles_jmp_cond assembles_cmp
  assembles_flags assembles_ld assembles_st assembles_ld8 asm_rules

text \<open>Every lowered instruction of the subset reads back as its reference assembly: the
  operations with an immediate, the pairs, and all others.\<close>

lemma lower_alu_assembles:
  assumes "encodable instr" and op: "i_op instr \<in> {Op_ADD, Op_SUB, Op_AND, Op_OR, Op_XOR}"
  shows "assembles_opt (lower_instr fall instr) 200 (lower_asm fall instr)"
proof -
  have "imm32_operand instr" using assms by (auto simp: encodable_def)
  note alu = assembles_optI [OF assembles_alu_binary(1) [OF this]] assembles_optI [OF assembles_alu_binary(2) [OF this]]
    assembles_optI [OF assembles_alu_binary(3) [OF this]] assembles_optI [OF assembles_alu_binary(4) [OF this]]
    assembles_optI [OF assembles_alu_binary(5) [OF this]]
  from op show ?thesis
    by (auto simp: lower_instr_def [abs_def] lower_asm_def alu)
qed

lemma lower_cmp_assembles:
  assumes "encodable instr" and op: "i_op instr = Op_CMP"
  shows "assembles_opt (lower_instr fall instr) 200 (lower_asm fall instr)"
proof -
  have imm: "i_imm instr \<le> 0xFFFFFFFF" using assms by (simp add: encodable_def)
  show ?thesis unfolding lower_instr_def [abs_def] lower_asm_def op IROpcode.case Let_def
    by (rule assembles_optI, rule asm_eq, (rule lower_rules imm | simp)+)
qed

lemma lower_pair_assembles:
  assumes "encodable instr" and op: "i_op instr \<in> {Op_LOAD_PAIR, Op_STORE_PAIR}"
  shows "assembles_opt (lower_instr fall instr) 200 (lower_asm fall instr)"
proof -
  obtain d8 where d8: "plus_8 (ucast (i_imm instr)) = Some d8" using assms by (auto simp: encodable_def)
  then have "d8 = ucast (i_imm instr) + 8" by (simp add: plus_8_def split: if_splits)
  with d8 have p: "plus_8 (ucast (i_imm instr)) = Some (ucast (i_imm instr) + 8)" by simp
  show ?thesis
  proof (cases "i_op instr = Op_LOAD_PAIR")
    case True
    show ?thesis
      unfolding lower_instr_def [abs_def] lower_asm_def True IROpcode.case Let_def lower_cases p Option.bind.simps
      by (rule assembles_optI) (rule asm_eq, (rule lower_rules | simp)+)
  next
    case False
    with op have st: "i_op instr = Op_STORE_PAIR" by simp
    show ?thesis
      unfolding lower_instr_def [abs_def] lower_asm_def st IROpcode.case Let_def lower_cases p Option.bind.simps
      by (rule assembles_optI) (rule asm_eq, (rule lower_rules | simp)+)
  qed
qed

lemma lower_jump_assembles:
  assumes op: "i_op instr = Op_JMP \<or> i_op instr = Op_CALL"
  shows "assembles_opt (lower_instr fall instr) 200 (lower_asm fall instr)"
proof -
  have "assembles (seq [emit_mov_reg_imm RAX (i_imm instr), emit_mov_mem_reg R12 CTX_PC_OFFSET RAX, emit_ret])
      200 (block_ret_asm (i_imm instr))"
    using assembles_mono [OF assembles_block_ret] by (simp add: emit_block_ret_def)
  from assembles_optI [OF this] op show ?thesis
    by (auto simp: lower_instr_def [abs_def] lower_asm_def lower_cases)
qed

lemma lower_other_assembles:
  assumes "i_op instr \<notin> {Op_ADD, Op_SUB, Op_AND, Op_OR, Op_XOR, Op_CMP, Op_LOAD_PAIR, Op_STORE_PAIR,
    Op_VEC_DUP, Op_JMP, Op_CALL}"
  shows "assembles_opt (lower_instr fall instr) 200 (lower_asm fall instr)"
  by (insert assms, cases "i_op instr"; (simp; fail)?;
    (thin_tac "i_op instr \<notin> _", simp only: lower_instr_def [abs_def] lower_asm_def IROpcode.case Let_def lower_cases,
     rule assembles_optI, rule asm_eq, (rule lower_rules | simp add: guest_host_def)+)?)

lemma lower_instr_assembles:
  assumes "encodable instr"
  shows "assembles_opt (lower_instr fall instr) 200 (lower_asm fall instr)"
proof -
  have "i_op instr \<noteq> Op_VEC_DUP" using assms by (auto simp: encodable_def)
  then show ?thesis
    using lower_alu_assembles [OF assms] lower_cmp_assembles [OF assms] lower_pair_assembles [OF assms]
      lower_jump_assembles [of instr] lower_other_assembles [of instr]
    by blast
qed

lemma lower_instrs_assembles:
  "\<forall>i\<in>set instrs. encodable i \<Longrightarrow>
   assembles_opt (lower_instrs fall instrs) (200 * length instrs) (concat (map (lower_asm fall) instrs))"
proof (induction instrs)
  case Nil
  have "assembles_opt (\<lambda>e. Some (True, id e)) 0 []" by (rule assembles_optI [OF assembles_id])
  then show ?case by simp
next
  case (Cons i "is")
  from Cons.prems obtain f where f: "assembles f 200 (lower_asm fall i)" "\<And>e. lower_instr fall i e = Some (True, f e)"
    using lower_instr_assembles [of i fall] unfolding assembles_opt_def by auto
  from Cons obtain g where g: "assembles g (200 * length is) (concat (map (lower_asm fall) is))"
      "\<And>e. lower_instrs fall is e = Some (True, g e)"
    unfolding assembles_opt_def by auto
  have "assembles (seq [f, g]) (200 * length (i # is)) (concat (map (lower_asm fall) (i # is)))"
    using assembles_seq [OF f(1) assembles_seq [OF g(1) assembles_seq_Nil]] by simp
  moreover have "lower_instrs fall (i # is) e = Some (True, (seq [f, g]) e)" for e
    by (simp add: f(2) g(2))
  ultimately show ?case unfolding assembles_opt_def by blast
qed

definition block_asm :: "u64 \<Rightarrow> IRInst list \<Rightarrow> x86 list" where
  "block_asm fall instrs = MovRR R12 RDI # concat (map (lower_asm fall) instrs) @ block_ret_asm fall"

lemma lower_block_assembles:
  assumes "\<forall>i\<in>set (b_instructions block). encodable i"
  shows "assembles_opt (lower_block block fall) (200 * length (b_instructions block) + 22)
     (block_asm fall (b_instructions block))"
proof -
  let ?is = "b_instructions block"
  obtain g where g: "assembles g (200 * length ?is) (concat (map (lower_asm fall) ?is))"
      "\<And>e. lower_instrs fall ?is e = Some (True, g e)"
    using lower_instrs_assembles [OF assms] unfolding assembles_opt_def by blast
  have "assembles (seq [emit_mov_reg_reg R12 RDI, g, emit_block_ret fall])
      (200 * length ?is + 22) (block_asm fall ?is)"
    by (rule asm_eq, (rule asm_rules g(1) | simp)+) (simp_all add: block_asm_def)
  moreover have "lower_block block fall e = Some (True, (seq [emit_mov_reg_reg R12 RDI, g, emit_block_ret fall]) e)" for e
    by (simp add: lower_block_def g(2))
  ultimately show ?thesis unfolding assembles_opt_def by blast
qed

section \<open>Properties\<close>

text \<open>C14: A block whose instructions lie in the encodable subset, lowered into a buffer with room
  for it, is machine code that the reference disassembler reads back, instruction by
  instruction, as the reference assembly of the block; the code is appended to what the buffer
  held.\<close>

theorem lower_block_reads_back:
  assumes "\<forall>i\<in>set (b_instructions block). encodable i" and "emitter_wf e"
    and "200 * length (b_instructions block) + 22 \<le> emit_room e"
  shows "\<exists>e' code. lower_block block fall e = Some (True, e') \<and> emitted e' = emitted e @ code \<and>
    x86_disasm (length code) code = Some (block_asm fall (b_instructions block)) \<and> emitter_wf e'"
proof -
  obtain f where f: "assembles f (200 * length (b_instructions block) + 22) (block_asm fall (b_instructions block))"
      "\<And>e. lower_block block fall e = Some (True, f e)"
    using lower_block_assembles [OF assms(1)] unfolding assembles_opt_def by blast
  then show ?thesis
    using assembles_emitted [OF f(1) assms(2,3)] decodes_to_disasm by metis
qed

theorem lower_block_reads_back_witness:
  "let e = set_buffer (Some (replicate 1000 0)) 1000 X86_64Emitter_init;
       block = IRBlock_init\<lparr>b_instructions := [IRInst_init\<lparr>i_op := Op_ADD, i_dest := 1, i_src1 := 2,
                 i_src2 := IR_IMM, i_imm := 5\<rparr>]\<rparr>
   in \<exists>e' code. lower_block block 0x1004 e = Some (True, e') \<and> emitted e' = code \<and>
        x86_disasm (length code) code = Some ([MovRR R12 RDI, Load RAX R12 16, AluImm X_ADD RAX 5,
          Store R12 8 RAX] @ block_ret_asm 0x1004)"
  using lower_block_reads_back [of "IRBlock_init\<lparr>b_instructions := [IRInst_init\<lparr>i_op := Op_ADD, i_dest := 1,
      i_src1 := 2, i_src2 := IR_IMM, i_imm := 5\<rparr>]\<rparr>"
    "set_buffer (Some (replicate 1000 0)) 1000 X86_64Emitter_init" "0x1004"]
  by (simp add: encodable_def imm32_operand_def emitter_view set_buffer_def X86_64Emitter_init_def
    block_asm_def lower_asm_def binary_asm_def ld_asm_def st_asm_def arm_reg_offset_def IRInst_init_def
    Let_def) blast

end
