(* ===== verification/Memory_Manager.thy ===== *)
theory Memory_Manager
  imports Prelude
begin

text \<open>
  The guest memory manager (\<^verbatim>\<open>src/src/core/memory_manager.hpp\<close>, \<^verbatim>\<open>memory_manager.cpp\<close>).  Guest
  addresses are host addresses, so the state has two parts: the manager's own record of regions
  and the address space of the process, bytes with the protection of their page.  On the x86-64
  host a mapped page with any access right can be read and needs the write right to be written;
  an access the host refuses is a fault, \<^const>\<open>None\<close>.  The kernel decides which mappings succeed:
  its answers are the parameters in the record \<open>os\<close>; their effect on the address space is the
  documented one.
\<close>

section \<open>The address space of the process\<close>

definition PROT_READ :: u32 where "PROT_READ = 1"
definition PROT_WRITE :: u32 where "PROT_WRITE = 2"
definition PROT_EXEC :: u32 where "PROT_EXEC = 4"

lemmas prot_defs = PROT_READ_def PROT_WRITE_def PROT_EXEC_def

record host =
  h_byte :: "u64 \<Rightarrow> u8"
  h_prot :: "u64 \<Rightarrow> u32 option"

record os =
  os_mmap :: "u64 \<Rightarrow> u64 \<Rightarrow> u32 \<Rightarrow> bool"
  os_munmap :: "u64 \<Rightarrow> u64 \<Rightarrow> int"
  os_mprotect :: "u64 \<Rightarrow> u64 \<Rightarrow> u32 \<Rightarrow> int"

definition in_range :: "u64 \<Rightarrow> u64 \<Rightarrow> u64 \<Rightarrow> bool" where
  "in_range a addr sz \<longleftrightarrow> a - addr < sz"

definition host_map :: "u64 \<Rightarrow> u64 \<Rightarrow> u32 \<Rightarrow> host \<Rightarrow> host" where
  "host_map addr sz prot h = h\<lparr>h_byte := (\<lambda>a. if in_range a addr sz then 0 else h_byte h a),
     h_prot := (\<lambda>a. if in_range a addr sz then Some prot else h_prot h a)\<rparr>"

definition host_unmap :: "u64 \<Rightarrow> u64 \<Rightarrow> host \<Rightarrow> host" where
  "host_unmap addr sz h = h\<lparr>h_prot := (\<lambda>a. if in_range a addr sz then None else h_prot h a)\<rparr>"

definition host_protect :: "u64 \<Rightarrow> u64 \<Rightarrow> u32 \<Rightarrow> host \<Rightarrow> host" where
  "host_protect addr sz prot h = h\<lparr>h_prot := (\<lambda>a. if in_range a addr sz then Some prot else h_prot h a)\<rparr>"

definition can_read :: "host \<Rightarrow> u64 \<Rightarrow> bool" where
  "can_read h a = (case h_prot h a of None \<Rightarrow> False | Some p \<Rightarrow> p AND 7 \<noteq> 0)"

definition can_write :: "host \<Rightarrow> u64 \<Rightarrow> bool" where
  "can_write h a = (case h_prot h a of None \<Rightarrow> False | Some p \<Rightarrow> p AND PROT_WRITE \<noteq> 0)"

definition addrs :: "u64 \<Rightarrow> nat \<Rightarrow> u64 list" where
  "addrs a n = map (\<lambda>i. a + of_nat i) [0..<n]"

definition host_read :: "host \<Rightarrow> u64 \<Rightarrow> nat \<Rightarrow> u8 list option" where
  "host_read h a n = (if list_all (can_read h) (addrs a n) then Some (map (h_byte h) (addrs a n)) else None)"

fun upd_all :: "u64 list \<Rightarrow> u8 list \<Rightarrow> (u64 \<Rightarrow> u8) \<Rightarrow> u64 \<Rightarrow> u8" where
  "upd_all (x # xs) (b # bs) f = upd_all xs bs (f(x := b))"
| "upd_all _ _ f = f"

definition host_write :: "host \<Rightarrow> u64 \<Rightarrow> u8 list \<Rightarrow> host option" where
  "host_write h a bs = (if list_all (can_write h) (addrs a (length bs))
     then Some (h\<lparr>h_byte := upd_all (addrs a (length bs)) bs (h_byte h)\<rparr>) else None)"

section \<open>The manager\<close>

definition PAGE_SIZE :: u64 where "PAGE_SIZE = 4096"
definition PAGE_MASK :: u64 where "PAGE_MASK = NOT (PAGE_SIZE - 1)"

datatype MemRegionType = CODE | DATA | STACK | HEAP | MMAP | GUARD

record MemRegion =
  mr_addr :: u64
  mr_size :: u64
  mr_perms :: u32
  mr_type :: MemRegionType
  mr_is_translated :: bool

record MemoryManager =
  mm_memory_base :: u64
  mm_memory_size :: u64
  mm_brk :: u64
  mm_mmap_base :: u64
  mm_regions :: "MemRegion list"
  mm_translated_pages :: "u64 list"

definition MemoryManager_init :: MemoryManager where
  "MemoryManager_init = \<lparr>mm_memory_base = 0, mm_memory_size = 0, mm_brk = 0, mm_mmap_base = 0,
     mm_regions = [], mm_translated_pages = []\<rparr>"

text \<open>\<open>init\<close>: \<open>base\<close> is the address the kernel chose, \<^const>\<open>None\<close> for \<open>MAP_FAILED\<close>.\<close>

definition mm_init :: "u64 option \<Rightarrow> u64 \<Rightarrow> MemoryManager \<Rightarrow> host \<Rightarrow> bool \<times> MemoryManager \<times> host" where
  "mm_init base total_size mm h = (case base of
      None \<Rightarrow> (False, mm\<lparr>mm_memory_size := total_size, mm_memory_base := 0\<rparr>, h)
    | Some b \<Rightarrow>
        let mb = b + total_size div 2
        in (True, mm\<lparr>mm_memory_size := total_size, mm_memory_base := b, mm_mmap_base := mb, mm_brk := mb\<rparr>,
            host_map b total_size (PROT_READ OR PROT_WRITE) h))"

definition find_free_region :: "u64 \<Rightarrow> u64 \<Rightarrow> MemoryManager \<Rightarrow> u64 \<times> MemoryManager" where
  "find_free_region sz hint mm =
     (if hint \<noteq> 0 then (hint, mm)
      else (mm_mmap_base mm, mm\<lparr>mm_mmap_base := mm_mmap_base mm + sz\<rparr>))"

definition page_align :: "u64 \<Rightarrow> u64" where
  "page_align sz = (sz + PAGE_SIZE - 1) AND NOT (PAGE_SIZE - 1)"

definition mm_mmap :: "os \<Rightarrow> u64 \<Rightarrow> u32 \<Rightarrow> u64 \<Rightarrow> MemoryManager \<Rightarrow> host \<Rightarrow> u64 \<times> MemoryManager \<times> host" where
  "mm_mmap os sz prot hint_addr mm h =
     (let sz = page_align sz;
          (addr, mm) = (if hint_addr \<noteq> 0 then (hint_addr, mm) else find_free_region sz 0 mm)
      in if addr = 0 then (0, mm, h)
         else if \<not> os_mmap os addr sz prot then (0, mm, h)
         else (addr, mm\<lparr>mm_regions := mm_regions mm @ [\<lparr>mr_addr = addr, mr_size = sz, mr_perms = prot,
                 mr_type = MMAP, mr_is_translated = False\<rparr>]\<rparr>, host_map addr sz prot h))"

definition invalidate_translated_pages :: "MemoryManager \<Rightarrow> MemoryManager" where
  "invalidate_translated_pages mm = mm\<lparr>mm_translated_pages := []\<rparr>"

definition starts_in :: "u64 \<Rightarrow> u64 \<Rightarrow> MemRegion \<Rightarrow> bool" where
  "starts_in addr sz r \<longleftrightarrow> mr_addr r \<ge> addr \<and> mr_addr r < addr + sz"

fun munmap_regions :: "u64 \<Rightarrow> u64 \<Rightarrow> MemRegion list \<Rightarrow> MemoryManager \<Rightarrow> MemRegion list \<times> MemoryManager" where
  "munmap_regions addr sz [] mm = ([], mm)"
| "munmap_regions addr sz (r # rs) mm =
     (let mm = (if starts_in addr sz r \<and> mr_is_translated r then invalidate_translated_pages mm else mm);
          (rs, mm) = munmap_regions addr sz rs mm
      in if starts_in addr sz r then (rs, mm) else (r # rs, mm))"

definition mm_munmap :: "os \<Rightarrow> u64 \<Rightarrow> u64 \<Rightarrow> MemoryManager \<Rightarrow> host \<Rightarrow> int \<times> MemoryManager \<times> host" where
  "mm_munmap os addr sz mm h =
     (let sz = page_align sz;
          (rs, mm) = munmap_regions addr sz (mm_regions mm) mm;
          mm = mm\<lparr>mm_regions := rs\<rparr>;
          res = os_munmap os addr sz
      in (res, mm, if res = 0 then host_unmap addr sz h else h))"

fun set_perms_at :: "u64 \<Rightarrow> u32 \<Rightarrow> MemRegion list \<Rightarrow> MemRegion list" where
  "set_perms_at addr prot [] = []"
| "set_perms_at addr prot (r # rs) =
     (if mr_addr r = addr then r\<lparr>mr_perms := prot\<rparr> # rs else r # set_perms_at addr prot rs)"

definition mm_mprotect :: "os \<Rightarrow> u64 \<Rightarrow> u64 \<Rightarrow> u32 \<Rightarrow> MemoryManager \<Rightarrow> host \<Rightarrow> int \<times> MemoryManager \<times> host" where
  "mm_mprotect os addr sz prot mm h =
     (let mm = mm\<lparr>mm_regions := set_perms_at addr prot (mm_regions mm)\<rparr>;
          res = os_mprotect os addr sz prot
      in (res, mm, if res = 0 then host_protect addr sz prot h else h))"

subsection \<open>Guarded accesses\<close>

fun check_perms_in :: "u64 \<Rightarrow> u64 \<Rightarrow> u32 \<Rightarrow> MemRegion list \<Rightarrow> bool" where
  "check_perms_in addr len needed [] = False"
| "check_perms_in addr len needed (r # rs) =
     (if addr \<ge> mr_addr r \<and> addr + len \<le> mr_addr r + mr_size r
      then if needed = PROT_READ \<and> mr_perms r AND PROT_EXEC \<noteq> 0 then True
           else mr_perms r AND needed = needed
      else check_perms_in addr len needed rs)"

definition check_perms :: "MemoryManager \<Rightarrow> u64 \<Rightarrow> u64 \<Rightarrow> u32 \<Rightarrow> bool" where
  "check_perms mm addr len needed = check_perms_in addr len needed (mm_regions mm)"

text \<open>A read is \<open>Some (Some v)\<close> for \<open>true\<close> with the value, \<open>Some None\<close> for \<open>false\<close>; a write is
  \<open>Some (ok, host)\<close>.\<close>

definition read_bytes :: "u64 \<Rightarrow> u64 \<Rightarrow> MemoryManager \<Rightarrow> host \<Rightarrow> u8 list option option" where
  "read_bytes addr len mm h =
     (if \<not> check_perms mm addr len PROT_READ then Some None
      else map_option Some (host_read h addr (unat len)))"

definition read_u8 :: "u64 \<Rightarrow> MemoryManager \<Rightarrow> host \<Rightarrow> u8 option option" where
  "read_u8 addr mm h =
     (if \<not> check_perms mm addr 1 PROT_READ then Some None
      else map_option (\<lambda>bs. Some (le_word bs)) (host_read h addr 1))"

definition read_u16 :: "u64 \<Rightarrow> MemoryManager \<Rightarrow> host \<Rightarrow> u16 option option" where
  "read_u16 addr mm h =
     (if \<not> check_perms mm addr 2 PROT_READ then Some None
      else map_option (\<lambda>bs. Some (le_word bs)) (host_read h addr 2))"

definition read_u32 :: "u64 \<Rightarrow> MemoryManager \<Rightarrow> host \<Rightarrow> u32 option option" where
  "read_u32 addr mm h = map_option (\<lambda>bs. Some (le_word bs)) (host_read h addr 4)"

definition read_u64 :: "u64 \<Rightarrow> MemoryManager \<Rightarrow> host \<Rightarrow> u64 option option" where
  "read_u64 addr mm h =
     (if \<not> check_perms mm addr 8 PROT_READ then Some None
      else map_option (\<lambda>bs. Some (le_word bs)) (host_read h addr 8))"

definition write_bytes :: "u64 \<Rightarrow> u8 list \<Rightarrow> MemoryManager \<Rightarrow> host \<Rightarrow> (bool \<times> host) option" where
  "write_bytes addr src mm h =
     (if \<not> check_perms mm addr (of_nat (length src)) PROT_WRITE then Some (False, h)
      else map_option (Pair True) (host_write h addr src))"

definition write_u8 :: "u64 \<Rightarrow> u8 \<Rightarrow> MemoryManager \<Rightarrow> host \<Rightarrow> (bool \<times> host) option" where
  "write_u8 addr val mm h =
     (if \<not> check_perms mm addr 1 PROT_WRITE then Some (False, h)
      else map_option (Pair True) (host_write h addr (le_bytes 1 val)))"

definition write_u16 :: "u64 \<Rightarrow> u16 \<Rightarrow> MemoryManager \<Rightarrow> host \<Rightarrow> (bool \<times> host) option" where
  "write_u16 addr val mm h =
     (if \<not> check_perms mm addr 2 PROT_WRITE then Some (False, h)
      else map_option (Pair True) (host_write h addr (le_bytes 2 val)))"

definition write_u32 :: "u64 \<Rightarrow> u32 \<Rightarrow> MemoryManager \<Rightarrow> host \<Rightarrow> (bool \<times> host) option" where
  "write_u32 addr val mm h =
     (if \<not> check_perms mm addr 4 PROT_WRITE then Some (False, h)
      else map_option (Pair True) (host_write h addr (le_bytes 4 val)))"

definition write_u64 :: "u64 \<Rightarrow> u64 \<Rightarrow> MemoryManager \<Rightarrow> host \<Rightarrow> (bool \<times> host) option" where
  "write_u64 addr val mm h =
     (if \<not> check_perms mm addr 8 PROT_WRITE then Some (False, h)
      else map_option (Pair True) (host_write h addr (le_bytes 8 val)))"

definition get_host_ptr :: "u64 \<Rightarrow> u64" where
  "get_host_ptr addr = addr"

subsection \<open>Translated pages and the heap\<close>

definition is_translated_page :: "u64 \<Rightarrow> MemoryManager \<Rightarrow> bool" where
  "is_translated_page addr mm \<longleftrightarrow> (addr AND PAGE_MASK) \<in> set (mm_translated_pages mm)"

definition mark_translated_page :: "u64 \<Rightarrow> MemoryManager \<Rightarrow> MemoryManager" where
  "mark_translated_page addr mm =
     (let page = addr AND PAGE_MASK
      in if page \<in> set (mm_translated_pages mm) then mm
         else mm\<lparr>mm_translated_pages := mm_translated_pages mm @ [page]\<rparr>)"

definition get_brk :: "MemoryManager \<Rightarrow> u64" where
  "get_brk mm = mm_brk mm"

definition set_brk :: "u64 \<Rightarrow> MemoryManager \<Rightarrow> int \<times> MemoryManager" where
  "set_brk new_brk mm =
     (if new_brk < mm_mmap_base mm then (- 1, mm) else (0, mm\<lparr>mm_brk := new_brk\<rparr>))"

section \<open>The byte-memory interface\<close>

text \<open>What the accessors rely on: a completed write is read back, and bytes outside it keep their
  value.\<close>

definition disjoint_ranges :: "u64 \<Rightarrow> nat \<Rightarrow> u64 \<Rightarrow> nat \<Rightarrow> bool" where
  "disjoint_ranges a m b n \<longleftrightarrow> set (addrs a m) \<inter> set (addrs b n) = {}"

locale byte_memory =
  fixes rd :: "'s \<Rightarrow> u64 \<Rightarrow> nat \<Rightarrow> u8 list option"
    and wr :: "'s \<Rightarrow> u64 \<Rightarrow> u8 list \<Rightarrow> 's option"
  assumes rd_wr_same: "length bs < 2 ^ 64 \<Longrightarrow> wr s a bs = Some s' \<Longrightarrow> rd s' a (length bs) = Some bs"
    and rd_wr_other: "wr s a bs = Some s' \<Longrightarrow> disjoint_ranges a (length bs) b n \<Longrightarrow> rd s' b n = rd s b n"
begin

definition rdw :: "'s \<Rightarrow> u64 \<Rightarrow> nat \<Rightarrow> 'a::len word option" where
  "rdw s a n = map_option le_word (rd s a n)"

lemma rdw_wr_same:
  "wr s a (le_bytes n (w :: 'a::len word)) = Some s' \<Longrightarrow> LENGTH('a) \<le> 8 * n \<Longrightarrow> n < 2 ^ 64 \<Longrightarrow> rdw s' a n = Some w"
  using rd_wr_same [of "le_bytes n w" s a s'] by (simp add: rdw_def le_word_le_bytes)

lemma rdw_wr_other:
  "wr s a bs = Some s' \<Longrightarrow> disjoint_ranges a (length bs) b n \<Longrightarrow> rdw s' b n = rdw s b n"
  by (simp add: rdw_def rd_wr_other)

end

lemma length_addrs [simp]: "length (addrs a n) = n"
  by (simp add: addrs_def)

lemma addrs_part:
  assumes "k + m \<le> n"
  shows "set (addrs (b + of_nat k) m) \<subseteq> set (addrs b n)"
proof
  fix x assume "x \<in> set (addrs (b + of_nat k) m)"
  then obtain j where "j < m" "x = b + of_nat (k + j)" by (auto simp: addrs_def add.assoc)
  with assms show "x \<in> set (addrs b n)" unfolding addrs_def by (auto simp del: of_nat_add intro!: image_eqI)
qed

lemma distinct_addrs: "n < 2 ^ 64 \<Longrightarrow> distinct (addrs a n)"
  by (auto simp: addrs_def distinct_map inj_on_def word_of_nat_eq_iff take_bit_nat_eq_self)

lemma can_write_read: "can_write h a \<Longrightarrow> can_read h a"
proof -
  have "p AND 7 \<noteq> 0" if "p AND 2 \<noteq> 0" for p :: u32
  proof
    assume "p AND 7 = 0"
    then have "(p AND 7) AND 2 = 0" by simp
    with that show False by (simp add: and.assoc)
  qed
  then show "can_write h a \<Longrightarrow> can_read h a"
    by (auto simp: can_write_def can_read_def PROT_WRITE_def split: option.splits)
qed

lemma upd_all_other: "x \<notin> set xs \<Longrightarrow> upd_all xs bs f x = f x"
  by (induction xs bs f rule: upd_all.induct) auto

lemma upd_all_same: "distinct xs \<Longrightarrow> length xs = length bs \<Longrightarrow> map (upd_all xs bs f) xs = bs"
  by (induction xs bs f rule: upd_all.induct) (auto simp: upd_all_other)

lemma can_read_byte_update [simp]:
  "can_read (h\<lparr>h_byte := f\<rparr>) = can_read h" "can_write (h\<lparr>h_byte := f\<rparr>) = can_write h"
  by (simp_all add: can_read_def can_write_def fun_eq_iff)

interpretation host: byte_memory host_read host_write
proof unfold_locales
  fix bs s a s'
  assume "length bs < 2 ^ 64" "host_write s a bs = Some s'"
  then show "host_read s' a (length bs) = Some bs"
    using distinct_addrs [of "length bs" a]
    by (auto simp: host_write_def host_read_def upd_all_same list_all_iff can_write_read split: if_splits)
next
  fix s a bs s' b n
  assume "host_write s a bs = Some s'" "disjoint_ranges a (length bs) b n"
  then have "map (h_byte s') (addrs b n) = map (h_byte s) (addrs b n)" "can_read s' = can_read s"
    by (auto simp: host_write_def disjoint_ranges_def split: if_splits intro!: upd_all_other)
  then show "host_read s' b n = host_read s b n" by (simp add: host_read_def)
qed

section \<open>Alignment and permissions\<close>

lemma unat_u64_less: "unat (w :: u64) < 2 ^ 64"
proof -
  have "unat w < 2 ^ LENGTH(64)" by (rule unsigned_less)
  then show ?thesis by simp
qed

lemma unat_page_align:
  assumes "unat sz + 4095 < 2 ^ 64"
  shows "unat (page_align sz) = (unat sz + 4095) div 4096 * 4096"
proof -
  have "(NOT 4095 :: u64) = NOT (mask 12)" by (simp add: mask_eq_decr_exp)
  then have "page_align sz = (sz + 4095) AND NOT (mask 12)" by (simp add: page_align_def PAGE_SIZE_def add.commute)
  also have "\<dots> = push_bit 12 (drop_bit 12 (sz + 4095))"
    by (rule bit_word_eqI) (auto simp: bit_simps)
  finally have pa: "page_align sz = push_bit 12 (drop_bit 12 (sz + 4095))" .
  have "unat (page_align sz) = take_bit 64 (unat (sz + 4095) div 4096 * 4096)"
    unfolding pa unsigned_push_bit_eq unsigned_drop_bit_eq
    using unat_u64_less [of "sz + 4095"] by (simp add: push_bit_eq_mult drop_bit_eq_div take_bit_nat_eq_self)
  moreover have "unat (sz + 4095) = unat sz + 4095" using assms by (simp add: unat_plus_if')
  moreover have "(unat sz + 4095) div 4096 * 4096 \<le> unat sz + 4095" by simp
  ultimately show ?thesis using assms by (simp add: take_bit_nat_eq_self)
qed

definition region_end :: "MemRegion \<Rightarrow> nat" where
  "region_end r = unat (mr_addr r) + unat (mr_size r)"

definition grants :: "MemRegion \<Rightarrow> u32 \<Rightarrow> bool" where
  "grants r needed \<longleftrightarrow> (needed = PROT_READ \<and> mr_perms r AND PROT_EXEC \<noteq> 0) \<or> mr_perms r AND needed = needed"

lemma check_perms_in_grants:
  "check_perms_in addr len needed rs \<Longrightarrow>
     \<exists>r\<in>set rs. mr_addr r \<le> addr \<and> addr + len \<le> mr_addr r + mr_size r \<and> grants r needed"
  by (induction rs) (auto simp: grants_def split: if_splits)

section \<open>Properties\<close>

text \<open>C18: A 64-bit write that succeeds is read back by a read of the same address that the region
  permits, and does not change what any read, of any width, of a disjoint address range
  returns; a write the regions do not permit changes nothing.\<close>

theorem write_read_u64:
  assumes "write_u64 addr val mm h = Some (ok, h')"
  shows "(ok \<and> check_perms mm addr 8 PROT_READ \<longrightarrow> read_u64 addr mm h' = Some (Some val)) \<and>
    (ok \<longrightarrow> (\<forall>b. (disjoint_ranges addr 8 b 1 \<longrightarrow> read_u8 b mm h' = read_u8 b mm h) \<and>
       (disjoint_ranges addr 8 b 2 \<longrightarrow> read_u16 b mm h' = read_u16 b mm h) \<and>
       (disjoint_ranges addr 8 b 4 \<longrightarrow> read_u32 b mm h' = read_u32 b mm h) \<and>
       (disjoint_ranges addr 8 b 8 \<longrightarrow> read_u64 b mm h' = read_u64 b mm h))) \<and>
    (\<not> ok \<longrightarrow> \<not> check_perms mm addr 8 PROT_WRITE \<and> h' = h)"
proof (cases "check_perms mm addr 8 PROT_WRITE")
  case True
  with assms have w: "host_write h addr (le_bytes 8 val) = Some h'" and ok: ok
    by (auto simp: write_u64_def)
  have other: "host_read h' b n = host_read h b n" if "disjoint_ranges addr 8 b n" for b n
    using host.rd_wr_other [OF w] that by simp
  have "map_option le_word (host_read h' addr 8) = Some val"
    using host.rdw_wr_same [OF w] by (simp add: host.rdw_def)
  then have "check_perms mm addr 8 PROT_READ \<Longrightarrow> read_u64 addr mm h' = Some (Some val)"
    by (auto simp: read_u64_def)
  with ok other show ?thesis by (simp add: read_u8_def read_u16_def read_u32_def read_u64_def)
next
  case False
  with assms show ?thesis by (simp add: write_u64_def)
qed

theorem write_read_u64_witness:
  "let mm = MemoryManager_init\<lparr>mm_regions := [\<lparr>mr_addr = 0x1000, mr_size = 0x1000, mr_perms = 3,
               mr_type = DATA, mr_is_translated = False\<rparr>]\<rparr>;
       h = host_map 0x1000 0x1000 3 \<lparr>h_byte = (\<lambda>_. 0), h_prot = (\<lambda>_. None)\<rparr>
   in \<exists>h'. write_u64 0x1008 0x1122334455667788 mm h = Some (True, h') \<and>
        read_u64 0x1008 mm h' = Some (Some 0x1122334455667788)"
proof -
  define mm where "mm = MemoryManager_init\<lparr>mm_regions := [\<lparr>mr_addr = 0x1000, mr_size = 0x1000, mr_perms = 3,
               mr_type = DATA, mr_is_translated = False\<rparr>]\<rparr>"
  define h where "h = host_map 0x1000 0x1000 3 \<lparr>h_byte = (\<lambda>_. 0), h_prot = (\<lambda>_. None)\<rparr>"
  have p: "check_perms mm 0x1008 8 PROT_READ" "check_perms mm 0x1008 8 PROT_WRITE"
    by (simp_all add: check_perms_def mm_def prot_defs)
  have "list_all (can_write h) (addrs 0x1008 8)"
    by (simp add: h_def addrs_def upt_rec can_write_def host_map_def in_range_def PROT_WRITE_def)
  with p obtain h' where "write_u64 0x1008 0x1122334455667788 mm h = Some (True, h')"
    by (auto simp: write_u64_def host_write_def)
  with write_read_u64 [OF this] p show ?thesis by (auto simp: mm_def h_def)
qed

text \<open>An anonymous mapping without a hint is placed at the current mapping base, which moves up by
  the page-aligned size; the size is rounded up to the next multiple of 4096; every byte of the
  new range is mapped with the requested protection and reads as zero, and nothing outside the
  range changes.\<close>

theorem mmap_anonymous:
  assumes "mm_mmap_base mm \<noteq> 0" and "unat sz + 4095 < 2 ^ 64" and "os_mmap os (mm_mmap_base mm) (page_align sz) prot"
    and "mm_mmap os sz prot 0 mm h = (addr, mm', h')"
  shows "addr = mm_mmap_base mm \<and> mm_mmap_base mm' = addr + page_align sz \<and>
    4096 dvd unat (page_align sz) \<and> unat sz \<le> unat (page_align sz) \<and> unat (page_align sz) < unat sz + 4096 \<and>
    (\<forall>a. if in_range a addr (page_align sz) then h_prot h' a = Some prot \<and> h_byte h' a = 0
         else h_prot h' a = h_prot h a \<and> h_byte h' a = h_byte h a) \<and>
    (\<exists>r. mm_regions mm' = mm_regions mm @ [r] \<and> mr_addr r = addr \<and> mr_size r = page_align sz \<and> mr_perms r = prot)"
proof -
  have "addr = mm_mmap_base mm" "mm_mmap_base mm' = addr + page_align sz" "h' = host_map addr (page_align sz) prot h"
    "\<exists>r. mm_regions mm' = mm_regions mm @ [r] \<and> mr_addr r = addr \<and> mr_size r = page_align sz \<and> mr_perms r = prot"
    using assms(1,3,4) by (auto simp: mm_mmap_def find_free_region_def Let_def)
  moreover have "4096 dvd unat (page_align sz)" "unat sz \<le> unat (page_align sz)" "unat (page_align sz) < unat sz + 4096"
    unfolding unat_page_align [OF assms(2)] by simp linarith+
  ultimately show ?thesis by (auto simp: host_map_def)
qed

theorem mmap_anonymous_witness:
  "let os = \<lparr>os_mmap = (\<lambda>_ _ _. True), os_munmap = (\<lambda>_ _. 0), os_mprotect = (\<lambda>_ _ _. 0)\<rparr>;
       mm = MemoryManager_init\<lparr>mm_mmap_base := 0x70000000\<rparr>; h = \<lparr>h_byte = (\<lambda>_. 9), h_prot = (\<lambda>_. None)\<rparr>
   in case mm_mmap os 5000 3 0 mm h of (addr, mm', h') \<Rightarrow>
        addr = 0x70000000 \<and> mm_mmap_base mm' = 0x70000000 + page_align 5000 \<and> h_byte h' 0x80000000 = 9"
  using mmap_anonymous [of "MemoryManager_init\<lparr>mm_mmap_base := 0x70000000\<rparr>" 5000
     "\<lparr>os_mmap = (\<lambda>_ _ _. True), os_munmap = (\<lambda>_ _. 0), os_mprotect = (\<lambda>_ _ _. 0)\<rparr>" 3
     "\<lparr>h_byte = (\<lambda>_. 9), h_prot = (\<lambda>_. None)\<rparr>"]
  by (auto simp: Let_def in_range_def page_align_def PAGE_SIZE_def split: prod.split)

text \<open>C32: Bounds checking is sound for accesses that do not wrap around the end of the address
  space: what \<open>check_perms\<close> accepts lies inside one region that grants the access.\<close>

theorem check_perms_sound:
  assumes "check_perms mm addr len needed" and "unat addr + unat len < 2 ^ 64"
    and "\<forall>r\<in>set (mm_regions mm). region_end r < 2 ^ 64"
  shows "\<exists>r\<in>set (mm_regions mm). unat (mr_addr r) \<le> unat addr \<and> unat addr + unat len \<le> region_end r \<and>
    grants r needed"
proof -
  obtain r where r: "r \<in> set (mm_regions mm)" "mr_addr r \<le> addr" "addr + len \<le> mr_addr r + mr_size r" "grants r needed"
    using assms(1) check_perms_in_grants unfolding check_perms_def by blast
  have "unat (addr + len) = unat addr + unat len" using assms(2) by (simp add: unat_plus_if')
  moreover have "unat (mr_addr r + mr_size r) = region_end r"
    using assms(3) r(1) by (simp add: unat_plus_if' region_end_def)
  ultimately show ?thesis using r by (auto simp: word_le_nat_alt)
qed

theorem check_perms_sound_witness:
  "\<exists>r\<in>{\<lparr>mr_addr = 0x1000, mr_size = 0x1000, mr_perms = 1, mr_type = DATA, mr_is_translated = False\<rparr>}.
     unat (0x1ff8 :: u64) + 8 \<le> region_end r"
  using check_perms_sound [of "MemoryManager_init\<lparr>mm_regions := [\<lparr>mr_addr = 0x1000, mr_size = 0x1000, mr_perms = 1,
     mr_type = DATA, mr_is_translated = False\<rparr>]\<rparr>" "0x1ff8" 8 1]
  by (simp add: check_perms_def region_end_def)

text \<open>C33: The check does not hold for accesses that wrap around the end of the address space.  An access
  that starts above every region and ends, after the wrap, below every region touches no byte of any of
  them, but it passes the range test of each; the permissions of the first region in the list decide, and
  if they grant the access it is accepted.\<close>

theorem check_perms_wraps:
  assumes "mm_regions mm = r # rs" and "2 ^ 64 \<le> unat addr + unat len"
    and "\<forall>q\<in>set (mm_regions mm). region_end q < unat addr \<and> unat addr + unat len - 2 ^ 64 \<le> unat (mr_addr q)"
  shows "(check_perms mm addr len needed \<longleftrightarrow> grants r needed) \<and>
    (\<forall>q\<in>set (mm_regions mm). \<forall>k<unat len.
       \<not> (unat (mr_addr q) \<le> unat (addr + of_nat k) \<and> unat (addr + of_nat k) < region_end q))"
proof -
  have s: "unat (addr + len) = unat addr + unat len - 2 ^ 64"
    using assms(2) by (simp add: unat_plus_if')
  have "region_end r < unat addr" "unat addr + unat len - 2 ^ 64 \<le> unat (mr_addr r)" "unat addr < 2 ^ 64"
    using assms(1,3) unat_u64_less [of addr] by auto
  then have "addr + len \<le> mr_addr r + mr_size r" "mr_addr r \<le> addr"
    using s by (auto simp: word_le_nat_alt unat_plus_if' region_end_def)
  then have "check_perms mm addr len needed \<longleftrightarrow> grants r needed"
    using assms(1) by (auto simp: check_perms_def grants_def)
  moreover have "\<not> (unat (mr_addr q) \<le> unat (addr + of_nat k) \<and> unat (addr + of_nat k) < region_end q)"
    if "q \<in> set (mm_regions mm)" "k < unat len" for q k
  proof -
    have "unat (of_nat k :: u64) = k"
      using that(2) unat_u64_less [of len] by (simp add: unsigned_of_nat take_bit_nat_eq_self)
    then show ?thesis using that assms(2,3) by (auto simp: unat_plus_if')
  qed
  ultimately show ?thesis by blast
qed

text \<open>The witness: two regions, the readable one first; reading across the end is accepted.  In the other
  order it is refused.\<close>

theorem check_perms_wraps_witness:
  "let q = \<lparr>mr_addr = 0x1000, mr_size = 0x1000, mr_perms = 1, mr_type = DATA, mr_is_translated = False\<rparr>;
       r = \<lparr>mr_addr = 0x8000, mr_size = 0x1000, mr_perms = 0, mr_type = GUARD, mr_is_translated = False\<rparr>
   in check_perms (MemoryManager_init\<lparr>mm_regions := [q, r]\<rparr>) 0xFFFFFFFFFFFFFFFC 8 PROT_READ \<and>
      \<not> check_perms (MemoryManager_init\<lparr>mm_regions := [r, q]\<rparr>) 0xFFFFFFFFFFFFFFFC 8 PROT_READ"
proof -
  let ?q = "\<lparr>mr_addr = 0x1000, mr_size = 0x1000, mr_perms = 1, mr_type = DATA, mr_is_translated = False\<rparr>"
  let ?r = "\<lparr>mr_addr = 0x8000, mr_size = 0x1000, mr_perms = 0, mr_type = GUARD, mr_is_translated = False\<rparr>"
  have "grants ?q PROT_READ" "\<not> grants ?r PROT_READ" by (simp_all add: grants_def prot_defs)
  with check_perms_wraps [of "MemoryManager_init\<lparr>mm_regions := [?q, ?r]\<rparr>" ?q "[?r]" "0xFFFFFFFFFFFFFFFC" 8 PROT_READ]
    check_perms_wraps [of "MemoryManager_init\<lparr>mm_regions := [?r, ?q]\<rparr>" ?r "[?q]" "0xFFFFFFFFFFFFFFFC" 8 PROT_READ]
  show ?thesis by (simp add: Let_def region_end_def)
qed

end
