(* ===== verification/Cpu_Context.thy ===== *)
theory Cpu_Context
  imports Prelude
begin

text \<open>
  The guest CPU state (\<^verbatim>\<open>src/src/core/cpu_context.hpp\<close>, \<^verbatim>\<open>cpu_context.cpp\<close>): the structure
  \<open>CPUContext\<close>, its constructor, the NZCV accessors and the four utility functions.  The
  arrays \<open>x\<close> and \<open>v\<close> are lists whose lengths are the invariant \<open>ctx_wf\<close>; an access to
  \<open>x\<close> with an index that is not below 31 is undefined behaviour of the C++ program and is
  \<^const>\<open>None\<close> here (\<open>get_x\<close>, \<open>set_x\<close>).
\<close>

section \<open>The CPU context\<close>

record CPUContext =
  ctx_x :: "u64 list"
  ctx_sp :: u64
  ctx_pc :: u64
  ctx_lr :: u64
  ctx_nzcv :: u64
  ctx_v :: "u8 list list"
  ctx_fpcr :: u32
  ctx_fpsr :: u32
  ctx_tpidr_el0 :: u64
  ctx_tid :: u64
  ctx_state_flags :: u32
  ctx_exit_status :: i32

definition STATE_SINGLE_STEP :: u32 where "STATE_SINGLE_STEP = push_bit 0 1"
definition STATE_IN_SYSCALL :: u32 where "STATE_IN_SYSCALL = push_bit 1 1"
definition STATE_CRASHED :: u32 where "STATE_CRASHED = push_bit 2 1"
definition STATE_EXITED :: u32 where "STATE_EXITED = push_bit 3 1"

lemmas state_defs = STATE_SINGLE_STEP_def STATE_IN_SYSCALL_def STATE_CRASHED_def STATE_EXITED_def

definition CPUContext_init :: CPUContext where
  "CPUContext_init =
     \<lparr>ctx_x = replicate 31 0, ctx_sp = 0, ctx_pc = 0, ctx_lr = 0, ctx_nzcv = 0,
      ctx_v = replicate 32 (replicate 16 0), ctx_fpcr = 0, ctx_fpsr = 0,
      ctx_tpidr_el0 = 0, ctx_tid = 0, ctx_state_flags = 0, ctx_exit_status = 0\<rparr>"

definition ctx_wf :: "CPUContext \<Rightarrow> bool" where
  "ctx_wf c \<longleftrightarrow> length (ctx_x c) = 31 \<and> length (ctx_v c) = 32 \<and> (\<forall>r\<in>set (ctx_v c). length r = 16)"

subsection \<open>NZCV accessors\<close>

definition flag_n :: "CPUContext \<Rightarrow> bool" where
  "flag_n c \<longleftrightarrow> drop_bit 31 (ctx_nzcv c) AND 1 \<noteq> 0"
definition flag_z :: "CPUContext \<Rightarrow> bool" where
  "flag_z c \<longleftrightarrow> drop_bit 30 (ctx_nzcv c) AND 1 \<noteq> 0"
definition flag_c :: "CPUContext \<Rightarrow> bool" where
  "flag_c c \<longleftrightarrow> drop_bit 29 (ctx_nzcv c) AND 1 \<noteq> 0"
definition flag_v :: "CPUContext \<Rightarrow> bool" where
  "flag_v c \<longleftrightarrow> drop_bit 28 (ctx_nzcv c) AND 1 \<noteq> 0"

definition set_n :: "bool \<Rightarrow> CPUContext \<Rightarrow> CPUContext" where
  "set_n b c = c\<lparr>ctx_nzcv := (ctx_nzcv c AND NOT (push_bit 31 1)) OR push_bit 31 (of_bool b)\<rparr>"
definition set_z :: "bool \<Rightarrow> CPUContext \<Rightarrow> CPUContext" where
  "set_z b c = c\<lparr>ctx_nzcv := (ctx_nzcv c AND NOT (push_bit 30 1)) OR push_bit 30 (of_bool b)\<rparr>"
definition set_c :: "bool \<Rightarrow> CPUContext \<Rightarrow> CPUContext" where
  "set_c b c = c\<lparr>ctx_nzcv := (ctx_nzcv c AND NOT (push_bit 29 1)) OR push_bit 29 (of_bool b)\<rparr>"
definition set_v :: "bool \<Rightarrow> CPUContext \<Rightarrow> CPUContext" where
  "set_v b c = c\<lparr>ctx_nzcv := (ctx_nzcv c AND NOT (push_bit 28 1)) OR push_bit 28 (of_bool b)\<rparr>"

definition set_nzcv :: "bool \<Rightarrow> bool \<Rightarrow> bool \<Rightarrow> bool \<Rightarrow> CPUContext \<Rightarrow> CPUContext" where
  "set_nzcv n z cf vf c = c\<lparr>ctx_nzcv :=
     push_bit 31 (of_bool n) OR push_bit 30 (of_bool z) OR
     push_bit 29 (of_bool cf) OR push_bit 28 (of_bool vf)\<rparr>"

lemmas flag_defs = flag_n_def flag_z_def flag_c_def flag_v_def
lemmas set_flag_defs = set_n_def set_z_def set_c_def set_v_def set_nzcv_def

lemma and_one_ne_zero [simp]: "(drop_bit k w AND 1 \<noteq> 0) = bit w k" for w :: "'a::len word"
  by (simp add: and_one_eq bit_iff_odd_drop_bit odd_iff_mod_2_eq_one)

lemma and_one_eq_zero [simp]: "(drop_bit k w AND 1 = 0) = (\<not> bit w k)" for w :: "'a::len word"
  by (simp add: and_one_eq bit_iff_odd_drop_bit even_iff_mod_2_eq_zero)

lemma flags_set_nzcv [simp]:
  "flag_n (set_nzcv n z cf vf c) = n" "flag_z (set_nzcv n z cf vf c) = z"
  "flag_c (set_nzcv n z cf vf c) = cf" "flag_v (set_nzcv n z cf vf c) = vf"
  by (simp_all add: flag_defs set_nzcv_def bit_simps)

subsection \<open>Register access\<close>

definition get_x :: "CPUContext \<Rightarrow> u8 \<Rightarrow> u64 option" where
  "get_x c r = (if unat r < 31 then Some (ctx_x c ! unat r) else None)"

definition set_x :: "CPUContext \<Rightarrow> u8 \<Rightarrow> u64 \<Rightarrow> CPUContext option" where
  "set_x c r val = (if unat r < 31 then Some (c\<lparr>ctx_x := (ctx_x c)[unat r := val]\<rparr>) else None)"

definition cpu_context_reset :: "CPUContext \<Rightarrow> CPUContext" where
  "cpu_context_reset c = CPUContext_init"

fun set_regs_loop :: "nat \<Rightarrow> u64 list \<Rightarrow> nat \<Rightarrow> CPUContext \<Rightarrow> CPUContext option" where
  "set_regs_loop 0 regs i c = Some c"
| "set_regs_loop (Suc n) regs i c =
     (if i < 31
      then if i < length regs
           then set_regs_loop n regs (Suc i) (c\<lparr>ctx_x := (ctx_x c)[i := regs ! i]\<rparr>)
           else None
      else Some c)"

definition cpu_context_set_regs :: "CPUContext \<Rightarrow> u64 list \<Rightarrow> int \<Rightarrow> CPUContext option" where
  "cpu_context_set_regs c regs count = set_regs_loop (nat count) regs 0 c"

definition cpu_context_get_reg :: "CPUContext \<Rightarrow> int \<Rightarrow> u64" where
  "cpu_context_get_reg c reg =
     (if 0 \<le> reg \<and> reg < 31 then ctx_x c ! nat reg else if reg = 31 then ctx_sp c else 0)"

definition cpu_context_set_reg :: "CPUContext \<Rightarrow> int \<Rightarrow> u64 \<Rightarrow> CPUContext" where
  "cpu_context_set_reg c reg value =
     (if 0 \<le> reg \<and> reg < 31 then c\<lparr>ctx_x := (ctx_x c)[nat reg := value]\<rparr>
      else if reg = 31 then c\<lparr>ctx_sp := value\<rparr> else c)"

subsection \<open>The register-file interface\<close>

text \<open>
  What a client of the register file relies on: a write is seen by a read of the same valid
  register, by no read of another one, and keeps the invariant.
\<close>

locale reg_file =
  fixes getr :: "'s \<Rightarrow> 'r \<Rightarrow> 'w"
    and setr :: "'s \<Rightarrow> 'r \<Rightarrow> 'w \<Rightarrow> 's"
    and valid :: "'r \<Rightarrow> bool"
    and invar :: "'s \<Rightarrow> bool"
  assumes get_set_same: "invar s \<Longrightarrow> valid r \<Longrightarrow> getr (setr s r w) r = w"
    and get_set_other: "invar s \<Longrightarrow> r \<noteq> r' \<Longrightarrow> getr (setr s r w) r' = getr s r'"
    and invar_set: "invar s \<Longrightarrow> invar (setr s r w)"
begin

lemma invar_writes: "invar s \<Longrightarrow> invar (fold (\<lambda>(r, w) s. setr s r w) ws s)"
  by (induction ws arbitrary: s) (auto intro: invar_set)

text \<open>After a sequence of writes a register holds the last value written to it.\<close>

lemma get_writes:
  assumes "invar s" and "\<forall>(r, w)\<in>set ws. valid r"
  shows "getr (fold (\<lambda>(r, w) s. setr s r w) ws s) r =
           (case map_of (rev ws) r of None \<Rightarrow> getr s r | Some w \<Rightarrow> w)"
  using assms
proof (induction ws arbitrary: s)
  case Nil
  then show ?case by simp
next
  case (Cons rw ws)
  obtain r' w' where rw: "rw = (r', w')" by (cases rw)
  have inv: "invar (setr s r' w')" using Cons.prems(1) by (rule invar_set)
  have IH: "getr (fold (\<lambda>(r, w) s. setr s r w) ws (setr s r' w')) r =
      (case map_of (rev ws) r of None \<Rightarrow> getr (setr s r' w') r | Some w \<Rightarrow> w)"
    using Cons.prems(2) by (intro Cons.IH [OF inv]) auto
  from Cons.prems rw have "getr (setr s r' w') r = (if r = r' then w' else getr s r)"
    by (auto simp: get_set_same get_set_other)
  with IH rw show ?case by (auto simp: map_add_def split: option.splits)
qed

end

interpretation ctx_regs: reg_file cpu_context_get_reg cpu_context_set_reg
  "\<lambda>r. 0 \<le> r \<and> r \<le> 31" ctx_wf
  by unfold_locales
     (auto simp: cpu_context_get_reg_def cpu_context_set_reg_def ctx_wf_def nth_list_update)

lemma ctx_wf_init [simp]: "ctx_wf CPUContext_init"
  by (simp add: ctx_wf_def CPUContext_init_def)

lemma get_x_set_x:
  "ctx_wf c \<Longrightarrow> set_x c r val = Some c' \<Longrightarrow> get_x c' q = (if q = r then Some val else get_x c q)"
  by (auto simp: get_x_def set_x_def ctx_wf_def nth_list_update unsigned_word_eqI split: if_splits)

lemma set_x_wf: "ctx_wf c \<Longrightarrow> set_x c r val = Some c' \<Longrightarrow> ctx_wf c'"
  by (auto simp: set_x_def ctx_wf_def split: if_splits)

lemma get_x_ctx_regs: "unat r < 31 \<Longrightarrow> get_x c r = Some (cpu_context_get_reg c (uint r))"
  by (simp add: get_x_def cpu_context_get_reg_def uint_less_numeral_iff flip: unat_eq_nat_uint)

lemma set_x_ctx_regs:
  "unat r < 31 \<Longrightarrow> set_x c r val = Some (cpu_context_set_reg c (uint r) val)"
  by (simp add: set_x_def cpu_context_set_reg_def uint_less_numeral_iff flip: unat_eq_nat_uint)

text \<open>The copy loop writes the registers \<open>i, i + 1, \<dots>\<close> in order.\<close>

lemma set_regs_loop_writes:
  assumes "min (i + n) 31 \<le> length regs" and "i \<le> 31"
  shows "set_regs_loop n regs i c =
    Some (fold (\<lambda>(r, w) c. cpu_context_set_reg c r w)
      (map (\<lambda>k. (int k, regs ! k)) [i..<min (i + n) 31]) c)"
  using assms
proof (induction n arbitrary: i c)
  case 0
  then show ?case by simp
next
  case (Suc n)
  show ?case
  proof (cases "i < 31")
    case True
    with Suc.prems have "i < length regs" by simp
    moreover have "[i..<min (i + Suc n) 31] = i # [Suc i..<min (Suc i + n) 31]"
      using True by (simp add: upt_rec)
    ultimately show ?thesis using True Suc.prems
      by (simp add: Suc.IH cpu_context_set_reg_def)
  next
    case False
    with Suc.prems show ?thesis by simp
  qed
qed

lemma map_of_rev_upt:
  "map_of (rev (map (\<lambda>k. (int k, f k)) [0..<m])) r = (if 0 \<le> r \<and> r < int m then Some (f (nat r)) else None)"
  by (induction m) (auto simp: nat_eq_iff2)

text \<open>Loading a register array into the context is defined whenever the array has the
  announced number of elements; afterwards every register below that count, and below 31,
  reads as its array element, every other register, the stack pointer included, as before, and
  the context is well-formed.\<close>

theorem set_regs_reads_back:
  assumes "ctx_wf c" and "nat count \<le> length regs"
  shows "\<exists>c'. cpu_context_set_regs c regs count = Some c' \<and> ctx_wf c' \<and>
    (\<forall>r. cpu_context_get_reg c' r =
       (if 0 \<le> r \<and> r < count \<and> r < 31 then regs ! nat r else cpu_context_get_reg c r))"
proof -
  let ?ws = "map (\<lambda>k. (int k, regs ! k)) [0..<min (nat count) 31]"
  let ?c = "fold (\<lambda>(r, w) c. cpu_context_set_reg c r w) ?ws c"
  have "cpu_context_set_regs c regs count = Some ?c"
    using assms(2) set_regs_loop_writes [of 0 "nat count" regs c]
    by (simp add: cpu_context_set_regs_def)
  moreover have "ctx_wf ?c" using assms(1) by (rule ctx_regs.invar_writes)
  moreover have "cpu_context_get_reg ?c r =
      (if 0 \<le> r \<and> r < count \<and> r < 31 then regs ! nat r else cpu_context_get_reg c r)" for r
    using assms(1) by (subst ctx_regs.get_writes) (auto simp: map_of_rev_upt)
  ultimately show ?thesis by blast
qed

theorem set_regs_reads_back_witness:
  "\<exists>c'. cpu_context_set_regs CPUContext_init [7, 8, 9] 3 = Some c' \<and> cpu_context_get_reg c' 2 = 9 \<and>
     cpu_context_get_reg c' 31 = 0"
proof -
  obtain c' where "cpu_context_set_regs CPUContext_init [7, 8, 9] 3 = Some c'"
      "\<forall>r. cpu_context_get_reg c' r =
         (if 0 \<le> r \<and> r < 3 \<and> r < 31 then [7, 8, 9] ! nat r else cpu_context_get_reg CPUContext_init r)"
    using set_regs_reads_back [of CPUContext_init 3 "[7, 8, 9]"] by auto
  moreover have "cpu_context_get_reg CPUContext_init 31 = 0"
    by (simp add: cpu_context_get_reg_def CPUContext_init_def)
  ultimately show ?thesis by auto
qed

end
