(* ===== verification/X86_Exec.thy ===== *)
theory X86_Exec
  imports Lower Memory_Manager Cpu_Context
begin

text \<open>
  A reference machine for the instructions of \<open>X86_Spec\<close> and the meaning of the code that the
  lowering writes.  The machine has the sixteen registers, the flags register and the address
  space of the process; an access the host refuses, a trap and an instruction outside the subset
  are \<^const>\<open>None\<close>.  Which value the flags register has after an arithmetic instruction is a
  parameter \<open>fl\<close>: the results below hold for every behaviour of the flags.  Like \<open>X86_Spec\<close>,
  the machine models no code of the repository; it is what the generated code is run on.
\<close>

section \<open>The machine\<close>

record x86_state =
  xs_reg :: "u8 \<Rightarrow> u64"
  xs_flags :: u64
  xs_host :: host

type_synonym flag_sem = "x86 \<Rightarrow> x86_state \<Rightarrow> u64"

definition x86_alu :: "alu \<Rightarrow> u64 \<Rightarrow> u64 \<Rightarrow> u64" where
  "x86_alu op a b = (case op of X_ADD \<Rightarrow> a + b | X_SUB \<Rightarrow> a - b | X_AND \<Rightarrow> a AND b
     | X_OR \<Rightarrow> a OR b | X_XOR \<Rightarrow> a XOR b | X_CMP \<Rightarrow> a)"

text \<open>A 64-bit shift uses the low six bits of its count.\<close>

definition x86_shift :: "shift \<Rightarrow> u64 \<Rightarrow> u8 \<Rightarrow> u64" where
  "x86_shift op a k = (let n = unat (k AND 63) in case op of X_SHL \<Rightarrow> push_bit n a
     | X_SHR \<Rightarrow> drop_bit n a | X_SAR \<Rightarrow> signed_drop_bit n a | X_ROR \<Rightarrow> word_rotr n a)"

definition x86_load :: "host \<Rightarrow> u64 \<Rightarrow> u64 option" where
  "x86_load h a = map_option le_word (host_read h a 8)"

definition x86_store :: "host \<Rightarrow> u64 \<Rightarrow> u64 \<Rightarrow> host option" where
  "x86_store h a v = host_write h a (le_bytes 8 v)"

definition set_reg :: "u8 \<Rightarrow> u64 \<Rightarrow> x86_state \<Rightarrow> x86_state" where
  "set_reg r v st = st\<lparr>xs_reg := (xs_reg st)(r := v)\<rparr>"

definition x86_step :: "flag_sem \<Rightarrow> x86 \<Rightarrow> x86_state \<Rightarrow> x86_state option" where
  "x86_step fl i st =
    (let reg = xs_reg st; fs = st\<lparr>xs_flags := fl i st\<rparr>
     in case i of
       MovImm r v \<Rightarrow> Some (set_reg r v st)
     | MovRR d s \<Rightarrow> Some (set_reg d (reg s) st)
     | AluRR op d s \<Rightarrow> Some (set_reg d (x86_alu op (reg d) (reg s)) fs)
     | AluImm op d v \<Rightarrow> Some (set_reg d (x86_alu op (reg d) (scast v)) fs)
     | TestRR d s \<Rightarrow> Some fs
     | ImulRR d s \<Rightarrow> Some (set_reg d (reg d * reg s) fs)
     | ShiftImm op d k \<Rightarrow> Some (set_reg d (x86_shift op (reg d) k) fs)
     | ShiftCl op d \<Rightarrow> Some (set_reg d (x86_shift op (reg d) (ucast (reg RCX))) fs)
     | Load r b d \<Rightarrow> map_option (\<lambda>v. set_reg r v st) (x86_load (xs_host st) (reg b + scast d))
     | Store b d r \<Rightarrow> map_option (\<lambda>h. st\<lparr>xs_host := h\<rparr>) (x86_store (xs_host st) (reg b + scast d) (reg r))
     | Pushfq \<Rightarrow> map_option (\<lambda>h. (set_reg RSP (reg RSP - 8) st)\<lparr>xs_host := h\<rparr>)
         (x86_store (xs_host st) (reg RSP - 8) (xs_flags st))
     | Pop r \<Rightarrow> map_option (\<lambda>v. set_reg r v (set_reg RSP (reg RSP + 8) st)) (x86_load (xs_host st) (reg RSP))
     | Nop \<Rightarrow> Some st
     | Int3 \<Rightarrow> None | Ret \<Rightarrow> None | Jcc cc d \<Rightarrow> None)"

text \<open>Condition codes over the bits CF (0), PF (2), ZF (6), SF (7) and OF (11).\<close>

definition cc_holds :: "u8 \<Rightarrow> u64 \<Rightarrow> bool" where
  "cc_holds cc f =
    (let c = bit f 0; p = bit f 2; z = bit f 6; s = bit f 7; v = bit f 11; k = drop_bit 1 cc;
         base = (if k = 0 then v else if k = 1 then c else if k = 2 then z else if k = 3 then c \<or> z
                 else if k = 4 then s else if k = 5 then p else if k = 6 then s \<noteq> v else z \<or> s \<noteq> v)
     in if bit cc 0 then \<not> base else base)"

text \<open>A run from the first byte of the code up to its return; the subset jumps forward only.\<close>

fun x86_run :: "flag_sem \<Rightarrow> nat \<Rightarrow> u8 list \<Rightarrow> x86_state \<Rightarrow> x86_state option" where
  "x86_run fl 0 bs st = None"
| "x86_run fl (Suc n) bs st = (case x86_decode bs of None \<Rightarrow> None | Some (i, bs') \<Rightarrow>
     (case i of
        Ret \<Rightarrow> Some st
      | Jcc cc d \<Rightarrow>
          if cc_holds cc (xs_flags st)
          then if sint d \<ge> 0 then x86_run fl n (drop (unat d) bs') st else None
          else x86_run fl n bs' st
      | _ \<Rightarrow> (case x86_step fl i st of None \<Rightarrow> None | Some st' \<Rightarrow> x86_run fl n bs' st')))"

text \<open>The same on instructions without jumps; the Boolean says whether a return was met.\<close>

fun x86_exec :: "flag_sem \<Rightarrow> x86 list \<Rightarrow> x86_state \<Rightarrow> (bool \<times> x86_state) option" where
  "x86_exec fl [] st = Some (False, st)"
| "x86_exec fl (i # is) st =
     (if i = Ret then Some (True, st)
      else case x86_step fl i st of None \<Rightarrow> None | Some st' \<Rightarrow> x86_exec fl is st')"

lemma x86_exec_append:
  "x86_exec fl (is @ js) st = (case x86_exec fl is st of None \<Rightarrow> None
     | Some (ended, st') \<Rightarrow> if ended then Some (True, st') else x86_exec fl js st')"
  by (induction "is" arbitrary: st) (auto split: option.splits)

lemma x86_step_jcc [simp]: "x86_step fl (Jcc cc d) st = None"
  by (simp add: x86_step_def)

lemma x86_run_exec:
  "decodes_to bs is \<Longrightarrow> x86_exec fl is st = Some (True, st') \<Longrightarrow> length bs \<le> n \<Longrightarrow>
   x86_run fl n (bs @ rest) st = Some st'"
proof (induction "is" arbitrary: bs n st)
  case (Cons i "is")
  then obtain bs' where bs': "length bs' < length bs" "x86_decode (bs @ rest) = Some (i, bs' @ rest)" "decodes_to bs' is"
    by auto
  with Cons.prems obtain m where m: "n = Suc m" "length bs' \<le> m" by (cases n) auto
  show ?case
  proof (cases "i = Ret")
    case False
    then obtain st1 where st1: "x86_step fl i st = Some st1" "x86_exec fl is st1 = Some (True, st')"
      using Cons.prems(2) by (auto split: option.splits)
    then show ?thesis using Cons.IH [OF bs'(3) st1(2) m(2)] m(1) bs'(2) False
      by (cases i) simp_all
  qed (use Cons.prems m bs' in simp)
qed simp

section \<open>The context in memory\<close>

text \<open>The first 34 words of a \<open>CPUContext\<close> are \<open>x\<close>, \<open>sp\<close>, \<open>pc\<close> and \<open>lr\<close>; word 34 is
  \<open>nzcv\<close>.  \<open>save_nzcv\<close> keeps three registers in the words 64 to 66.\<close>

definition slot :: "u64 \<Rightarrow> nat \<Rightarrow> u64" where
  "slot p i = p + of_nat (8 * i)"

definition get_slot :: "u64 \<Rightarrow> nat \<Rightarrow> host \<Rightarrow> u64" where
  "get_slot p i h = le_word (map (h_byte h) (addrs (slot p i) 8))"

definition put_slot :: "u64 \<Rightarrow> nat \<Rightarrow> u64 \<Rightarrow> host \<Rightarrow> host" where
  "put_slot p i v h = h\<lparr>h_byte := upd_all (addrs (slot p i) 8) (le_bytes 8 v) (h_byte h)\<rparr>"

definition ctx_bytes :: nat where "ctx_bytes = 544"

definition writable :: "u64 \<Rightarrow> nat \<Rightarrow> host \<Rightarrow> bool" where
  "writable p n h \<longleftrightarrow> list_all (can_write h) (addrs p n)"

lemma h_prot_put_slot [simp]: "h_prot (put_slot p i v h) = h_prot h"
  by (simp add: put_slot_def)

lemma writable_put_slot [simp]: "writable p n (put_slot q i v h) = writable p n h"
  by (simp add: writable_def put_slot_def)

lemma get_put_slot_same [simp]: "get_slot p i (put_slot p i v h) = v"
proof -
  have "distinct (addrs (slot p i) 8)" by (rule distinct_addrs) simp
  then show ?thesis by (simp add: get_slot_def put_slot_def upd_all_same le_word_le_bytes)
qed

lemma get_put_slot_disjoint:
  "disjoint_ranges (slot q j) 8 (slot p i) 8 \<Longrightarrow> get_slot p i (put_slot q j v h) = get_slot p i h"
  unfolding get_slot_def put_slot_def disjoint_ranges_def
  by (auto intro!: arg_cong [of _ _ le_word] upd_all_other)

lemma mem_addrs: "a \<in> set (addrs p n) \<longleftrightarrow> (\<exists>k<n. a = p + of_nat k)"
  by (auto simp: addrs_def)

lemma of_nat_u64_eq: "m < 2 ^ 64 \<Longrightarrow> n < 2 ^ 64 \<Longrightarrow> (of_nat m :: u64) = of_nat n \<longleftrightarrow> m = n"
  by (simp add: word_of_nat_eq_iff take_bit_nat_eq_self)

lemma slots_disjoint:
  assumes "i \<noteq> j" "i < 68" "j < 68"
  shows "disjoint_ranges (slot p i) 8 (slot p j) 8"
proof -
  have False if "k < 8" "l < 8" "slot p i + of_nat k = slot p j + of_nat l" for k l
  proof -
    from that(3) have "(of_nat (8 * i + k) :: u64) = of_nat (8 * j + l)" by (simp add: slot_def add.assoc)
    then have "8 * i + k = 8 * j + l" using assms that(1,2) by (subst (asm) of_nat_u64_eq) simp_all
    with that assms show False by presburger
  qed
  then show ?thesis by (auto simp: disjoint_ranges_def mem_addrs)
qed

lemma get_put_slot_other [simp]:
  "i \<noteq> j \<Longrightarrow> i < 68 \<Longrightarrow> j < 68 \<Longrightarrow> get_slot p i (put_slot p j v h) = get_slot p i h"
  by (intro get_put_slot_disjoint slots_disjoint) auto

lemma writable_slot:
  assumes "writable p ctx_bytes h" "i < 68"
  shows "writable (slot p i) 8 h"
proof -
  have "slot p i + of_nat k \<in> set (addrs p ctx_bytes)" if "k < 8" for k
    unfolding mem_addrs slot_def ctx_bytes_def using that assms(2)
    by (intro exI [of _ "8 * i + k"]) simp
  then show ?thesis using assms(1) by (auto simp: writable_def list_all_iff mem_addrs)
qed

lemma x86_load_slot: "writable (slot p i) 8 h \<Longrightarrow> x86_load h (slot p i) = Some (get_slot p i h)"
  by (auto simp: x86_load_def host_read_def get_slot_def writable_def list_all_iff can_write_read)

lemma x86_store_slot: "writable (slot p i) 8 h \<Longrightarrow> x86_store h (slot p i) v = Some (put_slot p i v h)"
  by (simp add: x86_store_def host_write_def put_slot_def writable_def)

text \<open>Displacements that name a word of the context.\<close>

definition ctx_disp :: "i32 \<Rightarrow> bool" where
  "ctx_disp d \<longleftrightarrow> unat d mod 8 = 0 \<and> unat d < 544"

lemma sint_small: "sint w = int (unat w)" if "unat w < 2 ^ 31" for w :: i32
proof -
  have "int (unat w) < int (2 ^ 31)" using that by (simp only: of_nat_less_iff)
  then have "uint w < 2 ^ 31" by simp
  then have "signed_take_bit 31 (uint w) = uint w"
    by (intro signed_take_bit_int_eq_self) (auto intro: order_trans [of _ 0])
  then show ?thesis by (simp add: sint_uint)
qed

lemma scast_small: "(scast w :: u64) = of_nat (unat w)" if "unat w < 2 ^ 31" for w :: i32
  by (simp only: scast_eq sint_small [OF that] of_int_of_nat_eq)

lemma ctx_disp_slot:
  assumes "ctx_disp d"
  shows "p + scast d = slot p (unat d div 8)" "unat d div 8 < 68"
proof -
  have "unat d < 2 ^ 31" and d: "8 * (unat d div 8) = unat d" using assms by (auto simp: ctx_disp_def)
  then show "p + scast d = slot p (unat d div 8)" by (simp only: scast_small slot_def d)
  show "unat d div 8 < 68" using assms by (auto simp: ctx_disp_def)
qed

lemma step_load_ctx:
  assumes "writable (xs_reg st R12) ctx_bytes (xs_host st)" "ctx_disp d"
  shows "x86_step fl (Load r R12 d) st =
    Some (set_reg r (get_slot (xs_reg st R12) (unat d div 8) (xs_host st)) st)"
  using assms ctx_disp_slot(1) [OF assms(2), of "xs_reg st R12"] ctx_disp_slot(2) [OF assms(2)]
  by (simp add: x86_step_def Let_def x86_load_slot writable_slot)

lemma step_store_ctx:
  assumes "writable (xs_reg st R12) ctx_bytes (xs_host st)" "ctx_disp d"
  shows "x86_step fl (Store R12 d r) st =
    Some (st\<lparr>xs_host := put_slot (xs_reg st R12) (unat d div 8) (xs_reg st r) (xs_host st)\<rparr>)"
  using assms ctx_disp_slot(1) [OF assms(2), of "xs_reg st R12"] ctx_disp_slot(2) [OF assms(2)]
  by (simp add: x86_step_def Let_def x86_store_slot writable_slot)

lemma step_pushfq:
  assumes "writable (xs_reg st RSP - 8) 8 (xs_host st)"
  shows "x86_step fl Pushfq st = Some ((set_reg RSP (xs_reg st RSP - 8) st)
    \<lparr>xs_host := put_slot (xs_reg st RSP - 8) 0 (xs_flags st) (xs_host st)\<rparr>)"
  using assms x86_store_slot [of "xs_reg st RSP - 8" 0] by (simp add: x86_step_def Let_def slot_def)

lemma step_pop:
  assumes "writable (xs_reg st RSP) 8 (xs_host st)"
  shows "x86_step fl (Pop r) st =
    Some (set_reg r (get_slot (xs_reg st RSP) 0 (xs_host st)) (set_reg RSP (xs_reg st RSP + 8) st))"
  using assms x86_load_slot [of "xs_reg st RSP" 0] by (simp add: x86_step_def Let_def slot_def)

lemma step_data [simp]:
  "x86_step fl (MovImm r v) st = Some (set_reg r v st)"
  "x86_step fl (MovRR d s) st = Some (set_reg d (xs_reg st s) st)"
  "x86_step fl (AluRR op d s) st =
     Some (set_reg d (x86_alu op (xs_reg st d) (xs_reg st s)) (st\<lparr>xs_flags := fl (AluRR op d s) st\<rparr>))"
  "x86_step fl (AluImm op d k32) st =
     Some (set_reg d (x86_alu op (xs_reg st d) (scast k32)) (st\<lparr>xs_flags := fl (AluImm op d k32) st\<rparr>))"
  "x86_step fl (TestRR d s) st = Some (st\<lparr>xs_flags := fl (TestRR d s) st\<rparr>)"
  "x86_step fl (ShiftImm sh d k) st =
     Some (set_reg d (x86_shift sh (xs_reg st d) k) (st\<lparr>xs_flags := fl (ShiftImm sh d k) st\<rparr>))"
  "x86_step fl (ShiftCl sh d) st =
     Some (set_reg d (x86_shift sh (xs_reg st d) (ucast (xs_reg st RCX))) (st\<lparr>xs_flags := fl (ShiftCl sh d) st\<rparr>))"
  "x86_step fl Nop st = Some st"
  by (simp_all add: x86_step_def Let_def)

lemma set_reg_simps [simp]:
  "xs_reg (set_reg r v st) = (xs_reg st)(r := v)"
  "xs_host (set_reg r v st) = xs_host st" "xs_flags (set_reg r v st) = xs_flags st"
  by (simp_all add: set_reg_def)

lemma reg_neq [simp]:
  "R12 \<noteq> RAX" "R12 \<noteq> RCX" "R12 \<noteq> RDX" "R12 \<noteq> R9" "R12 \<noteq> RSP" "R12 \<noteq> RDI"
  "RAX \<noteq> R12" "RCX \<noteq> R12" "RDX \<noteq> R12" "R9 \<noteq> R12" "RSP \<noteq> R12" "RDI \<noteq> R12"
  "RSP \<noteq> RAX" "RSP \<noteq> RCX" "RSP \<noteq> RDX" "RSP \<noteq> R9"
  "RAX \<noteq> RSP" "RCX \<noteq> RSP" "RDX \<noteq> RSP" "R9 \<noteq> RSP"
  "RAX \<noteq> RCX" "RCX \<noteq> RAX" "RAX \<noteq> RDX" "RDX \<noteq> RAX" "RCX \<noteq> RDX" "RDX \<noteq> RCX"
  "RAX \<noteq> R9" "R9 \<noteq> RAX" "RCX \<noteq> R9" "R9 \<noteq> RCX" "RDX \<noteq> R9" "R9 \<noteq> RDX"
  by (simp_all add: reg_defs)

section \<open>Executing the reference assembly\<close>

text \<open>
  The state in which an instruction of a block is executed: \<open>R12\<close> holds the address of a
  writable context and one word can be pushed without touching it.  \<open>jit_runs fl is ended f\<close>: the
  instructions \<open>is\<close> run from every such state, end in one, return iff \<open>ended\<close>, transform
  the accumulator \<open>RAX\<close> and the words \<open>x\<close>, \<open>sp\<close>, \<open>pc\<close>, \<open>lr\<close> by \<open>f\<close>, and write no byte outside the first 35
  words of the context, its scratch words and the pushed word.
\<close>

definition jit_ready :: "u64 \<Rightarrow> x86_state \<Rightarrow> bool" where
  "jit_ready p st \<longleftrightarrow> xs_reg st R12 = p \<and> writable p ctx_bytes (xs_host st) \<and>
     writable (xs_reg st RSP - 8) 8 (xs_host st) \<and> disjoint_ranges (xs_reg st RSP - 8) 8 p ctx_bytes"

definition int_slots :: "u64 \<Rightarrow> host \<Rightarrow> u64 list" where
  "int_slots p h = map (\<lambda>i. get_slot p i h) [0..<34]"

definition jit_frame :: "u64 \<Rightarrow> u64 \<Rightarrow> host \<Rightarrow> host \<Rightarrow> bool" where
  "jit_frame p rsp h h' \<longleftrightarrow> h_prot h' = h_prot h \<and>
     (\<forall>a. a \<notin> set (addrs p 280) \<union> set (addrs (p + 512) 24) \<union> set (addrs (rsp - 8) 8) \<longrightarrow>
        h_byte h' a = h_byte h a)"

definition acc_slots :: "u64 \<Rightarrow> x86_state \<Rightarrow> u64 \<times> u64 list" where
  "acc_slots p st = (xs_reg st RAX, int_slots p (xs_host st))"

definition jit_runs :: "flag_sem \<Rightarrow> x86 list \<Rightarrow> bool \<Rightarrow> (u64 \<times> u64 list \<Rightarrow> u64 \<times> u64 list) \<Rightarrow> bool" where
  "jit_runs fl is ended f \<longleftrightarrow> (\<forall>p st. jit_ready p st \<longrightarrow>
     (\<exists>st'. x86_exec fl is st = Some (ended, st') \<and> jit_ready p st' \<and> xs_reg st' RSP = xs_reg st RSP \<and>
        acc_slots p st' = f (acc_slots p st) \<and> jit_frame p (xs_reg st RSP) (xs_host st) (xs_host st')))"

lemma jit_frame_refl [simp]: "jit_frame p rsp h h"
  by (simp add: jit_frame_def)

lemma jit_frame_trans: "jit_frame p rsp h h1 \<Longrightarrow> jit_frame p rsp h1 h2 \<Longrightarrow> jit_frame p rsp h h2"
  by (simp add: jit_frame_def)

lemma jit_runs_append:
  assumes "jit_runs fl is False f" "jit_runs fl js ended g"
  shows "jit_runs fl (is @ js) ended (\<lambda>ws. g (f ws))"
  unfolding jit_runs_def
proof (intro allI impI)
  fix p st assume "jit_ready p st"
  then obtain st1 where 1: "x86_exec fl is st = Some (False, st1)" "jit_ready p st1" "xs_reg st1 RSP = xs_reg st RSP"
      "acc_slots p st1 = f (acc_slots p st)" "jit_frame p (xs_reg st RSP) (xs_host st) (xs_host st1)"
    using assms(1) unfolding jit_runs_def by blast
  from 1(2) obtain st2 where "x86_exec fl js st1 = Some (ended, st2)" "jit_ready p st2" "xs_reg st2 RSP = xs_reg st1 RSP"
      "acc_slots p st2 = g (acc_slots p st1)" "jit_frame p (xs_reg st1 RSP) (xs_host st1) (xs_host st2)"
    using assms(2) unfolding jit_runs_def by blast
  with 1 show "\<exists>st'. x86_exec fl (is @ js) st = Some (ended, st') \<and> jit_ready p st' \<and> xs_reg st' RSP = xs_reg st RSP \<and>
      acc_slots p st' = g (f (acc_slots p st)) \<and> jit_frame p (xs_reg st RSP) (xs_host st) (xs_host st')"
    by (auto simp: x86_exec_append intro: jit_frame_trans)
qed

lemma jit_runs_returned:
  assumes "jit_runs fl is True f"
  shows "jit_runs fl (is @ js) True f"
  using assms unfolding jit_runs_def x86_exec_append by fastforce

lemma int_slots_nth: "i < 34 \<Longrightarrow> get_slot p i h = int_slots p h ! i"
  by (simp add: int_slots_def)

lemma length_int_slots [simp]: "length (int_slots p h) = 34"
  by (simp add: int_slots_def)

lemma int_slots_put [simp]:
  assumes "i < 68"
  shows "int_slots p (put_slot p i v h) = (int_slots p h)[i := v]"
proof (rule nth_equalityI)
  fix j assume "j < length (int_slots p (put_slot p i v h))"
  then have "j < 34" by simp
  with assms show "int_slots p (put_slot p i v h) ! j = (int_slots p h)[i := v] ! j"
    by (cases "i = j") (simp_all add: int_slots_def)
qed simp

lemma slot_in_footprint:
  assumes "i < 35 \<or> 64 \<le> i \<and> i < 67"
  shows "set (addrs (slot p i) 8) \<subseteq> set (addrs p 280) \<union> set (addrs (p + 512) 24)"
proof
  fix a assume "a \<in> set (addrs (slot p i) 8)"
  then obtain k where k: "k < 8" "a = p + of_nat (8 * i + k)" by (auto simp: mem_addrs slot_def add.assoc)
  show "a \<in> set (addrs p 280) \<union> set (addrs (p + 512) 24)"
  proof (cases "i < 35")
    case True
    with k show ?thesis by (auto simp: mem_addrs intro!: exI [of _ "8 * i + k"])
  next
    case False
    then have "8 * i + k = 512 + (8 * (i - 64) + k)" "8 * (i - 64) + k < 24" using assms k by auto
    then have "a = p + 512 + of_nat (8 * (i - 64) + k)" by (simp only: k(2) of_nat_add add.assoc of_nat_numeral)
    with \<open>8 * (i - 64) + k < 24\<close> show ?thesis unfolding mem_addrs Un_iff by blast
  qed
qed

lemma jit_frame_put:
  assumes "jit_frame p rsp h h'" "i < 35 \<or> 64 \<le> i \<and> i < 67"
  shows "jit_frame p rsp h (put_slot p i v h')"
proof -
  have "upd_all (addrs (slot p i) 8) bs f a = f a"
    if "a \<notin> set (addrs p 280)" "a \<notin> set (addrs (p + 512) 24)" for a bs f
    using that slot_in_footprint [OF assms(2), of p] by (intro upd_all_other) blast
  with assms(1) show ?thesis by (simp add: jit_frame_def put_slot_def)
qed

lemma jit_frame_push: "jit_frame p rsp h h' \<Longrightarrow> jit_frame p rsp h (put_slot (rsp - 8) 0 v h')"
  by (simp add: jit_frame_def put_slot_def slot_def upd_all_other)

lemma slot_subset: "i < 68 \<Longrightarrow> set (addrs (slot p i) 8) \<subseteq> set (addrs p ctx_bytes)"
proof
  fix a assume "i < 68" "a \<in> set (addrs (slot p i) 8)"
  then obtain k where "k < 8" "a = p + of_nat (8 * i + k)" by (auto simp: mem_addrs slot_def add.assoc)
  with \<open>i < 68\<close> show "a \<in> set (addrs p ctx_bytes)"
    unfolding mem_addrs ctx_bytes_def by (intro exI [of _ "8 * i + k"]) simp
qed

lemma get_slot_push:
  assumes "disjoint_ranges q 8 p ctx_bytes" "i < 68"
  shows "get_slot p i (put_slot q 0 v h) = get_slot p i h"
  using assms slot_subset [OF assms(2), of p]
  by (intro get_put_slot_disjoint) (auto simp: disjoint_ranges_def slot_def)

lemma int_slots_push [simp]:
  "disjoint_ranges q 8 p ctx_bytes \<Longrightarrow> int_slots p (put_slot q 0 v h) = int_slots p h"
  by (simp add: int_slots_def get_slot_push)

subsection \<open>The pieces of the reference assembly\<close>

lemma jit_runs_Cons:
  "jit_runs fl [i] False f \<Longrightarrow> jit_runs fl is ended g \<Longrightarrow> jit_runs fl (i # is) ended (\<lambda>ws. g (f ws))"
  using jit_runs_append [of fl "[i]" f "is" ended g] by simp

lemma jit_runs_Nil: "jit_runs fl [] False (\<lambda>ws. ws)"
  by (simp add: jit_runs_def)

lemma jit_runs_ret: "jit_runs fl [Ret] True (\<lambda>ws. ws)"
  by (simp add: jit_runs_def)

lemma jit_runs_nop: "jit_runs fl [Nop] False (\<lambda>ws. ws)"
  by (simp add: jit_runs_def)

text \<open>One step that keeps the special registers.\<close>

lemma jit_runsI:
  assumes "\<And>p st. jit_ready p st \<Longrightarrow> \<exists>st'. x86_exec fl is st = Some (False, st') \<and>
      xs_reg st' R12 = xs_reg st R12 \<and> xs_reg st' RSP = xs_reg st RSP \<and>
      acc_slots p st' = f (acc_slots p st) \<and> jit_frame p (xs_reg st RSP) (xs_host st) (xs_host st')"
  shows "jit_runs fl is False f"
  unfolding jit_runs_def
proof (intro allI impI)
  fix p st assume r: "jit_ready p st"
  then obtain st' where st': "x86_exec fl is st = Some (False, st')" "xs_reg st' R12 = xs_reg st R12"
      "xs_reg st' RSP = xs_reg st RSP" "acc_slots p st' = f (acc_slots p st)"
      "jit_frame p (xs_reg st RSP) (xs_host st) (xs_host st')"
    using assms by blast
  then have "writable q n (xs_host st') = writable q n (xs_host st)" for q n
    by (simp add: jit_frame_def writable_def can_write_def list_all_iff)
  with r st' show "\<exists>st'. x86_exec fl is st = Some (False, st') \<and> jit_ready p st' \<and> xs_reg st' RSP = xs_reg st RSP \<and>
      acc_slots p st' = f (acc_slots p st) \<and> jit_frame p (xs_reg st RSP) (xs_host st) (xs_host st')"
    by (intro exI [of _ st']) (simp add: jit_ready_def)
qed

lemma ctx_disp_numerals [simp]:
  "ctx_disp 256" "ctx_disp 264" "ctx_disp 272" "ctx_disp 512" "ctx_disp 520" "ctx_disp 528"
  by (simp_all add: ctx_disp_def)

lemmas jit_step = jit_ready_def acc_slots_def step_load_ctx step_store_ctx step_pushfq step_pop
  jit_frame_put jit_frame_push

lemma jit_runs_load:
  assumes "ctx_disp d" "unat d div 8 < 34"
  shows "jit_runs fl [Load RAX R12 d] False (\<lambda>(x, ws). (ws ! (unat d div 8), ws))"
  using assms by (intro jit_runsI) (auto simp: jit_step int_slots_nth)

lemma jit_runs_store:
  assumes "ctx_disp d" "unat d div 8 < 34"
  shows "jit_runs fl [Store R12 d RAX] False (\<lambda>(x, ws). (x, ws[unat d div 8 := x]))"
  using assms by (intro jit_runsI) (auto simp: jit_step)

lemma jit_runs_acc:
  "jit_runs fl [MovImm RAX v] False (\<lambda>(x, ws). (v, ws))"
  "jit_runs fl [AluImm op RAX k] False (\<lambda>(x, ws). (x86_alu op x (scast k), ws))"
  "jit_runs fl [ShiftImm sh RAX n] False (\<lambda>(x, ws). (x86_shift sh x n, ws))"
  by (auto intro!: jit_runsI simp: acc_slots_def)

lemma jit_runs_rcx:
  assumes "ctx_disp d" "unat d div 8 < 34"
  shows "jit_runs fl [Load RCX R12 d, AluRR op RAX RCX] False (\<lambda>(x, ws). (x86_alu op x (ws ! (unat d div 8)), ws))"
    and "jit_runs fl [Load RCX R12 d, ShiftCl sh RAX] False
      (\<lambda>(x, ws). (x86_shift sh x (ucast (ws ! (unat d div 8))), ws))"
    and "jit_runs fl [Load RCX R12 d, TestRR RAX RCX] False (\<lambda>ws. ws)"
  using assms by (auto intro!: jit_runsI simp: jit_step int_slots_nth)

text \<open>\<open>save_nzcv\<close> in three parts: saving three registers, computing with them, restoring them.\<close>

definition nzcv_save :: "x86 list" where
  "nzcv_save = [Store R12 512 RAX, Store R12 520 RCX, Store R12 528 RDX, Pushfq, Pop RAX]"

definition nzcv_compute :: "x86 list" where
  "nzcv_compute =
    [MovRR RCX RAX, ShiftImm X_SHR R9 7, AluImm X_AND R9 1,
     MovRR RDX RAX, ShiftImm X_SHR RDX 6, AluImm X_AND RDX 1, ShiftImm X_SHL RDX 1, AluRR X_OR RCX RDX,
     MovRR RDX RAX, AluImm X_AND RDX 1, ShiftImm X_SHL RDX 2, AluRR X_OR RCX RDX,
     MovRR RDX RAX, ShiftImm X_SHR RDX 11, AluImm X_AND RDX 1, ShiftImm X_SHL RDX 3, AluRR X_OR RCX RDX,
     ShiftImm X_SHL R9 28]"

definition nzcv_restore :: "x86 list" where
  "nzcv_restore = [Store R12 272 RCX, Load RDX R12 528, Load RCX R12 520, Load RAX R12 512]"

lemma nzcv_asm_parts: "nzcv_asm = nzcv_save @ nzcv_compute @ nzcv_restore"
  by (simp add: nzcv_asm_def nzcv_save_def nzcv_compute_def nzcv_restore_def)

definition scratch_op :: "x86 \<Rightarrow> bool" where
  "scratch_op i = (case i of MovRR d s \<Rightarrow> d \<noteq> R12 \<and> d \<noteq> RSP | ShiftImm op d k \<Rightarrow> d \<noteq> R12 \<and> d \<noteq> RSP
     | AluImm op d k \<Rightarrow> d \<noteq> R12 \<and> d \<noteq> RSP | AluRR op d s \<Rightarrow> d \<noteq> R12 \<and> d \<noteq> RSP | _ \<Rightarrow> False)"

lemma scratch_ops:
  "list_all scratch_op is \<Longrightarrow> \<exists>st'. x86_exec fl is st = Some (False, st') \<and> xs_host st' = xs_host st \<and>
     xs_reg st' R12 = xs_reg st R12 \<and> xs_reg st' RSP = xs_reg st RSP"
proof (induction "is" arbitrary: st)
  case (Cons i "is")
  then have "\<exists>st1. x86_step fl i st = Some st1 \<and> xs_host st1 = xs_host st \<and>
      xs_reg st1 R12 = xs_reg st R12 \<and> xs_reg st1 RSP = xs_reg st RSP" and "i \<noteq> Ret"
    by (auto simp: scratch_op_def split: x86.splits)
  then obtain st1 where st1: "x86_step fl i st = Some st1" "xs_host st1 = xs_host st"
      "xs_reg st1 R12 = xs_reg st R12" "xs_reg st1 RSP = xs_reg st RSP" by blast
  with Cons obtain st' where "x86_exec fl is st1 = Some (False, st')" "xs_host st' = xs_host st1"
      "xs_reg st' R12 = xs_reg st1 R12" "xs_reg st' RSP = xs_reg st1 RSP" by fastforce
  with st1 \<open>i \<noteq> Ret\<close> show ?case by simp
qed simp

lemma exec_nzcv_save:
  assumes "jit_ready p st"
  shows "\<exists>st'. x86_exec fl nzcv_save st = Some (False, st') \<and> xs_reg st' R12 = p \<and>
    xs_reg st' RSP = xs_reg st RSP \<and> xs_host st' = put_slot (xs_reg st RSP - 8) 0 (xs_flags st)
      (put_slot p 66 (xs_reg st RDX) (put_slot p 65 (xs_reg st RCX) (put_slot p 64 (xs_reg st RAX) (xs_host st))))"
  using assms by (simp add: nzcv_save_def jit_step)

lemma exec_nzcv_restore:
  assumes "xs_reg st R12 = p" "writable p ctx_bytes (xs_host st)"
  shows "\<exists>st'. x86_exec fl nzcv_restore st = Some (False, st') \<and> xs_reg st' R12 = p \<and>
    xs_reg st' RSP = xs_reg st RSP \<and> xs_reg st' RAX = get_slot p 64 (xs_host st) \<and>
    xs_host st' = put_slot p 34 (xs_reg st RCX) (xs_host st)"
  using assms by (simp add: nzcv_restore_def step_load_ctx step_store_ctx)

lemma jit_runs_nzcv: "jit_runs fl nzcv_asm False (\<lambda>ws. ws)"
proof (rule jit_runsI)
  fix p st assume r: "jit_ready p st"
  let ?h = "put_slot (xs_reg st RSP - 8) 0 (xs_flags st)
      (put_slot p 66 (xs_reg st RDX) (put_slot p 65 (xs_reg st RCX) (put_slot p 64 (xs_reg st RAX) (xs_host st))))"
  obtain st1 where 1: "x86_exec fl nzcv_save st = Some (False, st1)" "xs_reg st1 R12 = p"
      "xs_reg st1 RSP = xs_reg st RSP" "xs_host st1 = ?h"
    using exec_nzcv_save [OF r] by blast
  have "list_all scratch_op nzcv_compute" by (simp add: nzcv_compute_def scratch_op_def)
  from scratch_ops [OF this] obtain st2 where 2: "x86_exec fl nzcv_compute st1 = Some (False, st2)"
      "xs_host st2 = xs_host st1" "xs_reg st2 R12 = xs_reg st1 R12" "xs_reg st2 RSP = xs_reg st1 RSP" by blast
  from r have "xs_reg st2 R12 = p" "writable p ctx_bytes (xs_host st2)" by (simp_all add: 1 2 jit_ready_def)
  from exec_nzcv_restore [OF this] obtain st3 where 3: "x86_exec fl nzcv_restore st2 = Some (False, st3)"
      "xs_reg st3 R12 = p" "xs_reg st3 RSP = xs_reg st2 RSP" "xs_reg st3 RAX = get_slot p 64 (xs_host st2)"
      "xs_host st3 = put_slot p 34 (xs_reg st2 RCX) (xs_host st2)" by blast
  have h: "xs_host st2 = ?h" by (simp add: 1 2)
  from r have d: "disjoint_ranges (xs_reg st RSP - 8) 8 p ctx_bytes" by (simp add: jit_ready_def)
  have "acc_slots p st3 = acc_slots p st"
    by (simp add: acc_slots_def 3 h get_slot_push [OF d] int_slots_push [OF d] list_update_beyond)
  moreover have "jit_frame p (xs_reg st RSP) (xs_host st) (xs_host st3)"
    unfolding 3 h by (intro jit_frame_put jit_frame_push jit_frame_refl) simp_all
  moreover have "xs_reg st R12 = p" using r by (simp add: jit_ready_def)
  ultimately show "\<exists>st'. x86_exec fl nzcv_asm st = Some (False, st') \<and> xs_reg st' R12 = xs_reg st R12 \<and>
      xs_reg st' RSP = xs_reg st RSP \<and> acc_slots p st' = acc_slots p st \<and>
      jit_frame p (xs_reg st RSP) (xs_host st) (xs_host st')"
    by (intro exI [of _ st3]) (simp add: nzcv_asm_parts x86_exec_append 1 2 3)
qed

section \<open>The meaning of the intermediate representation\<close>

text \<open>
  What an IR instruction promises to do with the integer registers, as the names of
  \<^verbatim>\<open>ir.hpp\<close> say: registers are numbered 0 to 31 with 31 for the stack pointer, an
  immediate operand is the 64-bit field \<open>imm\<close>, shifts use six bits of their count.  SET_REG takes
  \<open>imm\<close> when its source is the marker \<open>IR_NONE\<close>, as the builder writes it for the return address of BL (the
  marker is 0, so register 0 cannot be its source), and RET returns to the register it names.  The
  Boolean is the end of the block.  Flags, memory and vectors are not part of it.
\<close>

definition ir_get :: "CPUContext \<Rightarrow> IRReg \<Rightarrow> u64" where
  "ir_get ctx r = cpu_context_get_reg ctx (int (unat r))"

definition ir_set :: "IRReg \<Rightarrow> u64 \<Rightarrow> CPUContext \<Rightarrow> CPUContext" where
  "ir_set r v ctx = cpu_context_set_reg ctx (int (unat r)) v"

definition ir_operand :: "IRInst \<Rightarrow> CPUContext \<Rightarrow> u64" where
  "ir_operand i ctx = (if i_src2 i = IR_IMM then i_imm i else ir_get ctx (i_src2 i))"

definition ir_exec :: "IRInst \<Rightarrow> CPUContext \<Rightarrow> bool \<times> CPUContext" where
  "ir_exec i ctx =
    (let a = ir_get ctx (i_src1 i); b = ir_operand i ctx; n = unat (b AND 63);
         put = (\<lambda>v. (False, ir_set (i_dest i) v ctx))
     in case i_op i of
       Op_ADD \<Rightarrow> put (a + b) | Op_SUB \<Rightarrow> put (a - b) | Op_AND \<Rightarrow> put (a AND b)
     | Op_OR \<Rightarrow> put (a OR b) | Op_XOR \<Rightarrow> put (a XOR b)
     | Op_SHL \<Rightarrow> put (push_bit n a) | Op_SHR \<Rightarrow> put (drop_bit n a) | Op_SAR \<Rightarrow> put (signed_drop_bit n a)
     | Op_MOV_IMM \<Rightarrow> put (i_imm i)
     | Op_SET_REG \<Rightarrow> put (if i_src1 i = IR_NONE then i_imm i else a)
     | Op_JMP \<Rightarrow> (True, ctx\<lparr>ctx_pc := i_imm i\<rparr>)
     | Op_CALL \<Rightarrow> (True, ctx\<lparr>ctx_pc := i_imm i\<rparr>)
     | Op_RET \<Rightarrow> (True, ctx\<lparr>ctx_pc := a\<rparr>)
     | _ \<Rightarrow> (False, ctx))"

fun ir_exec_block :: "u64 \<Rightarrow> IRInst list \<Rightarrow> CPUContext \<Rightarrow> CPUContext" where
  "ir_exec_block fall [] ctx = ctx\<lparr>ctx_pc := fall\<rparr>"
| "ir_exec_block fall (i # is) ctx =
     (let (ended, ctx) = ir_exec i ctx in if ended then ctx else ir_exec_block fall is ctx)"

text \<open>The instructions whose code is shown to do this: arithmetic on registers below 32 with
  immediates below \<open>2\<^sup>3\<^sup>1\<close> (the machine sign-extends them), moves, compares, jumps and calls.
  RET is not one of them: its code takes the field \<open>lr\<close> of the context, not the register.\<close>

definition alu_operand_ok :: "u64 \<Rightarrow> IRInst \<Rightarrow> bool" where
  "alu_operand_ok bound i \<longleftrightarrow> i_dest i < 32 \<and> i_src1 i < 32 \<and>
     (if i_src2 i = IR_IMM then i_imm i < bound else i_src2 i < 32)"

definition jit_ok :: "IRInst \<Rightarrow> bool" where
  "jit_ok i = (case i_op i of
      Op_ADD \<Rightarrow> alu_operand_ok (2 ^ 31) i | Op_SUB \<Rightarrow> alu_operand_ok (2 ^ 31) i
    | Op_AND \<Rightarrow> alu_operand_ok (2 ^ 31) i | Op_OR \<Rightarrow> alu_operand_ok (2 ^ 31) i
    | Op_XOR \<Rightarrow> alu_operand_ok (2 ^ 31) i
    | Op_SHL \<Rightarrow> alu_operand_ok 64 i | Op_SHR \<Rightarrow> alu_operand_ok 64 i | Op_SAR \<Rightarrow> alu_operand_ok 64 i
    | Op_MOV_IMM \<Rightarrow> i_dest i < 32
    | Op_SET_REG \<Rightarrow> i_dest i < 32 \<and> i_src1 i < 32
    | Op_CMP \<Rightarrow> i_src1 i < 32 \<and> i_imm i \<le> 0xFFFFFFFF \<and>
        (i_src2 i = IR_IMM \<or> i_src2 i = IR_NONE \<or> i_src2 i < 32)
    | Op_TST \<Rightarrow> i_src1 i < 32 \<and> i_src2 i < 32
    | Op_JMP \<Rightarrow> True | Op_CALL \<Rightarrow> True | Op_NOP \<Rightarrow> True | Op_BARRIER \<Rightarrow> True
    | _ \<Rightarrow> False)"

lemma jit_ok_encodable: "jit_ok i \<Longrightarrow> encodable i"
  by (auto simp: jit_ok_def encodable_def imm32_operand_def alu_operand_ok_def word_le_nat_alt word_less_nat_alt
    split: IROpcode.splits if_splits)

text \<open>The integer words of a context.\<close>

definition int_words :: "CPUContext \<Rightarrow> u64 list" where
  "int_words ctx = ctx_x ctx @ [ctx_sp ctx, ctx_pc ctx, ctx_lr ctx]"

lemma reg_access_nat:
  "cpu_context_get_reg ctx (int k) = (if k < 31 then ctx_x ctx ! k else if k = 31 then ctx_sp ctx else 0)"
  "cpu_context_set_reg ctx (int k) v =
     (if k < 31 then ctx\<lparr>ctx_x := (ctx_x ctx)[k := v]\<rparr> else if k = 31 then ctx\<lparr>ctx_sp := v\<rparr> else ctx)"
  by (auto simp: cpu_context_get_reg_def cpu_context_set_reg_def)

lemma int_words_nat:
  assumes "length (ctx_x ctx) = 31" "k < 32"
  shows "int_words ctx ! k = cpu_context_get_reg ctx (int k)"
    and "int_words (cpu_context_set_reg ctx (int k) v) = (int_words ctx)[k := v]"
proof -
  consider "k < 31" | "k = 31" using assms(2) by linarith
  then have "int_words ctx ! k = cpu_context_get_reg ctx (int k) \<and>
      int_words (cpu_context_set_reg ctx (int k) v) = (int_words ctx)[k := v]"
    unfolding reg_access_nat int_words_def
    by cases (simp_all add: assms(1) nth_append list_update_append)
  then show "int_words ctx ! k = cpu_context_get_reg ctx (int k)"
    and "int_words (cpu_context_set_reg ctx (int k) v) = (int_words ctx)[k := v]" by simp_all
qed

lemma int_words_simps:
  assumes "ctx_wf ctx"
  shows "r < 32 \<Longrightarrow> int_words ctx ! unat r = ir_get ctx r"
    and "r < 32 \<Longrightarrow> int_words (ir_set r v ctx) = (int_words ctx)[unat r := v]"
    and "int_words (ctx\<lparr>ctx_pc := v\<rparr>) = (int_words ctx)[32 := v]"
    and "int_words ctx ! 33 = ctx_lr ctx"
    and "ctx_wf (ir_set r v ctx)" "ctx_wf (ctx\<lparr>ctx_pc := v\<rparr>)"
proof -
  have n: "r < 32 \<Longrightarrow> unat r < 32" by (simp add: word_less_nat_alt)
  have l: "length (ctx_x ctx) = 31" using assms by (simp add: ctx_wf_def)
  show "r < 32 \<Longrightarrow> int_words ctx ! unat r = ir_get ctx r"
    and "r < 32 \<Longrightarrow> int_words (ir_set r v ctx) = (int_words ctx)[unat r := v]"
    by (simp_all only: ir_get_def ir_set_def int_words_nat [OF l n])
  show "int_words (ctx\<lparr>ctx_pc := v\<rparr>) = (int_words ctx)[32 := v]" "int_words ctx ! 33 = ctx_lr ctx"
    using l by (simp_all add: int_words_def list_update_append nth_append)
  show "ctx_wf (ir_set r v ctx)" "ctx_wf (ctx\<lparr>ctx_pc := v\<rparr>)"
    using assms by (auto simp: ctx_wf_def ir_set_def cpu_context_set_reg_def)
qed

section \<open>The code of an instruction does what the instruction means\<close>

lemma unat_arm_reg_offset:
  assumes "(r :: IRReg) < 32"
  shows "unat (arm_reg_offset (ucast r)) = 8 * unat r"
proof -
  have n: "unat r < 32" using assms by (simp add: word_less_nat_alt)
  then have u: "unat (ucast r :: u8) = unat r" by (simp add: unsigned_ucast_eq take_bit_nat_eq_self)
  then have "ucast r = (31 :: u8) \<longleftrightarrow> unat r = 31" by (simp add: word_unat_eq_iff)
  moreover have "unat (ucast x * 8 :: u32) = 8 * unat x" if "unat x < 32" for x :: u8
    using that by (simp add: unat_word_ariths unsigned_ucast_eq take_bit_nat_eq_self)
  ultimately show ?thesis using n u by (simp add: arm_reg_offset_def)
qed

lemma arm_reg_disp:
  assumes "(r :: IRReg) < 32"
  shows "ctx_disp (arm_reg_offset (ucast r))" "unat (arm_reg_offset (ucast r)) div 8 = unat r"
    and "unat r < 34" "unat r < 35" "unat r < 68"
proof -
  have "unat r < 32" using assms by (simp add: word_less_nat_alt)
  then show "ctx_disp (arm_reg_offset (ucast r))" "unat (arm_reg_offset (ucast r)) div 8 = unat r"
    and "unat r < 34" "unat r < 35" "unat r < 68"
    by (simp_all add: ctx_disp_def unat_arm_reg_offset [OF assms])
qed

lemma jit_runs_ld: "r < 32 \<Longrightarrow> jit_runs fl [ld_asm r RAX] False (\<lambda>(x, ws). (ws ! unat r, ws))"
  using jit_runs_load [of "arm_reg_offset (ucast r)"] by (simp add: ld_asm_def arm_reg_disp)

lemma jit_runs_st: "r < 32 \<Longrightarrow> jit_runs fl [st_asm RAX r] False (\<lambda>(x, ws). (x, ws[unat r := x]))"
  using jit_runs_store [of "arm_reg_offset (ucast r)"] by (simp add: st_asm_def arm_reg_disp)

lemma jit_runs_ld_rcx:
  assumes "r < 32"
  shows "jit_runs fl [ld_asm r RCX, AluRR op RAX RCX] False (\<lambda>(x, ws). (x86_alu op x (ws ! unat r), ws))"
    and "jit_runs fl [ld_asm r RCX, ShiftCl sh RAX] False (\<lambda>(x, ws). (x86_shift sh x (ucast (ws ! unat r)), ws))"
    and "jit_runs fl [ld_asm r RCX, TestRR RAX RCX] False (\<lambda>ws. ws)"
  using jit_runs_rcx [of "arm_reg_offset (ucast r)"] assms by (simp_all add: ld_asm_def arm_reg_disp)

lemma jit_runs_flags: "jit_runs fl (if save then nzcv_asm else []) False (\<lambda>ws. ws)"
  by (simp add: jit_runs_nzcv jit_runs_Nil)

text \<open>The code of a binary operation, from the code of its two operand forms.\<close>

lemma jit_runs_binary:
  assumes "i_dest i < 32" "i_src1 i < 32"
    and "i_src2 i = IR_IMM \<Longrightarrow> jit_runs fl [a] False (\<lambda>(x, ws). (op x (v ws), ws))"
    and "i_src2 i \<noteq> IR_IMM \<Longrightarrow> jit_runs fl [ld_asm (i_src2 i) RCX, b] False (\<lambda>(x, ws). (op x (v ws), ws))"
  shows "jit_runs fl (binary_asm a b save i) False
    (\<lambda>(x, ws). let r = op (ws ! unat (i_src1 i)) (v ws) in (r, ws[unat (i_dest i) := r]))"
proof -
  have "jit_runs fl (if i_src2 i = IR_IMM then [a] else [ld_asm (i_src2 i) RCX, b]) False (\<lambda>(x, ws). (op x (v ws), ws))"
    using assms(3,4) by simp
  from jit_runs_append [OF jit_runs_ld [OF assms(2)] jit_runs_append [OF this
      jit_runs_append [OF jit_runs_flags [of fl save] jit_runs_st [OF assms(1)]]]]
  show ?thesis unfolding binary_asm_def by (simp add: case_prod_beta' Let_def split del: if_split)
qed

definition ir_ends :: "IRInst \<Rightarrow> bool" where
  "ir_ends i \<longleftrightarrow> i_op i \<in> {Op_JMP, Op_CALL, Op_RET}"

lemma fst_ir_exec: "fst (ir_exec i ctx) = ir_ends i"
  by (simp add: ir_exec_def ir_ends_def Let_def split: IROpcode.splits)

definition jit_does :: "flag_sem \<Rightarrow> u64 \<Rightarrow> IRInst \<Rightarrow> bool" where
  "jit_does fl fall i \<longleftrightarrow> (\<exists>f. jit_runs fl (lower_asm fall i) (ir_ends i) f \<and>
     (\<forall>x ctx. ctx_wf ctx \<longrightarrow> snd (f (x, int_words ctx)) = int_words (snd (ir_exec i ctx))))"

lemma jit_doesI:
  assumes "jit_runs fl (lower_asm fall i) (ir_ends i) f"
    and "\<And>x ctx. ctx_wf ctx \<Longrightarrow> snd (f (x, int_words ctx)) = int_words (snd (ir_exec i ctx))"
  shows "jit_does fl fall i"
  using assms unfolding jit_does_def by blast

text \<open>The operand forms of arithmetic and shifts compute on the operand's value.\<close>

definition operand_value :: "IRInst \<Rightarrow> u64 list \<Rightarrow> u64" where
  "operand_value i ws = (if i_src2 i = IR_IMM then i_imm i else ws ! unat (i_src2 i))"

lemma operand_value_ir:
  "ctx_wf ctx \<Longrightarrow> alu_operand_ok bound i \<Longrightarrow> operand_value i (int_words ctx) = ir_operand i ctx"
  by (auto simp: operand_value_def ir_operand_def alu_operand_ok_def int_words_simps)

lemma scast_ucast_imm:
  assumes "(v :: u64) < 2 ^ 31"
  shows "scast (ucast v :: u32) = v"
proof -
  have n: "unat v < 2 ^ 31" using assms by (simp add: word_less_nat_alt)
  then have u: "unat (ucast v :: u32) = unat v" by (simp add: unsigned_ucast_eq take_bit_nat_eq_self)
  have "scast (ucast v :: u32) = (of_nat (unat (ucast v :: u32)) :: u64)"
    using n u by (intro scast_small) simp
  also have "\<dots> = v" by (simp add: u)
  finally show ?thesis .
qed

lemma shift_count: "unat ((ucast v :: u8) AND 63) = unat (v AND 63)" for v :: u64
proof -
  have "(ucast v :: u8) AND 63 = ucast (v AND 63)"
    by (simp add: word_eq_iff_bits all_less_numeral bit_simps)
  moreover have "unat (v AND 63) < 64"
    using word_and_le1 [of v 63] by (simp add: word_le_nat_alt)
  ultimately show ?thesis by (simp add: unsigned_ucast_eq take_bit_nat_eq_self)
qed

lemma jit_runs_alu:
  assumes "alu_operand_ok (2 ^ 31) i"
  shows "jit_runs fl (binary_asm (AluImm op RAX (ucast (i_imm i))) (AluRR op RAX RCX) save i) False
    (\<lambda>(x, ws). let r = x86_alu op (ws ! unat (i_src1 i)) (operand_value i ws) in (r, ws[unat (i_dest i) := r]))"
proof (rule jit_runs_binary [where op = "x86_alu op" and v = "operand_value i"])
  show "i_dest i < 32" "i_src1 i < 32" using assms by (simp_all add: alu_operand_ok_def)
  show "jit_runs fl [AluImm op RAX (ucast (i_imm i))] False (\<lambda>(x, ws). (x86_alu op x (operand_value i ws), ws))"
    if "i_src2 i = IR_IMM"
    using jit_runs_acc(2) [of fl op "ucast (i_imm i)"] assms that
    by (simp add: operand_value_def scast_ucast_imm alu_operand_ok_def)
  show "jit_runs fl [ld_asm (i_src2 i) RCX, AluRR op RAX RCX] False (\<lambda>(x, ws). (x86_alu op x (operand_value i ws), ws))"
    if "i_src2 i \<noteq> IR_IMM"
    using jit_runs_ld_rcx(1) [of "i_src2 i" fl op] assms that by (simp add: operand_value_def alu_operand_ok_def)
qed

lemma jit_runs_shift:
  assumes "alu_operand_ok 64 i"
  shows "jit_runs fl (binary_asm (ShiftImm op RAX (ucast (i_imm i))) (ShiftCl op RAX) save i) False
    (\<lambda>(x, ws). let r = x86_shift op (ws ! unat (i_src1 i)) (ucast (operand_value i ws)) in (r, ws[unat (i_dest i) := r]))"
proof (rule jit_runs_binary [where op = "\<lambda>x v. x86_shift op x (ucast v)" and v = "operand_value i"])
  show "i_dest i < 32" "i_src1 i < 32" using assms by (simp_all add: alu_operand_ok_def)
  show "jit_runs fl [ShiftImm op RAX (ucast (i_imm i))] False
      (\<lambda>(x, ws). (x86_shift op x (ucast (operand_value i ws)), ws))" if "i_src2 i = IR_IMM"
    using jit_runs_acc(3) [of fl op "ucast (i_imm i)"] that by (simp add: operand_value_def)
  show "jit_runs fl [ld_asm (i_src2 i) RCX, ShiftCl op RAX] False
      (\<lambda>(x, ws). (x86_shift op x (ucast (operand_value i ws)), ws))" if "i_src2 i \<noteq> IR_IMM"
    using jit_runs_ld_rcx(2) [of "i_src2 i" fl op] assms that by (simp add: operand_value_def alu_operand_ok_def)
qed

lemma jit_does_binaryI:
  assumes "alu_operand_ok bound i" "\<not> ir_ends i"
    and "jit_runs fl (lower_asm fall i) False
      (\<lambda>(x, ws). let r = op (ws ! unat (i_src1 i)) (operand_value i ws) in (r, ws[unat (i_dest i) := r]))"
    and "\<And>ctx. snd (ir_exec i ctx) = ir_set (i_dest i) (op (ir_get ctx (i_src1 i)) (ir_operand i ctx)) ctx"
  shows "jit_does fl fall i"
proof (rule jit_doesI)
  show "jit_runs fl (lower_asm fall i) (ir_ends i)
      (\<lambda>(x, ws). let r = op (ws ! unat (i_src1 i)) (operand_value i ws) in (r, ws[unat (i_dest i) := r]))"
    using assms(2,3) by simp
  fix x ctx assume "ctx_wf ctx"
  moreover have "i_src1 i < 32" "i_dest i < 32" using assms(1) by (simp_all add: alu_operand_ok_def)
  ultimately show "snd ((\<lambda>(x, ws). let r = op (ws ! unat (i_src1 i)) (operand_value i ws)
      in (r, ws[unat (i_dest i) := r])) (x, int_words ctx)) = int_words (snd (ir_exec i ctx))"
    by (simp add: Let_def assms(4) int_words_simps operand_value_ir [OF _ assms(1)])
qed

lemma jit_does_aluI:
  assumes "alu_operand_ok (2 ^ 31) i" "\<not> ir_ends i"
    and "lower_asm fall i = binary_asm (AluImm op RAX (ucast (i_imm i))) (AluRR op RAX RCX) save i"
    and "\<And>ctx. snd (ir_exec i ctx) = ir_set (i_dest i) (x86_alu op (ir_get ctx (i_src1 i)) (ir_operand i ctx)) ctx"
  shows "jit_does fl fall i"
  using jit_does_binaryI [OF assms(1,2) _ assms(4)] jit_runs_alu [OF assms(1)] by (simp add: assms(3))

lemma jit_does_shiftI:
  assumes "alu_operand_ok 64 i" "\<not> ir_ends i"
    and "lower_asm fall i = binary_asm (ShiftImm op RAX (ucast (i_imm i))) (ShiftCl op RAX) save i"
    and "\<And>ctx. snd (ir_exec i ctx) =
      ir_set (i_dest i) (x86_shift op (ir_get ctx (i_src1 i)) (ucast (ir_operand i ctx))) ctx"
  shows "jit_does fl fall i"
  using jit_does_binaryI [OF assms(1,2), where op = "\<lambda>x v. x86_shift op x (ucast v)", OF _ assms(4)]
    jit_runs_shift [OF assms(1)] by (simp add: assms(3))

lemma jit_does_alu:
  assumes "jit_ok i" "i_op i \<in> {Op_ADD, Op_SUB, Op_AND, Op_OR, Op_XOR}"
  shows "jit_does fl fall i"
proof -
  define op where "op = (case i_op i of Op_ADD \<Rightarrow> X_ADD | Op_SUB \<Rightarrow> X_SUB | Op_AND \<Rightarrow> X_AND | Op_OR \<Rightarrow> X_OR | _ \<Rightarrow> X_XOR)"
  define save where "save = (i_flags_set i \<and> i_op i \<notin> {Op_OR, Op_XOR})"
  have "alu_operand_ok (2 ^ 31) i" using assms by (auto simp: jit_ok_def)
  then show ?thesis
    by (rule jit_does_aluI [where op = op and save = save])
       (use assms(2) in \<open>auto simp: op_def save_def ir_ends_def lower_asm_def ir_exec_def x86_alu_def\<close>)
qed

lemma jit_does_shift:
  assumes "jit_ok i" "i_op i \<in> {Op_SHL, Op_SHR, Op_SAR}"
  shows "jit_does fl fall i"
proof -
  define op where "op = (case i_op i of Op_SHL \<Rightarrow> X_SHL | Op_SHR \<Rightarrow> X_SHR | _ \<Rightarrow> X_SAR)"
  have "alu_operand_ok 64 i" using assms by (auto simp: jit_ok_def)
  then show ?thesis
    by (rule jit_does_shiftI [where op = op and save = False])
       (use assms(2) in \<open>auto simp: op_def ir_ends_def lower_asm_def ir_exec_def x86_shift_def shift_count Let_def\<close>)
qed

text \<open>Moves: the value travels through the host register of the guest register.\<close>

lemma guest_host_neq: "guest_host r \<noteq> R12" "guest_host r \<noteq> RSP"
proof -
  have "x86reg_code (arm_to_x86_static k) \<notin> {R12, RSP}" for k
  proof -
    have "k < 16 \<Longrightarrow> k \<in> {0, 1, 2, 3, 4, 5, 6, 7, 8, 9, 10, 11, 12, 13, 14, 15}" by unat_arith
    then show ?thesis by (auto simp: arm_to_x86_static_def Let_def reg_defs)
  qed
  then show "guest_host r \<noteq> R12" "guest_host r \<noteq> RSP"
    by (auto simp: guest_host_def host_reg_def arm_reg_to_x86_def reg_defs)
qed

lemma jit_runs_mov_host:
  assumes "g \<noteq> R12" "g \<noteq> RSP" "d < 32"
  shows "jit_runs fl [MovImm g v, st_asm g d] False (\<lambda>(x, ws). (if g = RAX then v else x, ws[unat d := v]))"
  using assms by (intro jit_runsI) (auto simp: st_asm_def jit_step arm_reg_disp)

lemma jit_runs_copy_host:
  assumes "g \<noteq> R12" "g \<noteq> RSP" "d < 32" "a < 32"
  shows "jit_runs fl [ld_asm a g, st_asm g d] False
    (\<lambda>(x, ws). (if g = RAX then ws ! unat a else x, ws[unat d := ws ! unat a]))"
  using assms by (intro jit_runsI) (auto simp: ld_asm_def st_asm_def jit_step arm_reg_disp int_slots_nth)

lemma jit_does_move:
  assumes "jit_ok i" "i_op i \<in> {Op_MOV_IMM, Op_SET_REG}"
  shows "jit_does fl fall i"
proof -
  have d: "i_dest i < 32" using assms by (auto simp: jit_ok_def)
  consider "i_op i = Op_MOV_IMM" | "i_op i = Op_SET_REG" "i_src1 i = IR_NONE"
    | "i_op i = Op_SET_REG" "i_src1 i \<noteq> IR_NONE" "i_src1 i < 32"
    using assms by (cases "i_src1 i = IR_NONE") (auto simp: jit_ok_def)
  then show ?thesis
  proof cases
    case 1
    then show ?thesis using d
      by (intro jit_doesI [where f = "\<lambda>(x, ws). (if guest_host (i_dest i) = RAX then i_imm i else x,
            ws[unat (i_dest i) := i_imm i])"])
        (simp_all add: lower_asm_def ir_ends_def ir_exec_def int_words_simps guest_host_neq jit_runs_mov_host)
  next
    case 2
    then show ?thesis using d jit_runs_mov_host [of RAX "i_dest i" fl "i_imm i"]
      by (intro jit_doesI [where f = "\<lambda>(x, ws). (i_imm i, ws[unat (i_dest i) := i_imm i])"])
        (simp_all add: lower_asm_def ir_ends_def ir_exec_def int_words_simps)
  next
    case 3
    then show ?thesis using d
      by (intro jit_doesI [where f = "\<lambda>(x, ws). (if guest_host (i_src1 i) = RAX then ws ! unat (i_src1 i) else x,
            ws[unat (i_dest i) := ws ! unat (i_src1 i)])"])
        (simp_all add: lower_asm_def ir_ends_def ir_exec_def int_words_simps guest_host_neq jit_runs_copy_host)
  qed
qed

text \<open>Compares change no integer register; their code ends with the flags.\<close>

lemma jit_runs_cmp:
  "jit_runs fl [AluImm X_CMP RAX k] False (\<lambda>ws. ws)"
  "r < 32 \<Longrightarrow> jit_runs fl [ld_asm r RCX, AluRR X_CMP RAX RCX] False (\<lambda>ws. ws)"
  using jit_runs_acc(2) [of fl X_CMP k] jit_runs_ld_rcx(1) [of r fl X_CMP]
  by (simp_all add: x86_alu_def id_def)

lemma jit_does_compare:
  assumes "jit_ok i" "i_op i \<in> {Op_CMP, Op_TST}"
  shows "jit_does fl fall i"
proof -
  have a: "i_src1 i < 32" using assms by (auto simp: jit_ok_def)
  define operand where "operand = (if i_op i = Op_TST then [ld_asm (i_src2 i) RCX, TestRR RAX RCX]
    else if i_src2 i = IR_IMM \<or> i_src2 i = IR_NONE then [AluImm X_CMP RAX (ucast (i_imm i))]
    else [ld_asm (i_src2 i) RCX, AluRR X_CMP RAX RCX])"
  have "jit_runs fl operand False (\<lambda>ws. ws)"
    using assms by (auto simp: operand_def jit_ok_def jit_runs_cmp jit_runs_ld_rcx(3))
  from jit_runs_append [OF jit_runs_ld [OF a] jit_runs_append [OF this jit_runs_flags [of fl "i_flags_set i"]]]
  have "jit_runs fl (lower_asm fall i) False (\<lambda>(y, ws). (ws ! unat (i_src1 i), ws))"
    using assms(2) by (auto simp: lower_asm_def operand_def Let_def split del: if_split)
  then show ?thesis using assms(2)
    by (intro jit_doesI [where f = "\<lambda>(y, ws). (ws ! unat (i_src1 i), ws)"]) (auto simp: ir_ends_def ir_exec_def)
qed

lemma jit_runs_block_ret: "jit_runs fl (block_ret_asm t) True (\<lambda>(x, ws). (t, ws[32 := t]))"
proof -
  have "jit_runs fl ([MovImm RAX t] @ [Store R12 CTX_PC_OFFSET RAX] @ [Ret]) True (\<lambda>(x, ws). (t, ws[32 := t]))"
    using jit_runs_append [OF jit_runs_acc(1) [of fl t] jit_runs_append [OF jit_runs_store [of 256 fl] jit_runs_ret]]
    by (simp add: CTX_PC_OFFSET_def case_prod_beta')
  then show ?thesis by (simp add: block_ret_asm_def)
qed

lemma jit_runs_ret_lr:
  "jit_runs fl [Load RAX R12 264, Store R12 CTX_PC_OFFSET RAX, Ret] True (\<lambda>(x, ws). (ws ! 33, ws[32 := ws ! 33]))"
proof -
  have "jit_runs fl ([Load RAX R12 264] @ [Store R12 CTX_PC_OFFSET RAX] @ [Ret]) True (\<lambda>(x, ws). (ws ! 33, ws[32 := ws ! 33]))"
    using jit_runs_append [OF jit_runs_load [of 264 fl] jit_runs_append [OF jit_runs_store [of 256 fl] jit_runs_ret]]
    by (simp add: CTX_PC_OFFSET_def case_prod_beta')
  then show ?thesis by simp
qed

lemma jit_does_end:
  assumes "i_op i \<in> {Op_JMP, Op_CALL, Op_NOP, Op_BARRIER}"
  shows "jit_does fl fall i"
proof -
  consider "i_op i \<in> {Op_JMP, Op_CALL}" | "i_op i \<in> {Op_NOP, Op_BARRIER}" using assms by auto
  then show ?thesis
  proof cases
    case 1
    then show ?thesis
      by (intro jit_doesI [where f = "\<lambda>(x, ws). (i_imm i, ws[32 := i_imm i])"])
        (auto simp: lower_asm_def ir_ends_def ir_exec_def int_words_simps jit_runs_block_ret)
  next
    case 2
    then show ?thesis
      by (intro jit_doesI [where f = "\<lambda>ws. ws"])
        (auto simp: lower_asm_def ir_ends_def ir_exec_def jit_runs_nop)
  qed
qed

lemma jit_ok_does: "jit_ok i \<Longrightarrow> jit_does fl fall i"
  using jit_does_alu [of i] jit_does_shift [of i] jit_does_move [of i] jit_does_compare [of i] jit_does_end [of i]
  by (cases "i_op i") (simp_all add: jit_ok_def)

lemma ctx_wf_ir_exec: "ctx_wf ctx \<Longrightarrow> ctx_wf (snd (ir_exec i ctx))"
  by (simp add: ir_exec_def Let_def int_words_simps split: IROpcode.splits)

text \<open>Blocks, by composition.\<close>

lemma jit_runs_block:
  assumes "\<forall>i\<in>set is. jit_ok i"
  shows "\<exists>f. jit_runs fl (concat (map (lower_asm fall) is) @ block_ret_asm fall) True f \<and>
    (\<forall>x ctx. ctx_wf ctx \<longrightarrow> snd (f (x, int_words ctx)) = int_words (ir_exec_block fall is ctx))"
  using assms
proof (induction "is")
  case Nil
  show ?case
    by (intro exI [of _ "\<lambda>(x, ws). (fall, ws[32 := fall])"]) (simp add: jit_runs_block_ret int_words_simps)
next
  case (Cons i "is")
  obtain f where f: "jit_runs fl (lower_asm fall i) (ir_ends i) f"
      "\<And>x ctx. ctx_wf ctx \<Longrightarrow> snd (f (x, int_words ctx)) = int_words (snd (ir_exec i ctx))"
    using jit_ok_does [of i fl fall] Cons.prems unfolding jit_does_def by auto
  obtain g where g: "jit_runs fl (concat (map (lower_asm fall) is) @ block_ret_asm fall) True g"
      "\<And>x ctx. ctx_wf ctx \<Longrightarrow> snd (g (x, int_words ctx)) = int_words (ir_exec_block fall is ctx)"
    using Cons by auto
  let ?code = "concat (map (lower_asm fall) (i # is)) @ block_ret_asm fall"
  show ?case
  proof (cases "ir_ends i")
    case True
    then have "jit_runs fl ?code True f" using jit_runs_returned [of fl "lower_asm fall i" f] f(1) by simp
    with f(2) True fst_ir_exec [of i] show ?thesis
      by (intro exI [of _ f]) (auto simp: case_prod_beta Let_def)
  next
    case False
    then have r: "jit_runs fl ?code True (\<lambda>ws. g (f ws))"
      using jit_runs_append [OF _ g(1), of "lower_asm fall i" f] f(1) by simp
    have "snd (g (f (x, int_words ctx))) = int_words (ir_exec_block fall (i # is) ctx)" if "ctx_wf ctx" for x ctx
    proof -
      have "f (x, int_words ctx) = (fst (f (x, int_words ctx)), int_words (snd (ir_exec i ctx)))"
        using f(2) [OF that, of x] by (metis prod.collapse)
      then show ?thesis
        using g(2) [OF ctx_wf_ir_exec [OF that]] False fst_ir_exec [of i ctx]
        by (metis (mono_tags, lifting) case_prod_beta ir_exec_block.simps(2))
    qed
    with r show ?thesis by (intro exI [of _ "\<lambda>ws. g (f ws)"]) simp
  qed
qed

text \<open>The state in which the engine calls a block: the context's address in \<open>RDI\<close>, the context
  in memory, one free word on the stack.\<close>

definition jit_entry :: "u64 \<Rightarrow> CPUContext \<Rightarrow> x86_state \<Rightarrow> bool" where
  "jit_entry p ctx st \<longleftrightarrow> ctx_wf ctx \<and> xs_reg st RDI = p \<and> int_slots p (xs_host st) = int_words ctx \<and>
     writable p ctx_bytes (xs_host st) \<and> writable (xs_reg st RSP - 8) 8 (xs_host st) \<and>
     disjoint_ranges (xs_reg st RSP - 8) 8 p ctx_bytes"

text \<open>What a block leaves: the integer words of the context \<open>ctx\<close>, the stack pointer of the
  caller, and all other memory as it was.\<close>

definition jit_exit :: "u64 \<Rightarrow> CPUContext \<Rightarrow> x86_state \<Rightarrow> x86_state \<Rightarrow> bool" where
  "jit_exit p ctx st st' \<longleftrightarrow> int_slots p (xs_host st') = int_words ctx \<and> xs_reg st' RSP = xs_reg st RSP \<and>
     jit_frame p (xs_reg st RSP) (xs_host st) (xs_host st')"

lemma block_asm_runs:
  assumes "jit_runs fl (concat (map (lower_asm fall) is) @ block_ret_asm fall) True f" "jit_entry p ctx st"
    and "\<And>x. snd (f (x, int_words ctx)) = int_words ctx'"
  shows "\<exists>st'. x86_exec fl (block_asm fall is) st = Some (True, st') \<and> jit_exit p ctx' st st'"
proof -
  let ?st = "set_reg R12 p st"
  have ready: "jit_ready p ?st" using assms(2) by (simp add: jit_entry_def jit_ready_def)
  from assms(1) ready obtain st' where st': "x86_exec fl (concat (map (lower_asm fall) is) @ block_ret_asm fall) ?st = Some (True, st')"
      "xs_reg st' RSP = xs_reg ?st RSP" "acc_slots p st' = f (acc_slots p ?st)"
      "jit_frame p (xs_reg ?st RSP) (xs_host ?st) (xs_host st')"
    unfolding jit_runs_def by blast
  from st'(3) assms(2,3) have "int_slots p (xs_host st') = int_words ctx'"
    by (auto simp: acc_slots_def jit_entry_def prod_eq_iff)
  with st' assms(2) show ?thesis
    by (simp add: block_asm_def jit_exit_def jit_entry_def)
qed

lemma block_asm_executes:
  assumes "\<forall>i\<in>set is. jit_ok i" and "jit_entry p ctx st"
  shows "\<exists>st'. x86_exec fl (block_asm fall is) st = Some (True, st') \<and> jit_exit p (ir_exec_block fall is ctx) st st'"
proof -
  obtain f where f: "jit_runs fl (concat (map (lower_asm fall) is) @ block_ret_asm fall) True f"
      "\<And>x. snd (f (x, int_words ctx)) = int_words (ir_exec_block fall is ctx)"
    using jit_runs_block [OF assms(1)] assms(2) unfolding jit_entry_def by blast
  show ?thesis by (rule block_asm_runs [OF f(1) assms(2) f(2)])
qed

lemma block_code_executes:
  assumes "decodes_to code (block_asm fall is)" and "\<forall>i\<in>set is. jit_ok i" and "jit_entry p ctx st" and "length code \<le> n"
  shows "\<exists>st'. x86_run fl n (code @ rest) st = Some st' \<and> jit_exit p (ir_exec_block fall is ctx) st st'"
  using block_asm_executes [OF assms(2,3)] x86_run_exec [OF assms(1) _ assms(4)] by blast

subsection \<open>A concrete machine\<close>

lemma unat_add_of_nat: "unat a + k < 2 ^ 64 \<Longrightarrow> unat (a + of_nat k) = unat a + k" for a :: u64
  by (simp add: unat_word_ariths unsigned_of_nat take_bit_nat_eq_self)

lemma disjoint_rangesI:
  assumes "unat a + m \<le> unat b" "unat b + n \<le> 2 ^ 64"
  shows "disjoint_ranges a m b n"
proof -
  have False if "k < m" "l < n" "a + of_nat k = b + of_nat l" for k l
  proof -
    have "unat (a + of_nat k) = unat a + k" "unat (b + of_nat l) = unat b + l"
      using that assms by (intro unat_add_of_nat; linarith)+
    with that assms(1) show False by simp
  qed
  then show ?thesis by (auto simp: disjoint_ranges_def mem_addrs)
qed

text \<open>All memory zero and writable, the context at 0x10000, the stack below 0x8000.\<close>

definition demo_host :: host where
  "demo_host = \<lparr>h_byte = (\<lambda>_. 0), h_prot = (\<lambda>_. Some 3)\<rparr>"

definition demo_x86 :: x86_state where
  "demo_x86 = \<lparr>xs_reg = (\<lambda>_. 0)(RDI := 0x10000, RSP := 0x8000), xs_flags = 0, xs_host = demo_host\<rparr>"

lemma demo_writable: "writable p n demo_host"
  by (simp add: writable_def list_all_iff can_write_def demo_host_def PROT_WRITE_def)

lemma demo_slots: "int_slots p demo_host = int_words CPUContext_init"
proof -
  have "get_slot p i demo_host = 0" for i
    by (simp add: get_slot_def demo_host_def addrs_def upt_rec le_word_def)
  then have "int_slots p demo_host = replicate 34 0" by (simp add: int_slots_def map_replicate_const)
  also have "\<dots> = int_words CPUContext_init" by (simp add: int_words_def CPUContext_init_def numeral_eq_Suc)
  finally show ?thesis .
qed

lemma demo_jit_entry: "jit_entry 0x10000 CPUContext_init demo_x86"
proof -
  have "disjoint_ranges 0x7FF8 8 0x10000 ctx_bytes" by (rule disjoint_rangesI) (simp_all add: ctx_bytes_def)
  moreover have "ctx_wf CPUContext_init" by (simp add: ctx_wf_def CPUContext_init_def)
  moreover have "RDI \<noteq> RSP" by (simp add: reg_defs)
  ultimately show ?thesis by (simp add: jit_entry_def demo_x86_def demo_writable demo_slots)
qed

section \<open>Properties\<close>

text \<open>C5: The machine code of a block of supported instructions (RET is not one), called with a context in memory,
  returns; it leaves in the context exactly the integer registers, stack pointer, program counter
  and link register that the intermediate representation prescribes (the end of the block sets
  \<open>pc\<close> to a jump's target or to the fall-through address), gives the caller's stack pointer back,
  and changes no byte of memory outside the context's integer words, its flag word, its scratch
  words and the word below the stack pointer.  This holds for every behaviour of the
  processor's flags.\<close>

theorem lowered_block_executes:
  assumes "\<forall>i\<in>set (b_instructions block). jit_ok i" and "emitter_wf e"
    and "200 * length (b_instructions block) + 22 \<le> emit_room e" and "jit_entry p ctx st"
  shows "\<exists>e' code st'. lower_block block fall e = Some (True, e') \<and> emitted e' = emitted e @ code \<and>
    x86_run fl (length code) code st = Some st' \<and>
    jit_exit p (ir_exec_block fall (b_instructions block) ctx) st st'"
proof -
  have "\<forall>i\<in>set (b_instructions block). encodable i" using assms(1) jit_ok_encodable by blast
  then obtain f where f: "assembles f (200 * length (b_instructions block) + 22) (block_asm fall (b_instructions block))"
      "\<And>e. lower_block block fall e = Some (True, f e)"
    using lower_block_assembles unfolding assembles_opt_def by blast
  then obtain code where "emitted (f e) = emitted e @ code" "decodes_to code (block_asm fall (b_instructions block))"
    using assembles_emitted [OF f(1) assms(2,3)] by blast
  with f(2) block_code_executes [OF this(2) assms(1,4) order_refl, of fl "[]"] show ?thesis by auto
qed

theorem lowered_block_executes_witness:
  "let e = set_buffer (Some (replicate 1000 0)) 1000 X86_64Emitter_init;
       block = IRBlock_init\<lparr>b_instructions := [IRInst_init\<lparr>i_op := Op_ADD, i_dest := 1, i_src1 := 2,
                 i_src2 := IR_IMM, i_imm := 5\<rparr>]\<rparr>
   in \<exists>e' code st'. lower_block block 0x1004 e = Some (True, e') \<and> emitted e' = code \<and>
        x86_run (\<lambda>_ _. 2) (length code) code demo_x86 = Some st' \<and>
        get_slot 0x10000 1 (xs_host st') = 5 \<and> get_slot 0x10000 32 (xs_host st') = 0x1004"
proof -
  let ?e = "set_buffer (Some (replicate 1000 0)) 1000 X86_64Emitter_init"
  let ?block = "IRBlock_init\<lparr>b_instructions := [IRInst_init\<lparr>i_op := Op_ADD, i_dest := 1, i_src1 := 2,
                 i_src2 := IR_IMM, i_imm := 5\<rparr>]\<rparr>"
  let ?ctx = "ir_exec_block 0x1004 (b_instructions ?block) CPUContext_init"
  have "\<forall>i\<in>set (b_instructions ?block). jit_ok i"
    by (simp add: jit_ok_def alu_operand_ok_def)
  moreover have "emitter_wf ?e" "200 * length (b_instructions ?block) + 22 \<le> emit_room ?e" "emitted ?e = []"
    by (simp_all add: emitter_view set_buffer_def X86_64Emitter_init_def)
  ultimately obtain e' code st' where r: "lower_block ?block 0x1004 ?e = Some (True, e')" "emitted e' = code"
      "x86_run (\<lambda>_ _. 2) (length code) code demo_x86 = Some st'" "jit_exit 0x10000 ?ctx demo_x86 st'"
    using lowered_block_executes [where block = ?block and e = ?e and p = "0x10000" and ctx = CPUContext_init and
      st = demo_x86 and fall = "0x1004" and fl = "\<lambda>_ _. 2"] demo_jit_entry
    by auto
  have "int_words ?ctx ! 1 = 5" "int_words ?ctx ! 32 = 0x1004"
    by (simp_all add: ir_exec_def ir_get_def ir_set_def ir_operand_def cpu_context_get_reg_def cpu_context_set_reg_def
      int_words_def CPUContext_init_def nth_append IRInst_init_def)
  with r(4) have "get_slot 0x10000 1 (xs_host st') = 5" "get_slot 0x10000 32 (xs_host st') = 0x1004"
    by (simp_all add: jit_exit_def int_slots_nth)
  with r show ?thesis unfolding Let_def by blast
qed

end
