(* ===== verification/Translation_Cache.thy ===== *)
theory Translation_Cache
  imports Prelude "HOL-Library.AList"
begin

text \<open>
  The translation cache and block chaining (\<^verbatim>\<open>src/src/cache/translation_cache.hpp\<close>,
  \<^verbatim>\<open>translation_cache.cpp\<close>, \<^verbatim>\<open>block_chaining.cpp\<close>).  The hash map is an association list with
  distinct keys; a pointer to an entry is the entry's value.  Host addresses are 64-bit words,
  0 is the null pointer; the memory behind them is a function from addresses to bytes where
  an operation writes it.  What \<open>mmap\<close>, \<open>open\<close> and \<open>write\<close> answer is a parameter.
\<close>

section \<open>Data\<close>

record BlockInfo =
  bi_arm_pc :: u64
  bi_host_code :: u64
  bi_host_code_size :: u32
  bi_arm_instr_count :: u32
  bi_chain_slots :: "u64 \<times> u64"
  bi_hit_count :: u64
  bi_last_access :: u64
  bi_is_valid :: bool
  bi_is_hot :: bool

definition BlockInfo_init :: BlockInfo where
  "BlockInfo_init = \<lparr>bi_arm_pc = 0, bi_host_code = 0, bi_host_code_size = 0, bi_arm_instr_count = 0,
     bi_chain_slots = (0, 0), bi_hit_count = 0, bi_last_access = 0, bi_is_valid = True, bi_is_hot = False\<rparr>"

definition DEFAULT_CODE_POOL_SIZE :: u64 where "DEFAULT_CODE_POOL_SIZE = 64 * 1024 * 1024"
definition HOT_THRESHOLD :: u64 where "HOT_THRESHOLD = 100"

record TranslationCache =
  tc_block_map :: "(u64 \<times> BlockInfo) list"
  tc_capacity :: nat
  tc_code_pool :: u64
  tc_code_pool_size :: u64
  tc_code_pool_used :: u64
  tc_access_counter :: u64

definition TranslationCache_init :: "nat \<Rightarrow> TranslationCache" where
  "TranslationCache_init initial_capacity =
     \<lparr>tc_block_map = [], tc_capacity = initial_capacity, tc_code_pool = 0,
      tc_code_pool_size = DEFAULT_CODE_POOL_SIZE, tc_code_pool_used = 0, tc_access_counter = 0\<rparr>"

text \<open>\<open>init\<close>: the answer of \<open>mmap\<close> is \<^const>\<open>None\<close> for \<open>MAP_FAILED\<close>.\<close>

definition cache_init :: "u64 option \<Rightarrow> TranslationCache \<Rightarrow> bool \<times> TranslationCache" where
  "cache_init mapped tc = (case mapped of
      None \<Rightarrow> (False, tc\<lparr>tc_code_pool := 0\<rparr>)
    | Some p \<Rightarrow> (True, tc\<lparr>tc_code_pool := p\<rparr>))"

section \<open>Lookup, insertion, eviction\<close>

definition lookup :: "u64 \<Rightarrow> TranslationCache \<Rightarrow> BlockInfo option \<times> TranslationCache" where
  "lookup arm_pc tc = (case map_of (tc_block_map tc) arm_pc of
      None \<Rightarrow> (None, tc)
    | Some info \<Rightarrow>
        if bi_is_valid info
        then let counter = tc_access_counter tc + 1;
                 info = info\<lparr>bi_hit_count := bi_hit_count info + 1, bi_last_access := counter\<rparr>;
                 info = (if bi_hit_count info \<ge> HOT_THRESHOLD then info\<lparr>bi_is_hot := True\<rparr> else info)
             in (Some info, tc\<lparr>tc_access_counter := counter,
                   tc_block_map := AList.update arm_pc info (tc_block_map tc)\<rparr>)
        else (None, tc))"

text \<open>The scan of \<open>evict_cold\<close>: \<open>(min_access, evict_pc, found)\<close>.\<close>

fun evict_scan :: "(u64 \<times> BlockInfo) list \<Rightarrow> u64 \<times> u64 \<times> bool \<Rightarrow> u64 \<times> u64 \<times> bool" where
  "evict_scan [] acc = acc"
| "evict_scan ((pc, info) # rest) (min_access, evict_pc, found) =
     (if \<not> bi_is_hot info \<and> bi_is_valid info \<and> bi_last_access info < min_access
      then evict_scan rest (bi_last_access info, pc, True)
      else evict_scan rest (min_access, evict_pc, found))"

definition evict_cold :: "TranslationCache \<Rightarrow> TranslationCache" where
  "evict_cold tc = (case evict_scan (tc_block_map tc) (- 1, 0, False) of
     (_, evict_pc, found) \<Rightarrow>
       if found then tc\<lparr>tc_block_map := AList.delete evict_pc (tc_block_map tc)\<rparr> else tc)"

definition insert_block :: "u64 \<Rightarrow> u64 \<Rightarrow> u32 \<Rightarrow> u32 \<Rightarrow> TranslationCache \<Rightarrow> bool \<times> TranslationCache" where
  "insert_block arm_pc host_code host_code_size arm_instr_count tc =
     (let tc = (if length (tc_block_map tc) \<ge> tc_capacity tc then evict_cold tc else tc);
          counter = tc_access_counter tc + 1;
          info = BlockInfo_init\<lparr>bi_arm_pc := arm_pc, bi_host_code := host_code,
            bi_host_code_size := host_code_size, bi_arm_instr_count := arm_instr_count,
            bi_is_valid := True, bi_last_access := counter, bi_hit_count := 0\<rparr>
      in (True, tc\<lparr>tc_access_counter := counter,
            tc_block_map := AList.update arm_pc info (tc_block_map tc)\<rparr>))"

definition invalidate :: "u64 \<Rightarrow> TranslationCache \<Rightarrow> TranslationCache" where
  "invalidate arm_pc tc = (case map_of (tc_block_map tc) arm_pc of
      None \<Rightarrow> tc
    | Some info \<Rightarrow> tc\<lparr>tc_block_map := AList.update arm_pc (info\<lparr>bi_is_valid := False\<rparr>) (tc_block_map tc)\<rparr>)"

definition invalidate_range :: "u64 \<Rightarrow> u64 \<Rightarrow> TranslationCache \<Rightarrow> TranslationCache" where
  "invalidate_range start stop tc = tc\<lparr>tc_block_map :=
     map (\<lambda>(pc, info). (pc, if pc \<ge> start \<and> pc < stop then info\<lparr>bi_is_valid := False\<rparr> else info))
       (tc_block_map tc)\<rparr>"

definition alloc_host_code :: "u64 \<Rightarrow> TranslationCache \<Rightarrow> u64 option \<times> TranslationCache" where
  "alloc_host_code sz tc =
     (if tc_code_pool_used tc + sz > tc_code_pool_size tc
      then let tc = evict_cold tc in
           if tc_code_pool_used tc + sz > tc_code_pool_size tc then (None, tc)
           else (Some (tc_code_pool tc + tc_code_pool_used tc),
                 tc\<lparr>tc_code_pool_used := tc_code_pool_used tc + sz\<rparr>)
      else (Some (tc_code_pool tc + tc_code_pool_used tc),
            tc\<lparr>tc_code_pool_used := tc_code_pool_used tc + sz\<rparr>))"

definition promote_hot :: "u64 \<Rightarrow> TranslationCache \<Rightarrow> TranslationCache" where
  "promote_hot arm_pc tc = (case map_of (tc_block_map tc) arm_pc of
      None \<Rightarrow> tc
    | Some info \<Rightarrow> tc\<lparr>tc_block_map := AList.update arm_pc
        (info\<lparr>bi_is_hot := True, bi_hit_count := HOT_THRESHOLD\<rparr>) (tc_block_map tc)\<rparr>)"

definition hot_block_count :: "TranslationCache \<Rightarrow> nat" where
  "hot_block_count tc = length (filter (\<lambda>(pc, info). bi_is_hot info) (tc_block_map tc))"

section \<open>The on-disk cache\<close>

definition hex_digit :: "nat \<Rightarrow> char" where
  "hex_digit n = ''0123456789abcdef'' ! n"

definition hex16 :: "u64 \<Rightarrow> string" where
  "hex16 w = map (\<lambda>i. hex_digit (unat (drop_bit (4 * (15 - i)) w AND 0xF))) [0..<16]"

text \<open>\<open>snprintf\<close> into 512 bytes: at most 511 characters are kept.\<close>

definition aot_path :: "string \<Rightarrow> u64 \<Rightarrow> string" where
  "aot_path aot_dir arm_pc = take 511 (aot_dir @ ''/'' @ hex16 arm_pc @ ''.fae'')"

definition AOT_MAGIC :: u32 where "AOT_MAGIC = 0x46414543"

text \<open>
  Files are byte lists under their path.  \<open>can_open\<close> is the answer of \<open>open\<close> for writing and
  \<open>written k bs\<close> how many bytes of \<open>bs\<close> the \<open>k\<close>-th call of \<open>write\<close> stores; the code ignores
  both that count and the result of \<open>mkdir\<close>.
\<close>

type_synonym file_system = "string \<Rightarrow> u8 list option"

definition save_aot_block ::
  "(string \<Rightarrow> bool) \<Rightarrow> (nat \<Rightarrow> u8 list \<Rightarrow> nat) \<Rightarrow> u64 \<Rightarrow> u8 list \<Rightarrow> u32 \<Rightarrow> u32 \<Rightarrow> string \<Rightarrow>
   file_system \<Rightarrow> bool \<times> file_system" where
  "save_aot_block can_open written arm_pc host_code host_code_size arm_instr_count aot_dir fs =
     (let path = aot_path aot_dir arm_pc;
          wr = (\<lambda>k bs. take (written k bs) bs)
      in if \<not> can_open path then (False, fs)
         else (True, fs(path \<mapsto> wr 0 (le_bytes 4 AOT_MAGIC) @ wr 1 (le_bytes 8 arm_pc) @
                 wr 2 (le_bytes 4 host_code_size) @ wr 3 (le_bytes 4 arm_instr_count) @
                 wr 4 (take (unat host_code_size) host_code))))"

text \<open>
  The result of \<open>load_aot_block\<close> is \<open>Some (Some (size, count, code))\<close> for a pointer to the loaded
  code, \<open>Some None\<close> for the null pointer.  A file that ends inside the address or the size leaves the
  variable it is read into indeterminate, which is \<^const>\<open>None\<close>; a count that is not read matters only for
  empty code.
\<close>

definition load_aot_block ::
  "(u32 \<Rightarrow> bool) \<Rightarrow> u64 \<Rightarrow> string \<Rightarrow> file_system \<Rightarrow> (u32 \<times> u32 \<times> u8 list) option option" where
  "load_aot_block can_map arm_pc aot_dir fs = (case fs (aot_path aot_dir arm_pc) of
      None \<Rightarrow> Some None
    | Some bytes \<Rightarrow>
        if length bytes < 4 \<or> le_word (take 4 bytes) \<noteq> AOT_MAGIC then Some None
        else if length bytes < 12 then None
        else let stored_pc = (le_word (take 8 (drop 4 bytes)) :: u64);
                 host_size = (le_word (take 4 (drop 12 bytes)) :: u32);
                 instr_count = (le_word (take 4 (drop 16 bytes)) :: u32)
             in if stored_pc \<noteq> arm_pc then Some None
                else if length bytes < 16 then None
                else if \<not> can_map host_size then Some None
                else let code = take (unat host_size) (drop 20 bytes)
                     in if length code \<noteq> unat host_size then Some None
                        else if length bytes < 20 then None
                        else Some (Some (host_size, instr_count, code)))"

section \<open>Block chaining\<close>

text \<open>
  \<open>patch_chain_slot\<close> writes a five-byte jump into the block's code; \<open>host_code_size - 10\<close> is
  computed in 32 bits before it is widened to \<open>size_t\<close>.
\<close>

type_synonym host_memory = "u64 \<Rightarrow> u8"

definition poke_bytes :: "u64 \<Rightarrow> u8 list \<Rightarrow> host_memory \<Rightarrow> host_memory" where
  "poke_bytes a bs m = fold (\<lambda>(i, b) m. m(a + of_nat i := b)) (enumerate 0 bs) m"

definition patch_chain_slot ::
  "BlockInfo option \<Rightarrow> int \<Rightarrow> u64 \<Rightarrow> host_memory \<Rightarrow> bool \<times> BlockInfo option \<times> host_memory" where
  "patch_chain_slot block slot target_addr m = (case block of
      None \<Rightarrow> (False, None, m)
    | Some b \<Rightarrow>
        if slot < 0 \<or> slot > 1 then (False, Some b, m)
        else let chain_offset = (ucast (bi_host_code_size b - 10) :: u64);
                 chain_offset = (if slot = 1 then chain_offset + 5 else chain_offset);
                 slot_ptr = bi_host_code b + chain_offset;
                 rel = (ucast (target_addr - (slot_ptr + 5)) :: u32);
                 m = poke_bytes (slot_ptr + 1) (le_bytes 4 rel) (m(slot_ptr := 0xE9));
                 slots = bi_chain_slots b
             in (True, Some (b\<lparr>bi_chain_slots :=
                   (if slot = 0 then (target_addr, snd slots) else (fst slots, target_addr))\<rparr>), m))"

definition try_chain_block ::
  "BlockInfo option \<Rightarrow> int \<Rightarrow> u64 \<Rightarrow> TranslationCache \<Rightarrow> host_memory \<Rightarrow>
   bool \<times> BlockInfo option \<times> TranslationCache \<times> host_memory" where
  "try_chain_block block slot target_pc tc m = (case lookup target_pc tc of
      (None, tc) \<Rightarrow> (False, block, tc, m)
    | (Some target, tc) \<Rightarrow>
        if bi_is_valid target
        then let (r, block, m) = patch_chain_slot block slot (bi_host_code target) m in (r, block, tc, m)
        else (False, block, tc, m))"

section \<open>The block-store interface\<close>

text \<open>
  What the execution engine relies on: an insertion is found, removals hide what they hit, and
  no operation makes up a block.  \<open>touch\<close> stands for the operations that may forget blocks but
  never change or add one.
\<close>

datatype ('k, 'v, 'd, 't) store_op = Ins 'k 'v | Kill 'd | Touch 't

locale block_store =
  fixes find :: "'s \<Rightarrow> 'k \<Rightarrow> 'v option"
    and ins :: "'k \<Rightarrow> 'v \<Rightarrow> 's \<Rightarrow> 's"
    and kill :: "'d \<Rightarrow> 's \<Rightarrow> 's"
    and hits :: "'d \<Rightarrow> 'k \<Rightarrow> bool"
    and touch :: "'t \<Rightarrow> 's \<Rightarrow> 's"
  assumes find_ins_same: "find (ins k v s) k = Some v"
    and find_ins_other: "k' \<noteq> k \<Longrightarrow> find (ins k v s) k' = Some w \<Longrightarrow> find s k' = Some w"
    and find_kill: "find (kill d s) k = (if hits d k then None else find s k)"
    and find_touch: "find (touch t s) k = Some w \<Longrightarrow> find s k = Some w"
begin

fun run_op :: "('k, 'v, 'd, 't) store_op \<Rightarrow> 's \<Rightarrow> 's" where
  "run_op (Ins k v) s = ins k v s"
| "run_op (Kill d) s = kill d s"
| "run_op (Touch t) s = touch t s"

text \<open>The value of the last insertion under a key that no later removal hits.\<close>

fun live :: "('k, 'v, 'd, 't) store_op list \<Rightarrow> 'k \<Rightarrow> 'v option \<Rightarrow> 'v option" where
  "live [] k v = v"
| "live (Ins k' v' # ops) k v = live ops k (if k' = k then Some v' else v)"
| "live (Kill d # ops) k v = live ops k (if hits d k then None else v)"
| "live (Touch t # ops) k v = live ops k v"

lemma live_default: "live ops k None = Some w \<Longrightarrow> live ops k v = Some w"
proof (induction ops arbitrary: v)
  case (Cons op ops)
  then show ?case by (cases op) (auto split: if_splits)
qed simp

lemma found_is_live: "find (fold run_op ops s) k = Some w \<Longrightarrow> live ops k (find s k) = Some w"
proof (induction ops arbitrary: s)
  case (Cons op ops)
  then have IH: "live ops k (find (run_op op s) k) = Some w" by simp
  show ?case
  proof (cases op)
    case (Ins k' v')
    show ?thesis
    proof (cases "k' = k")
      case False
      have "live ops k (find s k) = Some w"
      proof (cases "find (ins k' v' s) k")
        case None
        with IH Ins show ?thesis by (auto intro: live_default)
      next
        case (Some x)
        with find_ins_other [OF False [symmetric] Some] IH Ins show ?thesis by simp
      qed
      with False Ins show ?thesis by simp
    qed (use IH Ins find_ins_same in simp)
  next
    case (Touch t)
    show ?thesis
    proof (cases "find (touch t s) k")
      case None
      with IH Touch show ?thesis by (auto intro: live_default)
    next
      case (Some x)
      with find_touch [OF Some] IH Touch show ?thesis by simp
    qed
  qed (use IH find_kill in \<open>auto split: if_splits\<close>)
qed simp

end

text \<open>The cache as such a store: what is found is a valid block's code pointer, size and
  instruction count.\<close>

definition cache_find :: "TranslationCache \<Rightarrow> u64 \<Rightarrow> (u64 \<times> u32 \<times> u32) option" where
  "cache_find tc pc = (case map_of (tc_block_map tc) pc of
      None \<Rightarrow> None
    | Some info \<Rightarrow> if bi_is_valid info
        then Some (bi_host_code info, bi_host_code_size info, bi_arm_instr_count info) else None)"

definition cache_ins :: "u64 \<Rightarrow> u64 \<times> u32 \<times> u32 \<Rightarrow> TranslationCache \<Rightarrow> TranslationCache" where
  "cache_ins pc v tc = (case v of (code, sz, n) \<Rightarrow> snd (insert_block pc code sz n tc))"

datatype cache_kill = KillOne u64 | KillRange u64 u64
datatype cache_touch = DoLookup u64 | DoPromote u64 | DoAlloc u64 | DoEvict

fun cache_kill_run :: "cache_kill \<Rightarrow> TranslationCache \<Rightarrow> TranslationCache" where
  "cache_kill_run (KillOne pc) tc = invalidate pc tc"
| "cache_kill_run (KillRange a b) tc = invalidate_range a b tc"

fun cache_kill_hits :: "cache_kill \<Rightarrow> u64 \<Rightarrow> bool" where
  "cache_kill_hits (KillOne pc) q = (q = pc)"
| "cache_kill_hits (KillRange a b) q = (a \<le> q \<and> q < b)"

fun cache_touch_run :: "cache_touch \<Rightarrow> TranslationCache \<Rightarrow> TranslationCache" where
  "cache_touch_run (DoLookup pc) tc = snd (lookup pc tc)"
| "cache_touch_run (DoPromote pc) tc = promote_hot pc tc"
| "cache_touch_run (DoAlloc sz) tc = snd (alloc_host_code sz tc)"
| "cache_touch_run DoEvict tc = evict_cold tc"

lemma map_of_map_info: "map_of (map (\<lambda>(pc, info). (pc, f pc info)) xs) k = map_option (f k) (map_of xs k)"
  by (induction xs) auto

lemma cache_find_evict: "cache_find (evict_cold tc) k = Some w \<Longrightarrow> cache_find tc k = Some w"
  by (auto simp: cache_find_def evict_cold_def delete_conv' split: prod.splits if_splits option.splits)

lemma cache_find_alloc: "cache_find (snd (alloc_host_code sz tc)) k = Some w \<Longrightarrow> cache_find tc k = Some w"
proof -
  have "cache_find (tc'\<lparr>tc_code_pool_used := u\<rparr>) k = cache_find tc' k" for tc' u
    by (simp add: cache_find_def)
  then show "cache_find (snd (alloc_host_code sz tc)) k = Some w \<Longrightarrow> cache_find tc k = Some w"
    by (auto simp: alloc_host_code_def Let_def dest: cache_find_evict split: if_splits)
qed

lemma cache_find_lookup: "cache_find (snd (lookup pc tc)) k = cache_find tc k"
  by (auto simp: cache_find_def lookup_def Let_def update_conv' split: option.splits)

lemma cache_find_promote: "cache_find (promote_hot pc tc) k = cache_find tc k"
  by (auto simp: cache_find_def promote_hot_def update_conv' split: option.splits)

lemma cache_find_kill: "cache_find (cache_kill_run d tc) k = (if cache_kill_hits d k then None else cache_find tc k)"
  by (cases d) (auto simp: cache_find_def invalidate_def invalidate_range_def update_conv' map_of_map_info
    split: option.splits)

lemma cache_find_ins:
  "cache_find (cache_ins k v tc) k' =
     (if k' = k then Some v
      else cache_find (if length (tc_block_map tc) \<ge> tc_capacity tc then evict_cold tc else tc) k')"
  by (auto simp: cache_find_def cache_ins_def insert_block_def Let_def update_conv' split: prod.splits)

interpretation cache: block_store cache_find cache_ins cache_kill_run cache_kill_hits cache_touch_run
proof unfold_locales
  fix k' k v w tc
  show "k' \<noteq> k \<Longrightarrow> cache_find (cache_ins k v tc) k' = Some w \<Longrightarrow> cache_find tc k' = Some w"
    by (auto simp: cache_find_ins dest: cache_find_evict split: if_splits)
next
  fix t tc k w
  show "cache_find (cache_touch_run t tc) k = Some w \<Longrightarrow> cache_find tc k = Some w"
    by (cases t) (auto simp: cache_find_lookup cache_find_promote dest: cache_find_alloc cache_find_evict)
qed (simp_all add: cache_find_ins cache_find_kill)

lemma lookup_find: "map_option (\<lambda>i. (bi_host_code i, bi_host_code_size i, bi_arm_instr_count i)) (fst (lookup pc tc)) =
    cache_find tc pc"
  by (auto simp: cache_find_def lookup_def Let_def split: option.splits)

section \<open>Eviction, allocation and the disk format\<close>

definition evictable :: "BlockInfo \<Rightarrow> bool" where
  "evictable info \<longleftrightarrow> \<not> bi_is_hot info \<and> bi_is_valid info"

lemma evict_scan_result:
  assumes "evict_scan xs (a, p, f) = (a', p', f')"
  shows "(a' = a \<and> p' = p \<and> f' = f \<and> (\<forall>(q, i)\<in>set xs. evictable i \<longrightarrow> a \<le> bi_last_access i)) \<or>
    (f' \<and> a' < a \<and> (\<exists>i. (p', i) \<in> set xs \<and> evictable i \<and> bi_last_access i = a') \<and>
      (\<forall>(q, i)\<in>set xs. evictable i \<longrightarrow> a' \<le> bi_last_access i))"
  using assms
proof (induction xs arbitrary: a p f)
  case (Cons x xs)
  obtain q i where x: "x = (q, i)" by (cases x)
  show ?case
  proof (cases "evictable i \<and> bi_last_access i < a")
    case True
    with Cons.prems x have "evict_scan xs (bi_last_access i, q, True) = (a', p', f')"
      by (simp add: evictable_def)
    from Cons.IH [OF this] True x show ?thesis by auto
  next
    case False
    then have "evict_scan xs (a, p, f) = (a', p', f')"
      using Cons.prems x by (auto simp: evictable_def split: if_splits)
    from Cons.IH [OF this] False x show ?thesis by fastforce
  qed
qed simp

lemma evict_cold_none:
  assumes "\<forall>(q, i)\<in>set (tc_block_map tc). \<not> evictable i"
  shows "evict_cold tc = tc"
proof -
  obtain a p f where s: "evict_scan (tc_block_map tc) (- 1, 0, False) = (a, p, f)"
    by (metis prod_cases3)
  from evict_scan_result [OF s] assms have "\<not> f" by fastforce
  with s show ?thesis by (simp add: evict_cold_def)
qed

text \<open>The sequence of grants of a list of requests: the offset into the pool and the size of each
  request that was granted.\<close>

fun alloc_grants :: "u64 list \<Rightarrow> TranslationCache \<Rightarrow> (nat \<times> nat) list" where
  "alloc_grants [] tc = []"
| "alloc_grants (sz # szs) tc = (case alloc_host_code sz tc of
     (None, tc') \<Rightarrow> alloc_grants szs tc'
   | (Some ptr, tc') \<Rightarrow> (unat (ptr - tc_code_pool tc), unat sz) # alloc_grants szs tc')"

lemma evict_cold_frame [simp]:
  "tc_code_pool (evict_cold tc) = tc_code_pool tc"
  "tc_code_pool_size (evict_cold tc) = tc_code_pool_size tc"
  "tc_code_pool_used (evict_cold tc) = tc_code_pool_used tc"
  "tc_access_counter (evict_cold tc) = tc_access_counter tc"
  "tc_capacity (evict_cold tc) = tc_capacity tc"
  by (simp_all add: evict_cold_def split: prod.splits)

lemma alloc_host_code_cases:
  "alloc_host_code sz tc =
     (if tc_code_pool_used tc + sz > tc_code_pool_size tc then (None, evict_cold tc)
      else (Some (tc_code_pool tc + tc_code_pool_used tc),
            tc\<lparr>tc_code_pool_used := tc_code_pool_used tc + sz\<rparr>))"
  by (simp add: alloc_host_code_def Let_def)

lemma alloc_grants_layout:
  assumes "tc_code_pool_used tc \<le> tc_code_pool_size tc" "unat (tc_code_pool_size tc) < 2 ^ 63"
    "\<forall>sz\<in>set szs. unat sz < 2 ^ 63"
  shows "sorted_wrt (\<lambda>(o1, n1) (o2, n2). o1 + n1 \<le> o2) (alloc_grants szs tc) \<and>
    (\<forall>(off, n)\<in>set (alloc_grants szs tc).
       unat (tc_code_pool_used tc) \<le> off \<and> off + n \<le> unat (tc_code_pool_size tc))"
  using assms
proof (induction szs arbitrary: tc)
  case (Cons sz szs)
  show ?case
  proof (cases "tc_code_pool_used tc + sz > tc_code_pool_size tc")
    case True
    with Cons.prems Cons.IH [of "evict_cold tc"] show ?thesis
      by (simp add: alloc_host_code_cases)
  next
    case False
    let ?tc = "tc\<lparr>tc_code_pool_used := tc_code_pool_used tc + sz\<rparr>"
    have "unat (tc_code_pool_used tc) + unat sz < 2 ^ 64"
      using Cons.prems by (auto simp: word_le_nat_alt)
    then have u: "unat (tc_code_pool_used tc + sz) = unat (tc_code_pool_used tc) + unat sz"
      by (simp add: unat_plus_if')
    from Cons.prems False Cons.IH [of ?tc]
    have IH: "sorted_wrt (\<lambda>(o1, n1) (o2, n2). o1 + n1 \<le> o2) (alloc_grants szs ?tc)"
      "\<forall>(off, n)\<in>set (alloc_grants szs ?tc).
         unat (tc_code_pool_used tc) + unat sz \<le> off \<and> off + n \<le> unat (tc_code_pool_size tc)"
      by (simp_all add: u)
    moreover have "unat (tc_code_pool_used tc) + unat sz \<le> unat (tc_code_pool_size tc)"
      using False u by (simp add: word_less_nat_alt not_less)
    ultimately show ?thesis using False by (fastforce simp: alloc_host_code_cases)
  qed
qed simp

lemma hex_digit_inj: "m < 16 \<Longrightarrow> n < 16 \<Longrightarrow> hex_digit m = hex_digit n \<Longrightarrow> m = n"
  using nth_eq_iff_index_eq [of "''0123456789abcdef''" m n] by (simp add: hex_digit_def)

lemma unat_nibble: "unat (w AND 0xF) < 16" for w :: u64
proof -
  have "w AND 0xF = take_bit 4 w" by (simp add: take_bit_eq_mask mask_eq_decr_exp)
  then show ?thesis by (simp add: unsigned_take_bit_eq take_bit_nat_less_exp [of 4, simplified])
qed

lemma hex16_inj:
  assumes "hex16 v = hex16 w"
  shows "v = w"
proof (rule bit_word_eqI)
  fix n assume n: "n < LENGTH(64)"
  let ?i = "15 - n div 4"
  have "hex16 v ! ?i = hex16 w ! ?i" using assms by simp
  then have "unat (drop_bit (4 * (n div 4)) v AND 0xF) = unat (drop_bit (4 * (n div 4)) w AND 0xF)"
    using n unat_nibble by (auto simp: hex16_def dest!: hex_digit_inj [rotated 2])
  then have "bit (drop_bit (4 * (n div 4)) v AND 0xF) (n mod 4) = bit (drop_bit (4 * (n div 4)) w AND 0xF) (n mod 4)"
    by simp
  moreover have "bit (0xF :: u64) (n mod 4)"
  proof -
    have "(0xF :: u64) = mask 4" by (simp add: mask_eq_decr_exp)
    moreover have "n mod 4 < 4" by simp
    ultimately show ?thesis unfolding \<open>0xF = mask 4\<close> bit_mask_iff by simp
  qed
  ultimately show "bit v n = bit w n" by (simp add: bit_and_iff bit_drop_bit_eq)
qed

lemma aot_path_inj:
  assumes "length dir \<le> 490" "aot_path dir pc = aot_path dir pc'"
  shows "pc = pc'"
proof -
  have l: "length (hex16 w) = 16" for w by (simp add: hex16_def)
  have "aot_path dir w = dir @ ''/'' @ hex16 w @ ''.fae''" for w
    using assms(1) l [of w] by (simp add: aot_path_def)
  with assms(2) have "hex16 pc = hex16 pc'" by simp
  then show ?thesis by (rule hex16_inj)
qed

lemma poke_bytes_Cons: "poke_bytes a (b # bs) m = poke_bytes (a + 1) bs (m(a := b))"
proof -
  have "enumerate (Suc 0) bs = map (\<lambda>(k, d). (Suc k, d)) (enumerate 0 bs)"
    by (rule nth_equalityI) (simp_all add: nth_enumerate_eq)
  then show ?thesis by (simp add: poke_bytes_def fold_map comp_def case_prod_beta' add.assoc)
qed

lemma poke_bytes_Nil [simp]: "poke_bytes a [] m = m"
  by (simp add: poke_bytes_def)

lemma poke_bytes_4:
  "length bs = 4 \<Longrightarrow> poke_bytes a bs m = m(a := bs ! 0, a + 1 := bs ! 1, a + 2 := bs ! 2, a + 3 := bs ! 3)"
  by (auto simp: length_Suc_conv numeral_eq_Suc poke_bytes_Cons add.assoc)

section \<open>Properties\<close>

text \<open>C13: The cache never serves a stale translation: after any sequence of insertions,
  invalidations of one block or of a range, lookups, promotions, pool allocations and
  evictions on a new cache, a lookup that finds a block returns the code pointer, size and
  instruction count of the last insertion under that program counter, and no invalidation that
  covers it came after that insertion.\<close>

theorem lookup_never_stale:
  assumes "fst (lookup pc (fold cache.run_op ops (TranslationCache_init cap))) = Some info"
  shows "cache.live ops pc None = Some (bi_host_code info, bi_host_code_size info, bi_arm_instr_count info)"
proof -
  let ?tc = "fold cache.run_op ops (TranslationCache_init cap)"
  have "cache_find ?tc pc = Some (bi_host_code info, bi_host_code_size info, bi_arm_instr_count info)"
    using lookup_find [of pc ?tc] assms by simp
  from cache.found_is_live [OF this] show ?thesis
    by (simp add: cache_find_def TranslationCache_init_def)
qed

theorem lookup_never_stale_witness:
  "let ops = [Ins 0x1000 (7, 8, 2), Touch (DoLookup 0x1000), Ins 0x2000 (9, 10, 3), Kill (KillRange 0x2000 0x3000)]
   in cache.live ops 0x1000 None = Some (7, 8, 2) \<and>
      map_option bi_host_code (fst (lookup 0x1000 (fold cache.run_op ops (TranslationCache_init 4)))) = Some 7"
  using lookup_never_stale [of "0x1000" "[Ins 0x1000 (7, 8, 2), Touch (DoLookup 0x1000),
     Ins 0x2000 (9, 10, 3), Kill (KillRange 0x2000 0x3000)]" 4]
  by (simp add: cache_ins_def insert_block_def lookup_def Let_def TranslationCache_init_def
    BlockInfo_init_def HOT_THRESHOLD_def invalidate_range_def)

text \<open>Eviction removes exactly the least recently used block among the valid blocks that are not
  hot, and leaves the cache as it is when there is none; hot blocks are never evicted.\<close>

theorem evict_cold_lru:
  assumes "\<forall>(q, i)\<in>set (tc_block_map tc). bi_last_access i \<noteq> - 1"
  shows "if \<exists>(q, i)\<in>set (tc_block_map tc). evictable i
    then \<exists>pc info. (pc, info) \<in> set (tc_block_map tc) \<and> evictable info \<and>
      (\<forall>(q, i)\<in>set (tc_block_map tc). evictable i \<longrightarrow> bi_last_access info \<le> bi_last_access i) \<and>
      evict_cold tc = tc\<lparr>tc_block_map := AList.delete pc (tc_block_map tc)\<rparr>
    else evict_cold tc = tc"
proof -
  obtain a p f where s: "evict_scan (tc_block_map tc) (- 1, 0, False) = (a, p, f)"
    by (metis prod_cases3)
  show ?thesis
  proof (cases "\<exists>(q, i)\<in>set (tc_block_map tc). evictable i")
    case True
    then obtain q i where qi: "(q, i) \<in> set (tc_block_map tc)" "evictable i" by blast
    with assms have "bi_last_access i < - 1"
      by (metis (mono_tags, lifting) case_prodD word_order.not_eq_extremum)
    with qi evict_scan_result [OF s] have "f" "\<exists>i. (p, i) \<in> set (tc_block_map tc) \<and> evictable i \<and> bi_last_access i = a"
       "\<forall>(q, i)\<in>set (tc_block_map tc). evictable i \<longrightarrow> a \<le> bi_last_access i"
      by (auto simp: not_less [symmetric])
    with s True show ?thesis by (auto simp: evict_cold_def)
  next
    case False
    then show ?thesis using evict_cold_none [of tc] by auto
  qed
qed

theorem evict_cold_lru_witness:
  "let old = BlockInfo_init\<lparr>bi_last_access := 1\<rparr>; hot = BlockInfo_init\<lparr>bi_is_hot := True\<rparr>;
       tc = (TranslationCache_init 4)\<lparr>tc_block_map := [(0x10, hot), (0x20, BlockInfo_init\<lparr>bi_last_access := 5\<rparr>), (0x30, old)]\<rparr>
   in map fst (tc_block_map (evict_cold tc)) = [0x10, 0x20]"
  using evict_cold_lru [of "(TranslationCache_init 4)\<lparr>tc_block_map := [(0x10, BlockInfo_init\<lparr>bi_is_hot := True\<rparr>),
     (0x20, BlockInfo_init\<lparr>bi_last_access := 5\<rparr>), (0x30, BlockInfo_init\<lparr>bi_last_access := 1\<rparr>)]\<rparr>"]
  by (auto simp: BlockInfo_init_def evictable_def word_le_nat_alt)

text \<open>C30: The code pool hands out regions that lie inside the pool and do not overlap, whatever
  requests fail in between; a failed request evicts a block but gives no pool memory back.\<close>

theorem alloc_host_code_regions:
  assumes "tc = snd (cache_init (Some p) (TranslationCache_init cap))" and "\<forall>sz\<in>set szs. unat sz < 2 ^ 63"
  shows "sorted_wrt (\<lambda>(o1, n1) (o2, n2). o1 + n1 \<le> o2) (alloc_grants szs tc) \<and>
    (\<forall>(off, n)\<in>set (alloc_grants szs tc). off + n \<le> 64 * 1024 * 1024)"
  using alloc_grants_layout [of tc szs] assms
  by (auto simp: cache_init_def TranslationCache_init_def DEFAULT_CODE_POOL_SIZE_def)

theorem alloc_host_code_regions_witness:
  "alloc_grants [0x1000, 0x4000000, 0x10] (snd (cache_init (Some 0x7000) (TranslationCache_init 8))) =
     [(0, 0x1000), (0x1000, 0x10)] \<and>
   sorted_wrt (\<lambda>(o1, n1) (o2, n2). o1 + n1 \<le> o2)
     (alloc_grants [0x1000, 0x4000000, 0x10] (snd (cache_init (Some 0x7000) (TranslationCache_init 8))))"
  using alloc_host_code_regions [OF refl, of "[0x1000, 0x4000000, 0x10]" "0x7000" 8]
  by (simp add: alloc_host_code_cases cache_init_def TranslationCache_init_def DEFAULT_CODE_POOL_SIZE_def)

text \<open>C29: The on-disk cache is lossless: when the file can be opened and its writes are complete, a
  saved block is loaded back with its size, its instruction count and its bytes, and the blocks
  saved under other program counters in the same directory are not disturbed.\<close>

theorem aot_round_trip:
  assumes "can_open (aot_path dir pc)" and "\<And>k bs. written k bs = length bs"
    and "length code = unat sz" and "can_map sz" and "length dir \<le> 490"
  shows "fst (save_aot_block can_open written pc code sz n dir fs) \<and>
    load_aot_block can_map pc dir (snd (save_aot_block can_open written pc code sz n dir fs)) = Some (Some (sz, n, code)) \<and>
    (\<forall>pc'. pc' \<noteq> pc \<longrightarrow>
       load_aot_block can_map pc' dir (snd (save_aot_block can_open written pc code sz n dir fs)) =
       load_aot_block can_map pc' dir fs)"
proof -
  let ?bs = "le_bytes 4 AOT_MAGIC @ le_bytes 8 pc @ le_bytes 4 sz @ le_bytes 4 n @ code"
  have save: "save_aot_block can_open written pc code sz n dir fs = (True, fs(aot_path dir pc \<mapsto> ?bs))"
    using assms(1-3) by (simp add: save_aot_block_def)
  have "take 4 ?bs = le_bytes 4 AOT_MAGIC" "take 8 (drop 4 ?bs) = le_bytes 8 pc"
    "take 4 (drop 12 ?bs) = le_bytes 4 sz" "take 4 (drop 16 ?bs) = le_bytes 4 n" "drop 20 ?bs = code"
    by simp_all
  then have "load_aot_block can_map pc dir (fs(aot_path dir pc \<mapsto> ?bs)) = Some (Some (sz, n, code))"
    using assms(3,4) unfolding load_aot_block_def by (simp add: le_word_le_bytes)
  moreover have "load_aot_block can_map pc' dir (fs(aot_path dir pc \<mapsto> ?bs)) = load_aot_block can_map pc' dir fs"
    if "pc' \<noteq> pc" for pc'
    using aot_path_inj [OF assms(5), of pc' pc] that by (auto simp: load_aot_block_def)
  ultimately show ?thesis by (simp add: save)
qed

theorem aot_round_trip_witness:
  "load_aot_block (\<lambda>_. True) 0x400000 ''cache''
     (snd (save_aot_block (\<lambda>_. True) (\<lambda>k bs. length bs) 0x400000 [0x90, 0xC3] 2 1 ''cache'' Map.empty)) =
   Some (Some (2, 1, [0x90, 0xC3]))"
  using aot_round_trip [of "\<lambda>_. True" "''cache''" "0x400000" "\<lambda>k bs. length bs" "[0x90, 0xC3]" 2 "\<lambda>_. True" 1 Map.empty]
  by simp

text \<open>C31: Patching a chain slot writes a five-byte \<open>jmp rel32\<close> whose displacement, relative to the
  end of the jump, leads to the target whenever the target is within the signed 32-bit range;
  no other byte of memory changes, and the slot lies inside the block's code when the code has
  at least ten bytes.\<close>

theorem patch_chain_slot_jumps:
  assumes "slot = 0 \<or> slot = 1" and "10 \<le> unat (bi_host_code_size b)"
    and "off = unat (bi_host_code_size b) - (if slot = 1 then 5 else 10)"
    and "ptr = bi_host_code b + of_nat off"
    and "sint (target - (ptr + 5)) \<in> {- (2 ^ 31)..<2 ^ 31}"
    and "patch_chain_slot (Some b) slot target m = (r, b', m')"
  shows "r \<and> off + 5 \<le> unat (bi_host_code_size b) \<and> m' ptr = 0xE9 \<and>
    ptr + 5 + scast (le_word [m' (ptr + 1), m' (ptr + 2), m' (ptr + 3), m' (ptr + 4)] :: i32) = target \<and>
    (\<forall>a. (\<forall>k<5. a \<noteq> ptr + of_nat k) \<longrightarrow> m' a = m a)"
proof -
  let ?rel = "ucast (target - (ptr + 5)) :: u32"
  have "unat (bi_host_code_size b - 10) = unat (bi_host_code_size b) - 10"
    using assms(2) by (simp add: unat_sub word_le_nat_alt)
  then have "(ucast (bi_host_code_size b - 10) :: u64) = of_nat (unat (bi_host_code_size b) - 10)"
    by (metis of_nat_unat)
  then have "ptr = bi_host_code b + (if slot = 1 then ucast (bi_host_code_size b - 10) + 5 else ucast (bi_host_code_size b - 10))"
    using assms(1-4) by (auto simp: of_nat_diff)
  then have m': "m' = poke_bytes (ptr + 1) (le_bytes 4 ?rel) (m(ptr := 0xE9))" and r: r
    using assms(1,6) by (auto simp: patch_chain_slot_def Let_def split: if_splits)
  have bytes: "[m' (ptr + 1), m' (ptr + 2), m' (ptr + 3), m' (ptr + 4)] = le_bytes 4 ?rel" "m' ptr = 0xE9"
    unfolding m' by (simp_all add: poke_bytes_4 le_bytes_def upt_rec add.assoc)
  have "scast ?rel = target - (ptr + 5)"
  proof -
    have "sint ?rel = signed_take_bit 31 (sint (target - (ptr + 5)))"
      by (rule bit_eqI) (auto simp: bit_simps bit_signed_take_bit_iff min_def)
    also have "\<dots> = sint (target - (ptr + 5))"
      using assms(5) by (intro signed_take_bit_int_eq_self) simp_all
    finally show ?thesis by (metis scast_id of_int_sint)
  qed
  then have "ptr + 5 + scast (le_word [m' (ptr + 1), m' (ptr + 2), m' (ptr + 3), m' (ptr + 4)] :: i32) = target"
    unfolding bytes by (simp add: le_word_le_bytes)
  moreover have "m' a = m a" if "\<forall>k<5. a \<noteq> ptr + of_nat k" for a
    using that unfolding m' by (simp add: poke_bytes_4 all_less_numeral add.assoc)
  ultimately show ?thesis using r bytes(2) assms(1-3) by auto
qed


theorem patch_chain_slot_jumps_witness:
  "let b = BlockInfo_init\<lparr>bi_host_code := 0x1000, bi_host_code_size := 20\<rparr>;
       (r, b', m') = patch_chain_slot (Some b) 1 0x900 (\<lambda>_. 0)
   in r \<and> m' 0x100F = 0xE9 \<and>
      0x1014 + scast (le_word [m' 0x1010, m' 0x1011, m' 0x1012, m' 0x1013] :: i32) = (0x900 :: u64)"
  using patch_chain_slot_jumps [of 1 "BlockInfo_init\<lparr>bi_host_code := 0x1000, bi_host_code_size := 20\<rparr>" 15 "0x100F"
     "0x900" "\<lambda>_. 0" "fst (patch_chain_slot (Some (BlockInfo_init\<lparr>bi_host_code := 0x1000, bi_host_code_size := 20\<rparr>)) 1 0x900 (\<lambda>_. 0))"
     "fst (snd (patch_chain_slot (Some (BlockInfo_init\<lparr>bi_host_code := 0x1000, bi_host_code_size := 20\<rparr>)) 1 0x900 (\<lambda>_. 0)))"
     "snd (snd (patch_chain_slot (Some (BlockInfo_init\<lparr>bi_host_code := 0x1000, bi_host_code_size := 20\<rparr>)) 1 0x900 (\<lambda>_. 0)))"]
  by (simp add: case_prod_beta)

end
