(* ===== verification/Syscalls.thy ===== *)
theory Syscalls
  imports Cpu_Context Memory_Manager
begin

text \<open>
  System-call translation (\<^verbatim>\<open>src/src/syscall/syscall_table.hpp\<close>, \<^verbatim>\<open>syscall_table.cpp\<close>,
  \<^verbatim>\<open>syscall_handlers.hpp\<close>, \<^verbatim>\<open>syscall_handlers.cpp\<close>).  The host kernel is a parameter: a record of
  functions on a kernel state of any type, with the address space they may change; \<open>k_malloc\<close>
  says whether an allocation succeeds.  An argument that the code converts to \<open>int\<close> is passed
  sign-extended.  A handler that faults while it copies guest memory is \<^const>\<open>None\<close>.
\<close>

section \<open>The number table\<close>

type_synonym SyscallEntry = "int \<times> int \<times> string"

definition syscall_table :: "SyscallEntry list" where
  "syscall_table =
    [(63, 0, ''read''), (64, 1, ''write''), (65, 19, ''readv''),
     (66, 20, ''writev''), (67, 17, ''pread64''), (68, 18, ''pwrite64''),
     (69, 295, ''preadv''), (70, 296, ''pwritev''), (62, 8, ''lseek''),
     (71, 40, ''sendfile''), (75, 278, ''vmsplice''), (76, 275, ''splice''),
     (77, 276, ''tee''), (56, 3, ''close''), (57, 3, ''close''),
     (257, 257, ''openat''), (23, 32, ''dup''), (24, 292, ''dup3''),
     (59, 293, ''pipe2''), (48, 72, ''fcntl''), (29, 16, ''ioctl''),
     (32, 73, ''flock''), (5, 5, ''fstat''), (79, 262, ''newfstatat''),
     (46, 77, ''ftruncate''), (47, 285, ''fallocate''), (61, 78, ''getdents64''),
     (81, 162, ''sync''), (82, 74, ''fsync''), (83, 75, ''fdatasync''),
     (84, 277, ''sync_file_range''), (88, 280, ''utimensat''), (33, 259, ''mknodat''),
     (34, 258, ''mkdirat''), (35, 263, ''unlinkat''), (36, 266, ''symlinkat''),
     (37, 265, ''linkat''), (38, 264, ''renameat''), (266, 267, ''renameat2''),
     (78, 267, ''readlinkat''), (49, 80, ''chdir''), (50, 81, ''fchdir''),
     (222, 9, ''mmap''), (226, 10, ''mprotect''), (215, 11, ''munmap''),
     (214, 12, ''brk''), (216, 25, ''mremap''), (218, 28, ''madvise''),
     (219, 26, ''msync''), (221, 27, ''mlock''), (220, 56, ''clone''),
     (435, 435, ''clone3''), (93, 60, ''exit''), (94, 231, ''exit_group''),
     (95, 247, ''waitid''), (96, 218, ''set_tid_address''), (97, 272, ''unshare''),
     (98, 202, ''futex''), (99, 273, ''get_robust_list''), (100, 300, ''set_robust_list''),
     (178, 186, ''gettid''), (127, 62, ''kill''), (128, 200, ''tkill''),
     (129, 200, ''tgkill''), (166, 156, ''arch_prctl''), (132, 131, ''sigaltstack''),
     (134, 13, ''rt_sigaction''), (135, 14, ''rt_sigprocmask''), (130, 128, ''rt_sigtimedwait''),
     (131, 129, ''rt_sigqueueinfo''), (133, 130, ''rt_sigsuspend''), (138, 132, ''rt_tgsigqueueinfo''),
     (139, 15, ''rt_sigreturn''), (101, 35, ''nanosleep''), (113, 228, ''clock_gettime''),
     (114, 229, ''clock_getres''), (115, 230, ''clock_settime''), (116, 232, ''clock_nanosleep''),
     (85, 283, ''timerfd_create''), (86, 286, ''timerfd_settime''), (87, 287, ''timerfd_gettime''),
     (20, 294, ''epoll_create1''), (21, 233, ''epoll_ctl''), (22, 22, ''epoll_pwait''),
     (72, 270, ''pselect6''), (73, 23, ''ppoll''), (26, 294, ''inotify_init1''),
     (27, 254, ''inotify_add_watch''), (28, 255, ''inotify_rm_watch''), (19, 290, ''eventfd2''),
     (74, 289, ''signalfd4''), (172, 39, ''getpid''), (173, 110, ''getppid''),
     (174, 102, ''getuid''), (175, 105, ''getgid''), (176, 104, ''geteuid''),
     (177, 107, ''getegid''), (169, 115, ''getgroups''), (170, 116, ''setgroups''),
     (198, 41, ''socket''), (200, 49, ''bind''), (201, 50, ''listen''),
     (202, 43, ''accept''), (203, 42, ''connect''), (192, 46, ''sendmsg''),
     (191, 47, ''recvmsg''), (206, 44, ''sendto''), (207, 45, ''recvfrom''),
     (209, 54, ''setsockopt''), (210, 55, ''getsockopt''), (208, 51, ''shutdown''),
     (217, 248, ''add_key''), (221, 27, ''mlock''), (223, 29, ''munlock''),
     (224, 30, ''mlockall''), (225, 31, ''munlockall''), (227, 32, ''mincore''),
     (160, 158, ''uname''), (167, 157, ''prctl''), (17, 79, ''getcwd''),
     (278, 318, ''getrandom''), (283, 324, ''membarrier''), (280, 321, ''bpf''),
     (92, 135, ''personality''), (90, 125, ''capget''), (91, 126, ''capset'')]"

fun find_entry :: "int \<Rightarrow> SyscallEntry list \<Rightarrow> (int \<times> string) option" where
  "find_entry arm_nr [] = None"
| "find_entry arm_nr ((a, x, n) # rest) = (if a = arm_nr then Some (x, n) else find_entry arm_nr rest)"

definition translate_syscall_nr :: "int \<Rightarrow> int" where
  "translate_syscall_nr arm_nr = (case find_entry arm_nr syscall_table of Some (x, n) \<Rightarrow> x | None \<Rightarrow> - 1)"

definition get_syscall_name :: "int \<Rightarrow> string" where
  "get_syscall_name arm_nr = (case find_entry arm_nr syscall_table of Some (x, n) \<Rightarrow> n | None \<Rightarrow> ''unknown'')"

section \<open>The host kernel\<close>

record 'k kernel =
  k_syscall :: "int \<Rightarrow> u64 list \<Rightarrow> 'k \<Rightarrow> host \<Rightarrow> i64 \<times> 'k \<times> host"
  k_read :: "i32 \<Rightarrow> u64 \<Rightarrow> 'k \<Rightarrow> (i64 + u8 list) \<times> 'k"
  k_write :: "i32 \<Rightarrow> u8 list \<Rightarrow> 'k \<Rightarrow> i64 \<times> 'k"
  k_gettid :: "'k \<Rightarrow> i64"
  k_malloc :: "u64 \<Rightarrow> bool"
  k_os :: os

text \<open>What a handler works on besides the CPU context.\<close>

record 'k sys =
  s_mem :: MemoryManager
  s_host :: host
  s_k :: 'k

type_synonym 'k handled = "(i64 \<times> CPUContext \<times> 'k sys) option"

definition ENOMEM :: i64 where "ENOMEM = 12"
definition EFAULT :: i64 where "EFAULT = 14"
definition ENOSYS :: i64 where "ENOSYS = 38"

definition SYS_clone :: int where "SYS_clone = 56"
definition SYS_futex :: int where "SYS_futex = 202"
definition SYS_set_tid_address :: int where "SYS_set_tid_address = 218"
definition SYS_set_robust_list :: int where "SYS_set_robust_list = 273"
definition SYS_prctl :: int where "SYS_prctl = 157"
definition SYS_rt_sigreturn :: int where "SYS_rt_sigreturn = 15"
definition SYS_getrandom :: int where "SYS_getrandom = 318"
definition SYS_mremap :: int where "SYS_mremap = 25"
definition SYS_clone3 :: int where "SYS_clone3 = 435"
definition SYS_preadv :: int where "SYS_preadv = 295"
definition SYS_pwritev :: int where "SYS_pwritev = 296"
definition SYS_sendfile :: int where "SYS_sendfile = 40"
definition SYS_splice :: int where "SYS_splice = 275"

definition xr :: "CPUContext \<Rightarrow> nat \<Rightarrow> u64" where
  "xr ctx i = ctx_x ctx ! i"

definition as_int :: "u64 \<Rightarrow> i32" where
  "as_int v = ucast v"

definition int_arg :: "u64 \<Rightarrow> u64" where
  "int_arg v = scast (as_int v)"

definition passthrough_syscall :: "'k kernel \<Rightarrow> int \<Rightarrow> u64 list \<Rightarrow> CPUContext \<Rightarrow> 'k sys \<Rightarrow> 'k handled" where
  "passthrough_syscall K x86_nr args ctx s =
     (let (r, k, h) = k_syscall K x86_nr args (s_k s) (s_host s)
      in Some (r, ctx, s\<lparr>s_k := k, s_host := h\<rparr>))"

section \<open>The handlers\<close>

definition handle_mmap :: "'k kernel \<Rightarrow> CPUContext \<Rightarrow> 'k sys \<Rightarrow> 'k handled" where
  "handle_mmap K ctx s =
     (let addr = xr ctx 0; len = xr ctx 1; prot = as_int (xr ctx 2);
          (result, mm, h) = mm_mmap (k_os K) len prot addr (s_mem s) (s_host s);
          s = s\<lparr>s_mem := mm, s_host := h\<rparr>
      in Some (if result = 0 then - ENOMEM else result, ctx, s))"

definition handle_mprotect :: "'k kernel \<Rightarrow> CPUContext \<Rightarrow> 'k sys \<Rightarrow> 'k handled" where
  "handle_mprotect K ctx s =
     (let (r, mm, h) = mm_mprotect (k_os K) (xr ctx 0) (xr ctx 1) (as_int (xr ctx 2)) (s_mem s) (s_host s)
      in Some (of_int r, ctx, s\<lparr>s_mem := mm, s_host := h\<rparr>))"

definition handle_munmap :: "'k kernel \<Rightarrow> CPUContext \<Rightarrow> 'k sys \<Rightarrow> 'k handled" where
  "handle_munmap K ctx s =
     (let (r, mm, h) = mm_munmap (k_os K) (xr ctx 0) (xr ctx 1) (s_mem s) (s_host s)
      in Some (of_int r, ctx, s\<lparr>s_mem := mm, s_host := h\<rparr>))"

definition handle_brk :: "'k kernel \<Rightarrow> CPUContext \<Rightarrow> 'k sys \<Rightarrow> 'k handled" where
  "handle_brk K ctx s =
     (if xr ctx 0 = 0 then Some (get_brk (s_mem s), ctx, s)
      else let (r, mm) = set_brk (xr ctx 0) (s_mem s) in Some (of_int r, ctx, s\<lparr>s_mem := mm\<rparr>))"

definition handle_clone :: "'k kernel \<Rightarrow> CPUContext \<Rightarrow> 'k sys \<Rightarrow> 'k handled" where
  "handle_clone K ctx s =
     (let flags = xr ctx 0; stack = xr ctx 1; ptid = xr ctx 2; ctid = xr ctx 3; tls = xr ctx 4
      in passthrough_syscall K SYS_clone [flags, stack, ptid, tls, ctid] ctx s)"

definition handle_futex :: "'k kernel \<Rightarrow> CPUContext \<Rightarrow> 'k sys \<Rightarrow> 'k handled" where
  "handle_futex K ctx s = passthrough_syscall K SYS_futex
     [xr ctx 0, int_arg (xr ctx 1), int_arg (xr ctx 2), xr ctx 3, xr ctx 4, int_arg (xr ctx 5)] ctx s"

definition handle_exit :: "'k kernel \<Rightarrow> CPUContext \<Rightarrow> 'k sys \<Rightarrow> 'k handled" where
  "handle_exit K ctx s =
     (let ctx = ctx\<lparr>ctx_exit_status := as_int (xr ctx 0), ctx_state_flags := ctx_state_flags ctx OR STATE_EXITED\<rparr>
      in Some (scast (ctx_exit_status ctx), ctx, s))"

definition handle_exit_group :: "'k kernel \<Rightarrow> CPUContext \<Rightarrow> 'k sys \<Rightarrow> 'k handled" where
  "handle_exit_group K ctx s =
     (let ctx = ctx\<lparr>ctx_exit_status := as_int (xr ctx 0), ctx_state_flags := ctx_state_flags ctx OR STATE_EXITED\<rparr>
      in Some (scast (ctx_exit_status ctx), ctx, s))"

definition handle_set_tid_address :: "'k kernel \<Rightarrow> CPUContext \<Rightarrow> 'k sys \<Rightarrow> 'k handled" where
  "handle_set_tid_address K ctx s = passthrough_syscall K SYS_set_tid_address [xr ctx 0] ctx s"

definition handle_set_robust_list :: "'k kernel \<Rightarrow> CPUContext \<Rightarrow> 'k sys \<Rightarrow> 'k handled" where
  "handle_set_robust_list K ctx s = passthrough_syscall K SYS_set_robust_list [xr ctx 0, xr ctx 1] ctx s"

definition handle_gettid :: "'k kernel \<Rightarrow> CPUContext \<Rightarrow> 'k sys \<Rightarrow> 'k handled" where
  "handle_gettid K ctx s = Some (k_gettid K (s_k s), ctx, s)"

definition handle_prctl :: "'k kernel \<Rightarrow> CPUContext \<Rightarrow> 'k sys \<Rightarrow> 'k handled" where
  "handle_prctl K ctx s = passthrough_syscall K SYS_prctl
     [int_arg (xr ctx 0), xr ctx 1, xr ctx 2, xr ctx 3, xr ctx 4] ctx s"

definition handle_rt_sigreturn :: "'k kernel \<Rightarrow> CPUContext \<Rightarrow> 'k sys \<Rightarrow> 'k handled" where
  "handle_rt_sigreturn K ctx s = passthrough_syscall K SYS_rt_sigreturn [] ctx s"

definition handle_getrandom :: "'k kernel \<Rightarrow> CPUContext \<Rightarrow> 'k sys \<Rightarrow> 'k handled" where
  "handle_getrandom K ctx s = passthrough_syscall K SYS_getrandom
     [xr ctx 0, xr ctx 1, ucast (ucast (xr ctx 2) :: u32)] ctx s"

definition handle_mremap :: "'k kernel \<Rightarrow> CPUContext \<Rightarrow> 'k sys \<Rightarrow> 'k handled" where
  "handle_mremap K ctx s = passthrough_syscall K SYS_mremap
     [xr ctx 0, xr ctx 1, xr ctx 2, int_arg (xr ctx 3), xr ctx 4] ctx
     (s\<lparr>s_mem := invalidate_translated_pages (s_mem s)\<rparr>)"

definition handle_clone3 :: "'k kernel \<Rightarrow> CPUContext \<Rightarrow> 'k sys \<Rightarrow> 'k handled" where
  "handle_clone3 K ctx s = passthrough_syscall K SYS_clone3 [xr ctx 0, xr ctx 1] ctx s"

definition handle_preadv :: "'k kernel \<Rightarrow> CPUContext \<Rightarrow> 'k sys \<Rightarrow> 'k handled" where
  "handle_preadv K ctx s = passthrough_syscall K SYS_preadv
     [int_arg (xr ctx 0), xr ctx 1, int_arg (xr ctx 2), xr ctx 3] ctx s"

definition handle_pwritev :: "'k kernel \<Rightarrow> CPUContext \<Rightarrow> 'k sys \<Rightarrow> 'k handled" where
  "handle_pwritev K ctx s = passthrough_syscall K SYS_pwritev
     [int_arg (xr ctx 0), xr ctx 1, int_arg (xr ctx 2), xr ctx 3] ctx s"

definition handle_sendfile :: "'k kernel \<Rightarrow> CPUContext \<Rightarrow> 'k sys \<Rightarrow> 'k handled" where
  "handle_sendfile K ctx s = passthrough_syscall K SYS_sendfile
     [int_arg (xr ctx 0), int_arg (xr ctx 1), xr ctx 2, xr ctx 3] ctx s"

definition handle_splice :: "'k kernel \<Rightarrow> CPUContext \<Rightarrow> 'k sys \<Rightarrow> 'k handled" where
  "handle_splice K ctx s = passthrough_syscall K SYS_splice
     [int_arg (xr ctx 0), xr ctx 1, int_arg (xr ctx 2), xr ctx 3, xr ctx 4,
      ucast (ucast (xr ctx 5) :: u32)] ctx s"

text \<open>\<open>write\<close> and \<open>read\<close> go through a buffer on the stack, or one from \<open>malloc\<close> above 4096 bytes.\<close>

definition handle_write :: "'k kernel \<Rightarrow> CPUContext \<Rightarrow> 'k sys \<Rightarrow> 'k handled" where
  "handle_write K ctx s =
     (let fd = as_int (xr ctx 0); guest_buf = xr ctx 1; count = xr ctx 2
      in if count > 4096 \<and> \<not> k_malloc K count then Some (- ENOMEM, ctx, s)
         else do {
           r \<leftarrow> read_bytes guest_buf count (s_mem s) (s_host s);
           case r of
             None \<Rightarrow> Some (- EFAULT, ctx, s)
           | Some buf \<Rightarrow>
               let (result, k) = k_write K fd buf (s_k s) in Some (result, ctx, s\<lparr>s_k := k\<rparr>)
         })"

definition handle_read :: "'k kernel \<Rightarrow> CPUContext \<Rightarrow> 'k sys \<Rightarrow> 'k handled" where
  "handle_read K ctx s =
     (let fd = as_int (xr ctx 0); guest_buf = xr ctx 1; count = xr ctx 2
      in if count > 4096 \<and> \<not> k_malloc K count then Some (- ENOMEM, ctx, s)
         else case k_read K fd count (s_k s) of
             (Inl result, k) \<Rightarrow> Some (result, ctx, s\<lparr>s_k := k\<rparr>)
           | (Inr buf, k) \<Rightarrow>
               if buf = [] then Some (0, ctx, s\<lparr>s_k := k\<rparr>)
               else do {
                 (ok, h) \<leftarrow> write_bytes guest_buf buf (s_mem s) (s_host s);
                 if \<not> ok then Some (- EFAULT, ctx, s\<lparr>s_k := k\<rparr>)
                 else Some (of_nat (length buf), ctx, s\<lparr>s_k := k, s_host := h\<rparr>)
               })"

definition copy_guest_to_host :: "u64 \<Rightarrow> u64 \<Rightarrow> 'k sys \<Rightarrow> u8 list option option" where
  "copy_guest_to_host guest_addr len s = read_bytes guest_addr len (s_mem s) (s_host s)"

definition copy_host_to_guest :: "u64 \<Rightarrow> u8 list \<Rightarrow> 'k sys \<Rightarrow> (bool \<times> host) option" where
  "copy_host_to_guest guest_addr host_buf s = write_bytes guest_addr host_buf (s_mem s) (s_host s)"

section \<open>Dispatch\<close>

definition execute :: "'k kernel \<Rightarrow> CPUContext \<Rightarrow> 'k sys \<Rightarrow> 'k handled" where
  "execute K ctx s =
     (let arm_nr = sint (as_int (xr ctx 8));
          x86_nr = translate_syscall_nr arm_nr
      in if x86_nr < 0 then Some (- ENOSYS, ctx, s)
         else if arm_nr = 63 then handle_read K ctx s
         else if arm_nr = 64 then handle_write K ctx s
         else if arm_nr = 222 then handle_mmap K ctx s
         else if arm_nr = 226 then handle_mprotect K ctx s
         else if arm_nr = 215 then handle_munmap K ctx s
         else if arm_nr = 214 then handle_brk K ctx s
         else if arm_nr = 216 then handle_mremap K ctx s
         else if arm_nr = 220 then handle_clone K ctx s
         else if arm_nr = 435 then handle_clone3 K ctx s
         else if arm_nr = 98 then handle_futex K ctx s
         else if arm_nr = 93 then handle_exit K ctx s
         else if arm_nr = 94 then handle_exit_group K ctx s
         else if arm_nr = 96 then handle_set_tid_address K ctx s
         else if arm_nr = 100 then handle_set_robust_list K ctx s
         else if arm_nr = 178 then handle_gettid K ctx s
         else if arm_nr = 167 then handle_prctl K ctx s
         else if arm_nr = 139 then handle_rt_sigreturn K ctx s
         else if arm_nr = 278 then handle_getrandom K ctx s
         else if arm_nr = 69 then handle_preadv K ctx s
         else if arm_nr = 70 then handle_pwritev K ctx s
         else if arm_nr = 71 then handle_sendfile K ctx s
         else if arm_nr = 76 then handle_splice K ctx s
         else passthrough_syscall K x86_nr
           [xr ctx 0, xr ctx 1, xr ctx 2, xr ctx 3, xr ctx 4, xr ctx 5] ctx s)"

section \<open>Facts on the table\<close>

lemma find_entry_None: "find_entry a tab = None \<longleftrightarrow> a \<notin> fst ` set tab"
  by (induction tab) (auto split: if_splits)

lemma find_entry_map_of: "find_entry a tab = map_of tab a"
  by (induction tab) auto

text \<open>Apart from the repeated entry for 221, every guest number is listed once.\<close>

lemma distinct_entries: "distinct (map fst (filter (\<lambda>(a, x, n). a \<noteq> 221) syscall_table))"
  unfolding syscall_table_def by simp

lemma find_entry_table:
  assumes "(a, x, n) \<in> set syscall_table"
  shows "find_entry a syscall_table = Some (x, n)"
proof (cases "a = 221")
  case True
  with assms show ?thesis by (auto simp: syscall_table_def)
next
  case False
  have "map_of (filter (\<lambda>(a, v). a \<noteq> 221) tab) a = map_of tab a" for tab :: "SyscallEntry list"
    using False by (induction tab) auto
  moreover have "map_of (filter (\<lambda>(a, x, n). a \<noteq> 221) syscall_table) a = Some (x, n)"
    using assms False distinct_entries by (intro map_of_is_SomeI) auto
  ultimately show ?thesis by (simp add: find_entry_map_of case_prod_beta')
qed

lemma translate_handled:
  "translate_syscall_nr 63 = 0" "translate_syscall_nr 64 = 1" "translate_syscall_nr 93 = 60"
  "translate_syscall_nr 94 = 231" "translate_syscall_nr 220 = 56"
  by (simp_all add: translate_syscall_nr_def syscall_table_def)

lemma as_int_numeral: "sint (as_int 63) = 63" "sint (as_int 64) = 64" "sint (as_int 93) = 93"
  "sint (as_int 94) = 94" "sint (as_int 220) = 220"
  by (simp_all add: as_int_def)

lemma execute_dispatch:
  "xr ctx 8 = 63 \<Longrightarrow> execute K ctx s = handle_read K ctx s"
  "xr ctx 8 = 64 \<Longrightarrow> execute K ctx s = handle_write K ctx s"
  "xr ctx 8 = 93 \<Longrightarrow> execute K ctx s = handle_exit K ctx s"
  "xr ctx 8 = 94 \<Longrightarrow> execute K ctx s = handle_exit_group K ctx s"
  "xr ctx 8 = 220 \<Longrightarrow> execute K ctx s = handle_clone K ctx s"
  by (simp_all add: execute_def translate_handled as_int_numeral)

section \<open>Properties\<close>

text \<open>The number table is unambiguous and translation follows it: every entry is the one its
  guest number is translated to and named by (the entry for 221 is listed twice, with the same
  content), and a guest number outside the table is translated to -1.\<close>

theorem translate_follows_table:
  "(\<forall>(a, x, n)\<in>set syscall_table. translate_syscall_nr a = x \<and> get_syscall_name a = n) \<and>
   (\<forall>a. a \<notin> fst ` set syscall_table \<longrightarrow> translate_syscall_nr a = - 1 \<and> get_syscall_name a = ''unknown'')"
proof -
  have "translate_syscall_nr a = x \<and> get_syscall_name a = n" if "(a, x, n) \<in> set syscall_table" for a x n
    using find_entry_table [OF that] by (simp add: translate_syscall_nr_def get_syscall_name_def)
  moreover have "translate_syscall_nr a = - 1 \<and> get_syscall_name a = ''unknown''" if "a \<notin> fst ` set syscall_table" for a
    using find_entry_None [of a syscall_table] that by (simp add: translate_syscall_nr_def get_syscall_name_def)
  ultimately show ?thesis by blast
qed

theorem translate_follows_table_witness:
  "translate_syscall_nr 222 = 9 \<and> get_syscall_name 222 = ''mmap'' \<and> translate_syscall_nr 1 = - 1"
proof -
  have "(222, 9, ''mmap'') \<in> set syscall_table" "1 \<notin> fst ` set syscall_table"
    by (simp_all add: syscall_table_def)
  with translate_follows_table show ?thesis by blast
qed

text \<open>A guest call whose number is not in the table is answered with -ENOSYS, the host kernel is
  not called and neither the registers nor memory change.\<close>

theorem execute_unknown:
  assumes "sint (as_int (xr ctx 8)) \<notin> fst ` set syscall_table"
  shows "execute K ctx s = Some (- 38, ctx, s)"
  using assms find_entry_None [of "sint (as_int (xr ctx 8))" syscall_table]
  by (simp add: execute_def translate_syscall_nr_def ENOSYS_def Let_def)

theorem execute_unknown_witness:
  "\<forall>(K :: unit kernel) s. let ctx = CPUContext_init\<lparr>ctx_x := (replicate 31 0)[8 := 1000]\<rparr>
     in execute K ctx s = Some (- 38, ctx, s)"
  unfolding Let_def by (intro allI execute_unknown) (simp add: xr_def as_int_def syscall_table_def)

text \<open>\<open>exit\<close> and \<open>exit_group\<close> record the low 32 bits of the first argument as the exit status
  and raise the EXITED flag, which ends the run loop; nothing else changes and the host process
  is not ended.\<close>

theorem execute_exit:
  assumes "xr ctx 8 = 93 \<or> xr ctx 8 = 94"
  shows "\<exists>ctx'. execute K ctx s = Some (scast (ctx_exit_status ctx'), ctx', s) \<and>
    ctx_exit_status ctx' = ucast (xr ctx 0) \<and> ctx_state_flags ctx' AND STATE_EXITED \<noteq> 0 \<and>
    ctx_x ctx' = ctx_x ctx \<and> ctx_pc ctx' = ctx_pc ctx \<and> ctx_sp ctx' = ctx_sp ctx"
proof -
  have "(f OR STATE_EXITED) AND STATE_EXITED \<noteq> 0" for f
  proof -
    have "(f OR STATE_EXITED) AND STATE_EXITED = STATE_EXITED" by (rule bit_word_eqI) (auto simp: bit_simps)
    then show ?thesis by (simp add: STATE_EXITED_def)
  qed
  with assms show ?thesis
    by (auto simp: execute_dispatch handle_exit_def handle_exit_group_def as_int_def Let_def)
qed

theorem execute_exit_witness:
  "\<forall>(K :: unit kernel) s. \<exists>ctx'. execute K (CPUContext_init\<lparr>ctx_x := (replicate 31 0)[8 := 94, 0 := 7]\<rparr>) s =
     Some (7, ctx', s) \<and> ctx_exit_status ctx' = 7"
proof (intro allI)
  fix K :: "unit kernel" and s
  show "\<exists>ctx'. execute K (CPUContext_init\<lparr>ctx_x := (replicate 31 0)[8 := 94, 0 := 7]\<rparr>) s =
     Some (7, ctx', s) \<and> ctx_exit_status ctx' = 7"
    using execute_exit [of "CPUContext_init\<lparr>ctx_x := (replicate 31 0)[8 := 94, 0 := 7]\<rparr>" K s]
    by (auto simp: xr_def)
qed

text \<open>C24: \<open>write\<close> hands the host kernel exactly the bytes of the guest's buffer, as many as the guest
  asked for, and returns what the kernel answers; a buffer that no region allows to be read is
  answered with -EFAULT without a call.  Neither registers nor memory change.\<close>

theorem execute_write:
  assumes "xr ctx 8 = 64" and "unat (xr ctx 2) \<le> 4096 \<or> k_malloc K (xr ctx 2)"
    and "execute K ctx s = Some (r, ctx', s')"
  shows "ctx' = ctx \<and> s_host s' = s_host s \<and> s_mem s' = s_mem s \<and>
    (if check_perms (s_mem s) (xr ctx 1) (xr ctx 2) PROT_READ
     then k_write K (ucast (xr ctx 0)) (map (h_byte (s_host s)) (addrs (xr ctx 1) (unat (xr ctx 2)))) (s_k s) = (r, s_k s')
     else r = - 14 \<and> s' = s)"
proof -
  have "\<not> (xr ctx 2 > 4096 \<and> \<not> k_malloc K (xr ctx 2))"
    using assms(2) by (auto simp: word_less_nat_alt)
  with assms(1,3) show ?thesis
    by (auto simp: execute_dispatch handle_write_def read_bytes_def host_read_def as_int_def EFAULT_def Let_def
      split: prod.splits if_splits)
qed

text \<open>A kernel for the witnesses: \<open>write\<close> accepts everything, \<open>read\<close> delivers one fixed datum.\<close>

definition demo_kernel :: "unit kernel" where
  "demo_kernel = \<lparr>k_syscall = (\<lambda>_ _ k h. (0, k, h)), k_read = (\<lambda>_ _ k. (Inr [0x68, 0x69], k)),
     k_write = (\<lambda>_ bs k. (of_nat (length bs), k)), k_gettid = (\<lambda>_. 1), k_malloc = (\<lambda>_. True),
     k_os = \<lparr>os_mmap = (\<lambda>_ _ _. True), os_munmap = (\<lambda>_ _. 0), os_mprotect = (\<lambda>_ _ _. 0)\<rparr>\<rparr>"

definition demo_sys :: "unit sys" where
  "demo_sys = \<lparr>s_mem = MemoryManager_init\<lparr>mm_regions := [\<lparr>mr_addr = 0x1000, mr_size = 0x1000, mr_perms = 3,
       mr_type = DATA, mr_is_translated = False\<rparr>]\<rparr>,
     s_host = host_map 0x1000 0x1000 3 \<lparr>h_byte = (\<lambda>_. 0), h_prot = (\<lambda>_. None)\<rparr>, s_k = ()\<rparr>"

definition demo_ctx :: "u64 \<Rightarrow> CPUContext" where
  "demo_ctx nr = CPUContext_init\<lparr>ctx_x := (replicate 31 0)[8 := nr, 0 := 1, 1 := 0x1010, 2 := 2]\<rparr>"

lemma demo_access:
  "host_read (s_host demo_sys) 0x1010 2 = Some [0, 0]"
  "\<exists>h. host_write (s_host demo_sys) 0x1010 [0x68, 0x69] = Some h"
  by (simp_all add: demo_sys_def host_read_def host_write_def addrs_def upt_rec can_read_def can_write_def
    host_map_def in_range_def PROT_WRITE_def)

lemma demo_perms: "check_perms (s_mem demo_sys) 0x1010 2 PROT_READ" "check_perms (s_mem demo_sys) 0x1010 2 PROT_WRITE"
  by (simp_all add: demo_sys_def check_perms_def prot_defs)

lemma demo_args: "xr (demo_ctx nr) 8 = nr" "xr (demo_ctx nr) 0 = 1" "xr (demo_ctx nr) (Suc 0) = 0x1010" "xr (demo_ctx nr) 2 = 2"
  by (simp_all add: xr_def demo_ctx_def)

theorem execute_write_witness:
  "\<exists>s'. execute demo_kernel (demo_ctx 64) demo_sys = Some (2, demo_ctx 64, s') \<and> s_host s' = s_host demo_sys"
proof -
  obtain r ctx' s' where e: "execute demo_kernel (demo_ctx 64) demo_sys = Some (r, ctx', s')"
    using demo_access(1) demo_perms(1)
    by (auto simp: execute_dispatch demo_args handle_write_def read_bytes_def Let_def demo_kernel_def)
  from execute_write [OF _ _ e] e show ?thesis
    by (auto simp: demo_args demo_perms) (simp add: demo_kernel_def)
qed

text \<open>C23: \<open>read\<close> stores the data of the host kernel in the guest's buffer: when it returns a positive
  count, that many bytes from the buffer's start read as the kernel's data and no byte outside
  them has changed; a buffer that no region allows to be written is answered with -EFAULT and
  memory is unchanged.\<close>

theorem execute_read:
  assumes "xr ctx 8 = 63" and "unat (xr ctx 2) \<le> 4096 \<or> k_malloc K (xr ctx 2)"
    and "k_read K (ucast (xr ctx 0)) (xr ctx 2) (s_k s) = (Inr data, k')"
    and "data \<noteq> []" and "length data \<le> unat (xr ctx 2)"
    and "execute K ctx s = Some (r, ctx', s')"
  shows "ctx' = ctx \<and> s_mem s' = s_mem s \<and> s_k s' = k' \<and>
    (if check_perms (s_mem s) (xr ctx 1) (of_nat (length data)) PROT_WRITE
     then r = of_nat (length data) \<and> host_read (s_host s') (xr ctx 1) (length data) = Some data \<and>
       (\<forall>b n. disjoint_ranges (xr ctx 1) (length data) b n \<longrightarrow> host_read (s_host s') b n = host_read (s_host s) b n)
     else r = - 14 \<and> s_host s' = s_host s)"
proof -
  have len: "length data < 2 ^ 64" using assms(5) unat_u64_less [of "xr ctx 2"] by linarith
  have c: "\<not> (xr ctx 2 > 4096 \<and> \<not> k_malloc K (xr ctx 2))"
    using assms(2) by (auto simp: word_less_nat_alt)
  show ?thesis
  proof (cases "check_perms (s_mem s) (xr ctx 1) (of_nat (length data)) PROT_WRITE")
    case True
    with assms c obtain h where h: "host_write (s_host s) (xr ctx 1) data = Some h"
        "r = of_nat (length data)" "ctx' = ctx" "s' = s\<lparr>s_k := k', s_host := h\<rparr>"
      by (auto simp: execute_dispatch handle_read_def write_bytes_def as_int_def Let_def
          split: if_splits Option.bind_splits)
    from host.rd_wr_same [OF len h(1)] host.rd_wr_other [OF h(1)] True h show ?thesis by simp
  next
    case False
    with assms c show ?thesis
      by (auto simp: execute_dispatch handle_read_def write_bytes_def as_int_def EFAULT_def Let_def split: if_splits)
  qed
qed

theorem execute_read_witness:
  "\<exists>s'. execute demo_kernel (demo_ctx 63) demo_sys = Some (2, demo_ctx 63, s') \<and>
     host_read (s_host s') 0x1010 2 = Some [0x68, 0x69]"
proof -
  have k: "k_read demo_kernel (ucast (xr (demo_ctx 63) 0)) (xr (demo_ctx 63) 2) (s_k demo_sys) = (Inr [0x68, 0x69], ())"
    by (simp add: demo_kernel_def)
  obtain r ctx' s' where e: "execute demo_kernel (demo_ctx 63) demo_sys = Some (r, ctx', s')"
    using demo_access(2) demo_perms(2)
    by (auto simp: execute_dispatch demo_args handle_read_def write_bytes_def Let_def demo_kernel_def)
  from execute_read [OF _ _ k _ _ e] e show ?thesis
    by (auto simp: demo_args demo_perms numeral_2_eq_2 [symmetric])
qed

end
