(* ===== verification/Exec_Engine.thy ===== *)
theory Exec_Engine
  imports Lower Translation_Cache Syscalls
begin

text \<open>
  The execution engine (\<^verbatim>\<open>src/src/core/exec_engine.hpp\<close>, \<^verbatim>\<open>exec_engine.cpp\<close>): the interpreter for
  one decoded instruction, the translation of a block through decoder, IR, optimiser and
  lowering into the code pool, and the run loop.  The host CPU that executes the code pool is
  a parameter: from an entry address, the context and the address space it computes whether
  the code faulted, the new context and the new address space.  \<^const>\<open>None\<close> is undefined
  behaviour: an index outside \<open>x\<close>, a shift by the width or more, a signed overflow, and a
  fault outside translated code, whose handler jumps to a frame that is not live.
\<close>

section \<open>The interpreter\<close>

definition check_condition :: "u64 \<Rightarrow> u8 \<Rightarrow> bool" where
  "check_condition nzcv cond =
    (let n = drop_bit 31 nzcv AND 1 \<noteq> 0; z = drop_bit 30 nzcv AND 1 \<noteq> 0;
         c = drop_bit 29 nzcv AND 1 \<noteq> 0; v = drop_bit 28 nzcv AND 1 \<noteq> 0
     in if cond = 0 then z else if cond = 1 then \<not> z
        else if cond = 2 then c else if cond = 3 then \<not> c
        else if cond = 4 then n else if cond = 5 then \<not> n
        else if cond = 6 then v else if cond = 7 then \<not> v
        else if cond = 8 then c \<and> \<not> z else if cond = 9 then \<not> c \<or> z
        else if cond = 10 then n = v else if cond = 11 then n \<noteq> v
        else if cond = 12 then \<not> z \<and> n = v else if cond = 13 then z \<or> n \<noteq> v
        else if cond = 14 then True else False)"

text \<open>\<open>(r == 31) ? sp : x[r]\<close>, a shift, and the CRASHED mark.\<close>

definition base_or_sp :: "CPUContext \<Rightarrow> u8 \<Rightarrow> u64 option" where
  "base_or_sp ctx r = (if r = 31 then Some (ctx_sp ctx) else get_x ctx r)"

definition shl64 :: "u64 \<Rightarrow> u8 \<Rightarrow> u64 option" where
  "shl64 v k = (if unat k < 64 then Some (push_bit (unat k) v) else None)"

definition crash :: "CPUContext \<Rightarrow> CPUContext" where
  "crash ctx = ctx\<lparr>ctx_state_flags := ctx_state_flags ctx OR STATE_CRASHED\<rparr>"

definition next_pc :: "CPUContext \<Rightarrow> CPUContext" where
  "next_pc ctx = ctx\<lparr>ctx_pc := ctx_pc ctx + 4\<rparr>"

definition branch_by :: "DecodedInstr \<Rightarrow> CPUContext \<Rightarrow> CPUContext" where
  "branch_by d ctx = ctx\<lparr>ctx_pc := ctx_pc ctx + ucast (d_branch_offset d)\<rparr>"

text \<open>The cases that only compute on the context: moves, arithmetic and logic.
  The result is \<open>Some None\<close> for an opcode of another group.\<close>

definition exec_data :: "DecodedInstr \<Rightarrow> CPUContext \<Rightarrow> CPUContext option option" where
  "exec_data d ctx =
    (let op = d_opcode d; hw16 = unat (drop_bit 21 (d_raw d) AND 0x3) * 16;
         put = (\<lambda>v. map_option (\<lambda>c. Some (next_pc c)) (set_x ctx (d_rd d) v))
     in if op = 0x22 then put (d_imm d)
        else if op = 0x23 then do {
          old \<leftarrow> get_x ctx (d_rd d);
          put ((old AND NOT (push_bit hw16 0xFFFF)) OR push_bit hw16 (d_imm d)) }
        else if op = 0x21 then put (NOT (push_bit hw16 (d_imm d)))
        else if op = 0x24 then put (ctx_pc ctx + d_imm_s d)
        else if op = 0x25 then put ((ctx_pc ctx AND NOT 0xFFF) + push_bit 12 (d_imm_s d))
        else if op = 0x00 then do { a \<leftarrow> get_x ctx (d_rn d); put (a + d_imm d) }
        else if op = 0x01 then do { a \<leftarrow> get_x ctx (d_rn d); put (a - d_imm d) }
        else if op = 0x12 then do { a \<leftarrow> get_x ctx (d_rn d); b \<leftarrow> get_x ctx (d_rm d); put (a OR b) }
        else if op = 0x10 then do { a \<leftarrow> get_x ctx (d_rn d); b \<leftarrow> get_x ctx (d_rm d); put (a AND b) }
        else if op = 0x14 then do { a \<leftarrow> get_x ctx (d_rn d); b \<leftarrow> get_x ctx (d_rm d); put (a XOR b) }
        else if op = 0x20 then do { a \<leftarrow> base_or_sp ctx (d_rm d); put a }
        else Some None)"

text \<open>Branches.\<close>

definition exec_branch :: "DecodedInstr \<Rightarrow> CPUContext \<Rightarrow> CPUContext option option" where
  "exec_branch d ctx =
    (let op = d_opcode d;
         cond_branch = (\<lambda>c. Some (Some (if c then branch_by d ctx else next_pc ctx)))
     in if op = 0x50 then Some (Some (branch_by d ctx))
        else if op = 0x51 then map_option (\<lambda>c. Some (branch_by d c)) (set_x ctx 30 (ctx_pc ctx + 4))
        else if op = 0x52 then map_option (\<lambda>t. Some (ctx\<lparr>ctx_pc := t\<rparr>)) (base_or_sp ctx (d_rn d))
        else if op = 0x53 then
          map_option (\<lambda>t. Some (ctx\<lparr>ctx_pc := t\<rparr>)) (if d_rn d = 31 then get_x ctx 30 else get_x ctx (d_rn d))
        else if op = 0x54 then cond_branch (check_condition (ctx_nzcv ctx) (d_cond d))
        else if op = 0x55 then do {
          val \<leftarrow> base_or_sp ctx (d_rn d);
          cond_branch (if d_size d \<noteq> 0 then val = 0 else (ucast val :: u32) = 0) }
        else if op = 0x56 then do {
          val \<leftarrow> base_or_sp ctx (d_rn d);
          cond_branch (if d_size d \<noteq> 0 then val \<noteq> 0 else (ucast val :: u32) \<noteq> 0) }
        else if op = 0x57 \<or> op = 0x58 then do {
          val \<leftarrow> get_x ctx (d_rn d);
          let k = unat (ucast (d_imm d) :: u32);
          if k \<ge> 64 then None else cond_branch (bit val k = (op = 0x58)) }
        else Some None)"

text \<open>Compares, the conditional select and NOP.\<close>

definition exec_compare :: "DecodedInstr \<Rightarrow> CPUContext \<Rightarrow> CPUContext option option" where
  "exec_compare d ctx =
    (let op = d_opcode d
     in if op = 0x30 then do {
          a \<leftarrow> get_x ctx (d_rn d); b \<leftarrow> get_x ctx (d_rm d);
          let result = a - b;
          if sint a - sint b < - (2 ^ 63) \<or> sint a - sint b \<ge> 2 ^ 63 then None
          else Some (Some (next_pc (set_nzcv (bit result 63) (result = 0) (a \<ge> b)
                 ((sint a - sint b < 0) \<noteq> (sint a < sint b)) ctx))) }
        else if op = 0x31 then do {
          a \<leftarrow> get_x ctx (d_rn d); b \<leftarrow> get_x ctx (d_rm d);
          let result = a AND b;
          Some (Some (next_pc (set_nzcv (bit result 63) (result = 0) False False ctx))) }
        else if op = 0x40 then do {
          a \<leftarrow> get_x ctx (if check_condition (ctx_nzcv ctx) (d_cond d) then d_rn d else d_rm d);
          map_option (\<lambda>c. Some (next_pc c)) (set_x ctx (d_rd d) a) }
        else if op = 0x90 then Some (Some (next_pc ctx))
        else Some None)"

text \<open>The address of LDR and STR: base plus immediate, signed immediate or shifted index.\<close>

definition load_store_addr :: "bool \<Rightarrow> DecodedInstr \<Rightarrow> CPUContext \<Rightarrow> u64 option" where
  "load_store_addr is_load d ctx =
     (if is_load \<and> d_is_pc_relative d then Some (ctx_pc ctx + push_bit 2 (d_imm_s d))
      else do {
        base \<leftarrow> base_or_sp ctx (d_rn d);
        offset \<leftarrow>
          (if d_imm_s d \<noteq> 0 \<and> d_imm d = 0 then Some (d_imm_s d)
           else if d_rm d < 31 \<and> d_imm d = 0 \<and> d_imm_s d = 0 \<and> (is_load \<longrightarrow> d_shift_type d < 4)
           then do { i \<leftarrow> get_x ctx (d_rm d); shl64 i (d_shift_type d) }
           else Some (d_imm d));
        Some (base + offset) })"

text \<open>A load stores what the memory manager read, or marks the context as crashed.\<close>

definition load_into :: "'a::len word option option \<Rightarrow> u8 \<Rightarrow> CPUContext \<Rightarrow> CPUContext option" where
  "load_into r rt ctx = (case r of
      None \<Rightarrow> None
    | Some None \<Rightarrow> Some (next_pc (crash ctx))
    | Some (Some v) \<Rightarrow> map_option next_pc (set_x ctx rt (ucast v)))"

definition exec_memory :: "DecodedInstr \<Rightarrow> MemoryManager \<Rightarrow> CPUContext \<Rightarrow> host \<Rightarrow> (CPUContext \<times> host) option option" where
  "exec_memory d mm ctx h =
    (let op = d_opcode d;
         loaded = map_option (\<lambda>c. Some (c, h));
         stored = map_option (\<lambda>(ok :: bool, h). Some (next_pc ctx, h))
     in if op = 0x63 then do { a \<leftarrow> load_store_addr True d ctx; loaded (load_into (read_u64 a mm h) (d_rt d) ctx) }
        else if op = 0x62 then do { a \<leftarrow> load_store_addr True d ctx; loaded (load_into (read_u32 a mm h) (d_rt d) ctx) }
        else if op = 0x73 then do {
          a \<leftarrow> load_store_addr False d ctx; v \<leftarrow> get_x ctx (d_rt d); stored (write_u64 a v mm h) }
        else if op = 0x72 then do {
          a \<leftarrow> load_store_addr False d ctx; v \<leftarrow> get_x ctx (d_rt d); stored (write_u32 a (ucast v) mm h) }
        else if op = 0x60 then do {
          b \<leftarrow> base_or_sp ctx (d_rn d); loaded (load_into (read_u8 (b + d_imm d) mm h) (d_rt d) ctx) }
        else if op = 0x61 then do {
          b \<leftarrow> base_or_sp ctx (d_rn d); loaded (load_into (read_u16 (b + d_imm d) mm h) (d_rt d) ctx) }
        else if op = 0x70 then do {
          b \<leftarrow> base_or_sp ctx (d_rn d); v \<leftarrow> get_x ctx (d_rt d); stored (write_u8 (b + d_imm d) (ucast v) mm h) }
        else if op = 0x71 then do {
          b \<leftarrow> base_or_sp ctx (d_rn d); v \<leftarrow> get_x ctx (d_rt d); stored (write_u16 (b + d_imm d) (ucast v) mm h) }
        else if op = 0x80 then do {
          b \<leftarrow> base_or_sp ctx (d_rn d);
          r1 \<leftarrow> read_u64 (b + d_imm_s d) mm h;
          case r1 of
            None \<Rightarrow> Some (Some (next_pc (crash ctx), h))
          | Some val1 \<Rightarrow> do {
              r2 \<leftarrow> read_u64 (b + d_imm_s d + 8) mm h;
              case r2 of
                None \<Rightarrow> Some (Some (next_pc (crash ctx), h))
              | Some val2 \<Rightarrow> do {
                  c \<leftarrow> set_x ctx (d_rt d) val1; c \<leftarrow> set_x c (d_rm d) val2; Some (Some (next_pc c, h)) } } }
        else if op = 0x81 then do {
          b \<leftarrow> base_or_sp ctx (d_rn d);
          v1 \<leftarrow> get_x ctx (d_rt d);
          (ok1, h) \<leftarrow> write_u64 (b + d_imm_s d) v1 mm h;
          v2 \<leftarrow> get_x ctx (d_rm d);
          (ok2, h) \<leftarrow> write_u64 (b + d_imm_s d + 8) v2 mm h;
          Some (Some (next_pc ctx, h)) }
        else Some None)"

definition execute_decoded :: "DecodedInstr \<Rightarrow> MemoryManager \<Rightarrow> CPUContext \<Rightarrow> host \<Rightarrow> (CPUContext \<times> host) option" where
  "execute_decoded d mm ctx h = do {
     r \<leftarrow> exec_data d ctx;
     case r of Some c \<Rightarrow> Some (c, h)
     | None \<Rightarrow> do {
         r \<leftarrow> exec_memory d mm ctx h;
         case r of Some ch \<Rightarrow> Some ch
         | None \<Rightarrow> do {
             r \<leftarrow> exec_branch d ctx;
             case r of Some c \<Rightarrow> Some (c, h)
             | None \<Rightarrow> do {
                 r \<leftarrow> exec_compare d ctx;
                 case r of Some c \<Rightarrow> Some (c, h)
                 | None \<Rightarrow> Some (next_pc (crash ctx), h) } } } }"

section \<open>Translation of a block\<close>

record 'k engine =
  en_ctx :: CPUContext
  en_sys :: "'k sys"
  en_cache :: TranslationCache

definition is_svc :: "u32 \<Rightarrow> bool" where
  "is_svc raw \<longleftrightarrow> raw AND 0xFFE0001F = 0xD4000001"

text \<open>The collecting loop, at most 64 instructions, the first branch included.\<close>

fun collect_block :: "nat \<Rightarrow> u64 \<Rightarrow> MemoryManager \<Rightarrow> host \<Rightarrow> DecodedInstr list option" where
  "collect_block 0 pc mm h = Some []"
| "collect_block (Suc n) pc mm h = do {
     r \<leftarrow> read_u32 pc mm h;
     case r of
       None \<Rightarrow> Some []
     | Some raw \<Rightarrow>
         if is_svc raw then Some []
         else let (ok, instr) = decode raw in
           if \<not> ok then Some []
           else if d_category instr = BRANCH \<or> d_category instr = BRANCH_COND then Some [instr]
           else map_option (Cons instr) (collect_block n (pc + 4) mm h) }"

definition max_instr :: nat where "max_instr = 64"

definition translate_block :: "u64 \<Rightarrow> 'k engine \<Rightarrow> (BlockInfo option \<times> 'k engine) option" where
  "translate_block arm_pc en =
    (let s = en_sys en in do {
      instructions \<leftarrow> collect_block max_instr arm_pc (s_mem s) (s_host s);
      if instructions = [] then Some (None, en)
      else
        let (ok, ir_block) = build instructions (of_nat (length instructions)) arm_pc IRBlock_init in
        if \<not> ok then Some (None, en)
        else
          let ir_block = optimize ir_block;
              (code, cache) = alloc_host_code 4096 (en_cache en);
              en = en\<lparr>en_cache := cache\<rparr>
          in case code of
            None \<Rightarrow> Some (None, en)
          | Some host_code \<Rightarrow>
              if host_code = 0 then Some (None, en)
              else do {
                (ok, e) \<leftarrow> lower_block ir_block (arm_pc + of_nat (length instructions) * 4)
                   (set_buffer (Some (map (h_byte (s_host s)) (addrs host_code 4096))) 4096 X86_64Emitter_init);
                h \<leftarrow> host_write (s_host s) host_code (emitted e);
                let en = en\<lparr>en_sys := s\<lparr>s_host := h\<rparr>\<rparr>;
                if \<not> ok then Some (None, en)
                else
                  let size = of_nat (code_size e);
                      block = BlockInfo_init\<lparr>bi_arm_pc := arm_pc, bi_host_code := host_code,
                        bi_host_code_size := size, bi_arm_instr_count := b_arm_instr_count ir_block\<rparr>;
                      (_, cache) = insert_block arm_pc host_code size (b_arm_instr_count ir_block) (en_cache en);
                      mm = mark_translated_page arm_pc (s_mem s)
                  in Some (Some block, en\<lparr>en_cache := cache, en_sys := (en_sys en)\<lparr>s_mem := mm\<rparr>\<rparr>)
              } })"

section \<open>Execution\<close>

text \<open>The host CPU: did the code fault, the context and the address space afterwards.\<close>

type_synonym host_cpu = "u64 \<Rightarrow> CPUContext \<Rightarrow> host \<Rightarrow> bool \<times> CPUContext \<times> host"

datatype signal = SIGTRAP | SIGSEGV | SIGOTHER

definition handle_syscall :: "'k kernel \<Rightarrow> CPUContext \<Rightarrow> 'k sys \<Rightarrow> (i32 \<times> CPUContext \<times> 'k sys) option" where
  "handle_syscall K ctx s = map_option (\<lambda>(r, ctx, s). (ucast r, ctx, s)) (execute K ctx s)"

text \<open>Stores the result of a call in \<open>x0\<close>: an \<open>int\<close> widened to 64 bits.\<close>

definition finish_syscall :: "i32 \<Rightarrow> CPUContext \<Rightarrow> CPUContext" where
  "finish_syscall result ctx = ctx\<lparr>ctx_x := (ctx_x ctx)[0 := scast result]\<rparr>"

text \<open>The handler with a live instance: \<open>True\<close> in the result is a jump back to \<open>execute_block\<close>.\<close>

definition signal_handler :: "'k kernel \<Rightarrow> signal \<Rightarrow> CPUContext \<Rightarrow> 'k sys \<Rightarrow> (bool \<times> CPUContext \<times> 'k sys) option" where
  "signal_handler K sig ctx s =
     (if sig = SIGTRAP
      then map_option (\<lambda>(r, ctx, s). (False, finish_syscall r ctx, s)) (handle_syscall K ctx s)
      else Some (True, crash ctx, s))"

definition execute_block :: "host_cpu \<Rightarrow> BlockInfo option \<Rightarrow> 'k engine \<Rightarrow> 'k engine" where
  "execute_block cpu block en = (case block of
      None \<Rightarrow> en
    | Some b \<Rightarrow>
        if bi_host_code b = 0 \<or> \<not> bi_is_valid b then en
        else let s = en_sys en;
                 (faulted, ctx, h) = cpu (bi_host_code b) (en_ctx en) (s_host s);
                 ctx = (if faulted then crash ctx else ctx)
             in en\<lparr>en_ctx := ctx, en_sys := s\<lparr>s_host := h\<rparr>\<rparr>)"

definition running :: "CPUContext \<Rightarrow> bool" where
  "running ctx \<longleftrightarrow> ctx_state_flags ctx AND STATE_CRASHED = 0 \<and> ctx_state_flags ctx AND STATE_EXITED = 0"

text \<open>One pass of the loop body; the Boolean says whether \<open>iter\<close> is incremented, and \<open>Inl\<close> is
  the \<open>break\<close> after a failed fetch.\<close>

definition run_body :: "host_cpu \<Rightarrow> 'k kernel \<Rightarrow> 'k engine \<Rightarrow> ('k engine + bool \<times> 'k engine) option" where
  "run_body cpu K en =
    (let pc = ctx_pc (en_ctx en); (block, cache) = lookup pc (en_cache en); en = en\<lparr>en_cache := cache\<rparr>
     in if block \<noteq> None then Some (Inr (True, execute_block cpu block en))
        else do {
          r \<leftarrow> read_u32 pc (s_mem (en_sys en)) (s_host (en_sys en));
          case r of
            None \<Rightarrow> Some (Inl en)
          | Some instr \<Rightarrow>
              if is_svc instr then do {
                (result, ctx, s) \<leftarrow> handle_syscall K (next_pc (en_ctx en)) (en_sys en);
                Some (Inr (True, en\<lparr>en_ctx := finish_syscall result ctx, en_sys := s\<rparr>)) }
              else do {
                (block, en) \<leftarrow> translate_block pc en;
                if block \<noteq> None then Some (Inr (True, execute_block cpu block en))
                else
                  let (ok, decoded) = decode instr in
                  if \<not> ok then Some (Inr (False, en\<lparr>en_ctx := crash (en_ctx en)\<rparr>))
                  else do {
                    (ctx, h) \<leftarrow> execute_decoded decoded (s_mem (en_sys en)) (en_ctx en) (s_host (en_sys en));
                    Some (Inr (True, en\<lparr>en_ctx := ctx, en_sys := (en_sys en)\<lparr>s_host := h\<rparr>\<rparr>)) } } })"

definition max_iter :: nat where "max_iter = 10000000"

lemma crash_not_running [simp]: "\<not> running (crash ctx)"
proof -
  have "(f OR STATE_CRASHED) AND STATE_CRASHED = STATE_CRASHED" for f
    by (rule bit_word_eqI) (auto simp: bit_simps)
  then show ?thesis by (simp add: running_def crash_def STATE_CRASHED_def)
qed

text \<open>A pass that does not count has crashed the context, so the loop ends.\<close>

lemma run_body_uncounted: "run_body cpu K en = Some (Inr (False, en')) \<Longrightarrow> \<not> running (en_ctx en')"
  by (auto simp: run_body_def Let_def split: prod.splits if_splits option.splits Option.bind_splits)

function run_loop :: "host_cpu \<Rightarrow> 'k kernel \<Rightarrow> nat \<Rightarrow> 'k engine \<Rightarrow> (nat \<times> 'k engine) option" where
  "run_loop cpu K iter en =
     (if running (en_ctx en) \<and> iter < max_iter
      then case run_body cpu K en of
          None \<Rightarrow> None
        | Some (Inl en') \<Rightarrow> Some (iter, en')
        | Some (Inr (counted, en')) \<Rightarrow> run_loop cpu K (if counted then iter + 1 else iter) en'
      else Some (iter, en))"
  by pat_completeness auto
termination
  by (relation "inv_image (less_than <*lex*> less_than)
        (\<lambda>(cpu, K, iter, en). (max_iter - iter, if running (en_ctx en) then 1 else 0 :: nat))")
     (auto dest: run_body_uncounted split: if_splits)

declare run_loop.simps [simp del]

definition run :: "host_cpu \<Rightarrow> 'k kernel \<Rightarrow> u64 \<Rightarrow> 'k engine \<Rightarrow> (nat \<times> 'k engine) option" where
  "run cpu K arm_pc en = run_loop cpu K 0 (en\<lparr>en_ctx := (en_ctx en)\<lparr>ctx_pc := arm_pc\<rparr>\<rparr>)"

end
