(* ===== verification/X86_Host.thy ===== *)
theory X86_Host
  imports X86_Exec Exec_Engine
begin

text \<open>
  A concrete host processor for the engine: \<open>execute_block\<close> is given a function \<open>host_cpu\<close> that
  calls the code at an address with a context.  Here it is the machine of \<open>X86_Exec\<close>: the
  structure \<open>CPUContext\<close> is laid out in memory as the C++ compiler lays it out (832 bytes, the
  vectors aligned to 16), its address is passed in \<open>RDI\<close>, the code runs to its return, and the
  structure is read back.  It models the processor the generated code runs on and no code of
  the repository.
\<close>

section \<open>Memory\<close>

definition poke :: "u64 \<Rightarrow> u8 list \<Rightarrow> host \<Rightarrow> host" where
  "poke a bs h = h\<lparr>h_byte := upd_all (addrs a (length bs)) bs (h_byte h)\<rparr>"

definition peek :: "u64 \<Rightarrow> nat \<Rightarrow> host \<Rightarrow> u8 list" where
  "peek a n h = map (h_byte h) (addrs a n)"

lemma length_peek [simp]: "length (peek a n h) = n"
  by (simp add: peek_def addrs_def)

lemma h_prot_poke [simp]: "h_prot (poke a bs h) = h_prot h"
  by (simp add: poke_def)

lemma addrs_drop_take: "k + n \<le> m \<Longrightarrow> addrs (a + of_nat k) n = take n (drop k (addrs a m))"
  by (rule nth_equalityI) (simp_all add: addrs_def)

lemma peek_take_drop: "k + n \<le> m \<Longrightarrow> peek (a + of_nat k) n h = take n (drop k (peek a m h))"
  by (simp add: peek_def addrs_drop_take take_map drop_map)

lemma peek_poke_same: "length bs < 2 ^ 64 \<Longrightarrow> peek a (length bs) (poke a bs h) = bs"
  by (simp add: peek_def poke_def upd_all_same distinct_addrs)

lemma peek_poke_part:
  "k + n \<le> length bs \<Longrightarrow> length bs < 2 ^ 64 \<Longrightarrow> peek (a + of_nat k) n (poke a bs h) = take n (drop k bs)"
  by (simp add: peek_take_drop [where m = "length bs"] peek_poke_same)

text \<open>Two address spaces that differ inside a set of bytes only.\<close>

definition same_but :: "u64 set \<Rightarrow> host \<Rightarrow> host \<Rightarrow> bool" where
  "same_but A h h' \<longleftrightarrow> h_prot h' = h_prot h \<and> (\<forall>a. a \<notin> A \<longrightarrow> h_byte h' a = h_byte h a)"

lemma same_but_refl [simp]: "same_but A h h"
  by (simp add: same_but_def)

lemma same_but_trans: "same_but A h h1 \<Longrightarrow> same_but A h1 h2 \<Longrightarrow> same_but A h h2"
  by (simp add: same_but_def)

lemma same_but_mono: "same_but A h h' \<Longrightarrow> A \<subseteq> B \<Longrightarrow> same_but B h h'"
  by (auto simp: same_but_def)

lemma same_but_poke: "set (addrs a (length bs)) \<subseteq> A \<Longrightarrow> same_but A h (poke a bs h)"
  by (auto simp: same_but_def poke_def intro!: upd_all_other)

lemma same_but_peek: "same_but A h h' \<Longrightarrow> set (addrs a n) \<inter> A = {} \<Longrightarrow> peek a n h' = peek a n h"
  by (auto simp: same_but_def peek_def)

lemma same_but_perms:
  assumes "same_but A h h'"
  shows "writable a n h' = writable a n h" "can_read h' = can_read h"
  using assms by (simp_all add: same_but_def writable_def list_all_iff can_write_def can_read_def fun_eq_iff)

lemma same_but_read:
  assumes "same_but A h h'" "set (addrs a n) \<inter> A = {}"
  shows "host_read h' a n = host_read h a n"
  using same_but_peek [OF assms] same_but_perms(2) [OF assms(1)] by (simp add: host_read_def peek_def)

lemma mem_addrs_diff: "n \<le> 2 ^ 64 \<Longrightarrow> a \<in> set (addrs p n) \<longleftrightarrow> unat (a - p) < n"
proof
  assume n: "n \<le> 2 ^ 64" and "a \<in> set (addrs p n)"
  then obtain k where "k < n" "a = p + of_nat k" by (auto simp: mem_addrs)
  with n show "unat (a - p) < n" by (simp add: unsigned_of_nat take_bit_nat_eq_self)
next
  assume "unat (a - p) < n"
  then show "a \<in> set (addrs p n)" by (auto simp: mem_addrs intro!: exI [of _ "unat (a - p)"])
qed

lemma addrs_subset:
  assumes "k + n \<le> m"
  shows "set (addrs (a + of_nat k) n) \<subseteq> set (addrs a m)"
  unfolding addrs_drop_take [OF assms] by (meson order_trans set_drop_subset set_take_subset)

lemma addrs_mono: "n \<le> m \<Longrightarrow> set (addrs a n) \<subseteq> set (addrs a m)"
  using addrs_subset [of 0 n m a] by simp

lemma addrs_disjoint:
  assumes "k + m \<le> l" "l + n \<le> 2 ^ 64"
  shows "set (addrs (p + of_nat k) m) \<inter> set (addrs (p + of_nat l) n) = {}"
proof -
  have False if "i < m" "j < n" "p + of_nat k + of_nat i = p + of_nat l + of_nat j" for i j
  proof -
    from that(3) have "(of_nat (k + i) :: u64) = of_nat (l + j)" by (simp add: add.assoc)
    then have "k + i = l + j" using assms that(1,2) by (subst (asm) of_nat_u64_eq) linarith+
    with that assms show False by linarith
  qed
  then show ?thesis by (auto simp: mem_addrs)
qed

section \<open>The context structure\<close>

text \<open>The words below the vectors, and the vectors with the fields behind them; the eight bytes
  between are padding.\<close>

definition ctx_head :: "CPUContext \<Rightarrow> u8 list" where
  "ctx_head ctx = concat (map (le_bytes 8) (int_words ctx @ [ctx_nzcv ctx]))"

definition ctx_tail :: "CPUContext \<Rightarrow> u8 list" where
  "ctx_tail ctx = concat (ctx_v ctx) @ le_bytes 4 (ctx_fpcr ctx) @ le_bytes 4 (ctx_fpsr ctx) @
     le_bytes 8 (ctx_tpidr_el0 ctx) @ le_bytes 8 (ctx_tid ctx) @
     le_bytes 4 (ctx_state_flags ctx) @ le_bytes 4 (ctx_exit_status ctx)"

definition store_ctx :: "u64 \<Rightarrow> CPUContext \<Rightarrow> host \<Rightarrow> host" where
  "store_ctx p ctx h = poke (p + 288) (ctx_tail ctx) (poke p (ctx_head ctx) h)"

definition load_ctx :: "u64 \<Rightarrow> host \<Rightarrow> CPUContext" where
  "load_ctx p h = \<lparr>ctx_x = map (\<lambda>i. get_slot p i h) [0..<31], ctx_sp = get_slot p 31 h,
     ctx_pc = get_slot p 32 h, ctx_lr = get_slot p 33 h, ctx_nzcv = get_slot p 34 h,
     ctx_v = map (\<lambda>i. peek (p + 288 + of_nat (16 * i)) 16 h) [0..<32],
     ctx_fpcr = le_word (peek (p + 800) 4 h), ctx_fpsr = le_word (peek (p + 804) 4 h),
     ctx_tpidr_el0 = le_word (peek (p + 808) 8 h), ctx_tid = le_word (peek (p + 816) 8 h),
     ctx_state_flags = le_word (peek (p + 824) 4 h), ctx_exit_status = le_word (peek (p + 828) 4 h)\<rparr>"

lemma load_ctx_wf [simp]: "ctx_wf (load_ctx p h)"
  by (auto simp: ctx_wf_def load_ctx_def)

lemma int_words_load: "int_words (load_ctx p h) = int_slots p h"
  by (rule nth_equalityI) (auto simp: int_words_def load_ctx_def int_slots_def nth_append less_Suc_eq numeral_eq_Suc)

lemma chunk_concat: "i < length ws \<Longrightarrow> take n (drop (n * i) (concat (map (le_bytes n) ws))) = le_bytes n (ws ! i)"
proof (induction ws arbitrary: i)
  case (Cons w ws)
  then show ?case by (cases i) simp_all
qed simp

lemma length_ctx_head: "ctx_wf ctx \<Longrightarrow> length (ctx_head ctx) = 280"
  by (simp add: ctx_head_def ctx_wf_def int_words_def length_concat comp_def sum_list_triv)

lemma length_concat_vectors: "ctx_wf ctx \<Longrightarrow> length (concat (ctx_v ctx)) = 512"
proof -
  assume wf: "ctx_wf ctx"
  then have "sum_list (map length (ctx_v ctx)) = sum_list (map (\<lambda>_. 16) (ctx_v ctx))"
    by (intro arg_cong [where f = sum_list]) (auto simp: ctx_wf_def)
  also have "\<dots> = 512" using wf by (simp only: sum_list_triv) (simp add: ctx_wf_def)
  finally show ?thesis by (simp add: length_concat)
qed

lemma length_ctx_tail: "ctx_wf ctx \<Longrightarrow> length (ctx_tail ctx) = 544"
  by (simp add: ctx_tail_def length_concat_vectors)

text \<open>The part of the context that a block leaves alone.\<close>

definition ctx_control :: "CPUContext \<Rightarrow> u32 \<times> u32 \<times> u64 \<times> u64 \<times> u32 \<times> i32" where
  "ctx_control ctx = (ctx_fpcr ctx, ctx_fpsr ctx, ctx_tpidr_el0 ctx, ctx_tid ctx, ctx_state_flags ctx, ctx_exit_status ctx)"

lemma peek_tail:
  assumes "ctx_wf ctx" "peek (p + 800) 32 h = drop 512 (ctx_tail ctx)"
  shows "ctx_control (load_ctx p h) = ctx_control ctx"
proof -
  have t: "peek (p + 800) 32 h = le_bytes 4 (ctx_fpcr ctx) @ le_bytes 4 (ctx_fpsr ctx) @
     le_bytes 8 (ctx_tpidr_el0 ctx) @ le_bytes 8 (ctx_tid ctx) @
     le_bytes 4 (ctx_state_flags ctx) @ le_bytes 4 (ctx_exit_status ctx)"
    using assms by (simp add: ctx_tail_def length_concat_vectors)
  have f: "peek (p + 800 + of_nat k) n h = take n (drop k (peek (p + 800) 32 h))" if "k + n \<le> 32" for k n
    using that by (rule peek_take_drop)
  show ?thesis
    using f [of 0 4] f [of 4 4] f [of 8 8] f [of 16 8] f [of 24 4] f [of 28 4]
    unfolding t by (simp add: ctx_control_def load_ctx_def le_word_le_bytes add.commute [of p])
qed

lemma int_slots_store:
  assumes "ctx_wf ctx"
  shows "int_slots p (store_ctx p ctx h) = int_words ctx"
proof (rule nth_equalityI)
  show "length (int_slots p (store_ctx p ctx h)) = length (int_words ctx)"
    using assms by (simp add: int_words_def ctx_wf_def)
  fix i assume "i < length (int_slots p (store_ctx p ctx h))"
  then have i: "i < 34" by simp
  have w: "length (int_words ctx) = 34" using assms by (simp add: int_words_def ctx_wf_def)
  have "set (addrs (slot p i) 8) \<inter> set (addrs (p + 288) 544) = {}"
    using addrs_disjoint [of "8 * i" 8 288 544 p] i by (simp add: slot_def)
  then have "peek (slot p i) 8 (store_ctx p ctx h) = peek (slot p i) 8 (poke p (ctx_head ctx) h)"
    unfolding store_ctx_def using length_ctx_tail [OF assms]
    by (intro same_but_peek [OF same_but_poke [OF order_refl]]) simp
  also have "\<dots> = le_bytes 8 (int_words ctx ! i)"
    unfolding slot_def using length_ctx_head [OF assms] i w chunk_concat [of i "int_words ctx @ [ctx_nzcv ctx]" 8]
    by (subst peek_poke_part) (simp_all add: ctx_head_def nth_append)
  finally show "int_slots p (store_ctx p ctx h) ! i = int_words ctx ! i"
    using i by (simp add: int_slots_def get_slot_def peek_def [symmetric] le_word_le_bytes)
qed

lemma control_store:
  assumes "ctx_wf ctx"
  shows "peek (p + 800) 32 (store_ctx p ctx h) = drop 512 (ctx_tail ctx)"
  using peek_poke_part [of 512 32 "ctx_tail ctx" "p + 288" "poke p (ctx_head ctx) h"] length_ctx_tail [OF assms]
  by (simp add: store_ctx_def add.assoc)

lemma same_but_store: "ctx_wf ctx \<Longrightarrow> same_but (set (addrs p 832)) h (store_ctx p ctx h)"
  unfolding store_ctx_def
  using addrs_mono [of 280 832 p] addrs_subset [of 288 544 832 p]
  by (intro same_but_trans [OF same_but_poke same_but_poke]) (simp_all add: length_ctx_head length_ctx_tail)

section \<open>The processor\<close>

text \<open>\<open>st0\<close> gives the registers and flags at the call; \<open>RDI\<close> and \<open>RSP\<close> are the context's address
  and the stack.  A run that does not return counts as a fault.\<close>

definition x86_host :: "flag_sem \<Rightarrow> x86_state \<Rightarrow> host_cpu" where
  "x86_host fl st0 hc ctx h =
    (let p = xs_reg st0 RDI; h1 = store_ctx p ctx h
     in case x86_run fl 4096 (peek hc 4096 h1) (st0\<lparr>xs_host := h1\<rparr>) of
          None \<Rightarrow> (True, ctx, h1)
        | Some st \<Rightarrow> (False, load_ctx p (xs_host st), xs_host st))"

lemma x86_host_keeps_shape: "ctx_wf ctx \<Longrightarrow> ctx_wf (fst (snd (x86_host fl st0 hc ctx h)))"
  by (simp add: x86_host_def Let_def split: option.splits)

definition call_bytes :: "x86_state \<Rightarrow> u64 set" where
  "call_bytes st0 = set (addrs (xs_reg st0 RDI) 832) \<union> set (addrs (xs_reg st0 RSP - 8) 8)"

definition host_ready :: "x86_state \<Rightarrow> host \<Rightarrow> bool" where
  "host_ready st0 h \<longleftrightarrow> writable (xs_reg st0 RDI) 832 h \<and> writable (xs_reg st0 RSP - 8) 8 h \<and>
     disjoint_ranges (xs_reg st0 RSP - 8) 8 (xs_reg st0 RDI) 832"

lemma host_ready_same: "same_but A h h' \<Longrightarrow> host_ready st0 h' = host_ready st0 h"
  by (simp add: host_ready_def same_but_perms)

lemma writable_mono: "writable p m h \<Longrightarrow> n \<le> m \<Longrightarrow> writable p n h"
  using addrs_mono [of n m p] by (auto simp: writable_def list_all_iff)

text \<open>The call finds the state that \<open>jit_entry\<close> describes, and what \<open>jit_exit\<close> promises is read
  back into a context.\<close>

lemma x86_host_entry:
  assumes "host_ready st0 h" "ctx_wf ctx"
  shows "jit_entry (xs_reg st0 RDI) ctx (st0\<lparr>xs_host := store_ctx (xs_reg st0 RDI) ctx h\<rparr>)"
proof -
  let ?p = "xs_reg st0 RDI" let ?h = "store_ctx ?p ctx h"
  have "host_ready st0 ?h" using host_ready_same [OF same_but_store [OF assms(2)]] assms(1) by blast
  then have "writable ?p ctx_bytes ?h" "writable (xs_reg st0 RSP - 8) 8 ?h"
      "disjoint_ranges (xs_reg st0 RSP - 8) 8 ?p ctx_bytes"
    using addrs_mono [of ctx_bytes 832 ?p]
    by (auto simp: host_ready_def ctx_bytes_def disjoint_ranges_def intro: writable_mono)
  then show ?thesis using assms(2) by (simp add: jit_entry_def int_slots_store)
qed

lemma x86_host_exit:
  assumes "host_ready st0 h" "ctx_wf ctx"
    and "x86_run fl 4096 (peek hc 4096 (store_ctx (xs_reg st0 RDI) ctx h)) (st0\<lparr>xs_host := store_ctx (xs_reg st0 RDI) ctx h\<rparr>) = Some st"
    and "jit_exit (xs_reg st0 RDI) ctx' (st0\<lparr>xs_host := store_ctx (xs_reg st0 RDI) ctx h\<rparr>) st"
  shows "\<exists>c h'. x86_host fl st0 hc ctx h = (False, c, h') \<and> ctx_wf c \<and> int_words c = int_words ctx' \<and>
    ctx_control c = ctx_control ctx \<and> same_but (call_bytes st0) h h'"
proof -
  let ?p = "xs_reg st0 RDI" let ?h = "store_ctx ?p ctx h" let ?c = "load_ctx ?p (xs_host st)"
  let ?A = "set (addrs ?p 280) \<union> set (addrs (?p + 512) 24) \<union> set (addrs (xs_reg st0 RSP - 8) 8)"
  have frame: "same_but ?A ?h (xs_host st)" using assms(4) by (simp add: jit_exit_def jit_frame_def same_but_def)
  have "set (addrs (?p + 800) 32) \<inter> ?A = {}"
    using addrs_disjoint [of 0 280 800 32 ?p] addrs_disjoint [of 512 24 800 32 ?p] assms(1)
      addrs_subset [of 800 32 832 ?p]
    by (auto simp: host_ready_def disjoint_ranges_def)
  from same_but_peek [OF frame this] control_store [OF assms(2)]
  have "ctx_control ?c = ctx_control ctx" by (intro peek_tail [OF assms(2)]) simp
  moreover have "int_words ?c = int_words ctx'" using assms(4) by (simp add: int_words_load jit_exit_def)
  moreover have "same_but (call_bytes st0) h (xs_host st)"
    using addrs_mono [of 280 832 ?p] addrs_subset [of 512 24 832 ?p]
    by (intro same_but_trans [OF same_but_mono [OF same_but_store [OF assms(2)]] same_but_mono [OF frame]])
      (auto simp: call_bytes_def)
  ultimately show ?thesis by (simp add: x86_host_def Let_def assms(3))
qed

end
