(* ===== verification/Code_Size.thy ===== *)
theory Code_Size
  imports X86_Exec
begin

text \<open>
  How many bytes the code of a block takes.  The engine grants every block 4096 bytes and the
  emitter drops what does not fit, so a block is only executed as it was meant when its code is
  shorter; the bounds here come from the encodings the disassembler of \<open>X86_Spec\<close> accepts.
\<close>

primrec asm_len :: "x86 \<Rightarrow> nat" where
  "asm_len (MovImm r v) = 10" | "asm_len (MovRR d s) = 3" | "asm_len (AluRR op d s) = 3"
| "asm_len (AluImm op d v) = 7" | "asm_len (TestRR d s) = 3" | "asm_len (ImulRR d s) = 4"
| "asm_len (Load r b d) = 8" | "asm_len (Store b d r) = 8" | "asm_len (ShiftImm s d k) = 4"
| "asm_len (ShiftCl s d) = 3" | "asm_len (Jcc cc d) = 7" | "asm_len Pushfq = 2" | "asm_len (Pop r) = 2"
| "asm_len Ret = 2" | "asm_len Nop = 2" | "asm_len Int3 = 2"

definition asm_size :: "x86 list \<Rightarrow> nat" where
  "asm_size is = sum_list (map asm_len is)"

lemma asm_size_simps [simp]:
  "asm_size [] = 0" "asm_size (i # is) = asm_len i + asm_size is" "asm_size (is @ js) = asm_size is + asm_size js"
  by (simp_all add: asm_size_def)

lemma take_imm_len: "take_imm n bs = Some (v, bs') \<Longrightarrow> length bs = length bs' + n"
  by (auto simp: take_imm_def split: if_splits)

lemma x86_modrm_len:
  "x86_modrm r b bs = Some (reg, rm, bs') \<Longrightarrow> length bs \<le> length bs' + (case rm of OReg _ \<Rightarrow> 1 | OMem _ _ \<Rightarrow> 6)"
  by (auto simp: x86_modrm_def Let_def dest!: take_imm_len split: list.splits if_splits Option.bind_splits)

lemma x86_opcode_len: "x86_opcode w r b op bs = Some (i, bs') \<Longrightarrow> length bs + 2 \<le> length bs' + asm_len i"
  unfolding x86_opcode_def Let_def
  by (auto dest!: take_imm_len x86_modrm_len
    split: list.splits if_splits Option.bind_splits option.splits operand.splits prod.splits)

lemma x86_decode_len: "x86_decode bs = Some (i, bs') \<Longrightarrow> length bs \<le> length bs' + asm_len i"
  by (fastforce simp: x86_decode_def dest!: x86_opcode_len split: list.splits if_splits)

lemma decodes_to_len: "decodes_to bs is \<Longrightarrow> length bs \<le> asm_size is"
proof (induction "is" arbitrary: bs)
  case (Cons i "is")
  then obtain bs' where "x86_decode (bs @ []) = Some (i, bs' @ [])" "decodes_to bs' is" by (meson decodes_to.simps(2))
  with Cons.IH [of bs'] x86_decode_len [of bs i bs'] show ?case by simp
qed simp

text \<open>An instruction that saves the flags carries the code of \<open>save_nzcv\<close>.\<close>

definition ir_bound :: "IRInst \<Rightarrow> nat" where
  "ir_bound i = (if i_flags_set i then 164 else 27)"

lemma nzcv_asm_size: "asm_size nzcv_asm = 137"
  by (simp add: nzcv_asm_def)

lemma lower_asm_size: "jit_ok i \<Longrightarrow> asm_size (lower_asm fall i) \<le> ir_bound i"
  by (cases "i_op i") (simp_all add: jit_ok_def lower_asm_def binary_asm_def block_ret_asm_def ld_asm_def st_asm_def
    ir_bound_def nzcv_asm_size)

lemma block_asm_size:
  "\<forall>i\<in>set is. jit_ok i \<Longrightarrow> asm_size (block_asm fall is) \<le> 23 + sum_list (map ir_bound is)"
proof -
  have "\<forall>i\<in>set is. jit_ok i \<Longrightarrow> asm_size (concat (map (lower_asm fall) is)) \<le> sum_list (map ir_bound is)"
    by (induction "is") (auto simp: add_mono lower_asm_size)
  then show "\<forall>i\<in>set is. jit_ok i \<Longrightarrow> asm_size (block_asm fall is) \<le> 23 + sum_list (map ir_bound is)"
    by (simp add: block_asm_def block_ret_asm_def)
qed

end
