(* ===== verification/Jit_Correct.thy ===== *)
theory Jit_Correct
  imports Code_Size Exec_Engine
begin

text \<open>
  The two ways in which the engine executes guest code agree.  \<open>interp\<close> iterates the
  interpreter of \<open>Exec_Engine\<close> over decoded instructions; for the instructions in
  \<open>straight\<close> it changes the integer state of the context exactly as the intermediate
  representation that the builder makes of them, and hence (\<open>X86_Exec\<close>) as the machine code that
  \<open>translate_block\<close> puts into the code pool.
\<close>

section \<open>The interpreter on a list of instructions\<close>

fun interp :: "DecodedInstr list \<Rightarrow> MemoryManager \<Rightarrow> CPUContext \<Rightarrow> host \<Rightarrow> (CPUContext \<times> host) option" where
  "interp [] mm ctx h = Some (ctx, h)"
| "interp (d # ds) mm ctx h = do {
     (ctx, h) \<leftarrow> execute_decoded d mm ctx h;
     interp ds mm ctx h }"

text \<open>Decoded instructions on which both agree: ADD and SUB with an immediate, MOVZ, ADR, ADRP and
  NOP within the block, B and BL with a forward displacement at its end; the registers are
  below 31, where the interpreter's accesses are defined.\<close>

definition straight :: "DecodedInstr \<Rightarrow> bool" where
  "straight d \<longleftrightarrow> \<not> ends_block (d_category d) \<and>
     (d_opcode d \<in> {0x00, 0x01} \<and> d_rm d = 0xFF \<and> d_rd d < 31 \<and> d_rn d < 31 \<and> d_imm d < 2 ^ 31 \<or>
      d_opcode d \<in> {0x22, 0x24, 0x25} \<and> d_rd d < 31 \<or> d_opcode d = 0x90)"

definition forward_branch :: "DecodedInstr \<Rightarrow> bool" where
  "forward_branch d \<longleftrightarrow> ends_block (d_category d) \<and> d_opcode d \<in> {0x50, 0x51} \<and> \<not> bit (d_branch_offset d) 31"

lemma unat_ucast_reg [simp]: "unat (ucast r :: IRReg) = unat r" for r :: u8
proof -
  have "unat r < 2 ^ LENGTH(8)" by (rule unsigned_less)
  then show ?thesis by (simp add: unsigned_ucast_eq take_bit_nat_eq_self)
qed

lemma reg_lt_31:
  assumes "(r :: u8) < 31"
  shows "(ucast r :: IRReg) < 32" "unat r < 31"
  using assms by (simp_all add: word_less_nat_alt)

definition sized :: "DecodedInstr \<Rightarrow> IRInst" where
  "sized d = IRInst_init\<lparr>i_size := (if d_size d \<noteq> 0 then 8 else 4)\<rparr>"

lemma instr_ir_straight:
  "d_opcode d = 0 \<Longrightarrow> d_rm d = 0xFF \<Longrightarrow> instr_ir d pc = [(sized d)\<lparr>i_op := Op_ADD, i_dest := ucast (d_rd d),
     i_src1 := ucast (d_rn d), i_src2 := IR_IMM, i_imm := d_imm d, i_flags_set := d_sets_flags d\<rparr>]"
  "d_opcode d = 1 \<Longrightarrow> d_rm d = 0xFF \<Longrightarrow> instr_ir d pc = [(sized d)\<lparr>i_op := Op_SUB, i_dest := ucast (d_rd d),
     i_src1 := ucast (d_rn d), i_src2 := IR_IMM, i_imm := d_imm d, i_flags_set := d_sets_flags d\<rparr>]"
  "d_opcode d = 0x22 \<Longrightarrow> instr_ir d pc = [(sized d)\<lparr>i_op := Op_MOV_IMM, i_dest := ucast (d_rd d), i_imm := d_imm d\<rparr>]"
  "d_opcode d = 0x24 \<Longrightarrow> instr_ir d pc = [(sized d)\<lparr>i_op := Op_MOV_IMM, i_dest := ucast (d_rd d), i_imm := pc + d_imm_s d\<rparr>]"
  "d_opcode d = 0x25 \<Longrightarrow> instr_ir d pc = [(sized d)\<lparr>i_op := Op_MOV_IMM, i_dest := ucast (d_rd d),
     i_imm := (pc AND NOT 0xFFF) + push_bit 12 (d_imm_s d)\<rparr>]"
  "d_opcode d = 0x90 \<Longrightarrow> instr_ir d pc = [(sized d)\<lparr>i_op := Op_NOP\<rparr>]"
  "d_opcode d = 0x50 \<Longrightarrow> instr_ir d pc = [(sized d)\<lparr>i_op := Op_JMP, i_imm := pc + scast (d_branch_offset d)\<rparr>]"
  "d_opcode d = 0x51 \<Longrightarrow> instr_ir d pc = [IRInst_init\<lparr>i_op := Op_SET_REG, i_dest := 30, i_src1 := IR_NONE,
     i_imm := pc + 4\<rparr>, (sized d)\<lparr>i_op := Op_CALL, i_imm := pc + scast (d_branch_offset d)\<rparr>]"
  by (simp_all add: instr_ir_eval arith_operand_def sized_def IRBlock_init_def)

text \<open>The interpreter on the same opcodes.\<close>

lemma execute_decoded_straight:
  "d_opcode d = 0 \<Longrightarrow> d_rd d < 31 \<Longrightarrow> d_rn d < 31 \<Longrightarrow> execute_decoded d mm ctx h =
     Some (next_pc (ctx\<lparr>ctx_x := (ctx_x ctx)[unat (d_rd d) := ctx_x ctx ! unat (d_rn d) + d_imm d]\<rparr>), h)"
  "d_opcode d = 1 \<Longrightarrow> d_rd d < 31 \<Longrightarrow> d_rn d < 31 \<Longrightarrow> execute_decoded d mm ctx h =
     Some (next_pc (ctx\<lparr>ctx_x := (ctx_x ctx)[unat (d_rd d) := ctx_x ctx ! unat (d_rn d) - d_imm d]\<rparr>), h)"
  "d_opcode d = 0x22 \<Longrightarrow> d_rd d < 31 \<Longrightarrow> execute_decoded d mm ctx h =
     Some (next_pc (ctx\<lparr>ctx_x := (ctx_x ctx)[unat (d_rd d) := d_imm d]\<rparr>), h)"
  "d_opcode d = 0x24 \<Longrightarrow> d_rd d < 31 \<Longrightarrow> execute_decoded d mm ctx h =
     Some (next_pc (ctx\<lparr>ctx_x := (ctx_x ctx)[unat (d_rd d) := ctx_pc ctx + d_imm_s d]\<rparr>), h)"
  "d_opcode d = 0x25 \<Longrightarrow> d_rd d < 31 \<Longrightarrow> execute_decoded d mm ctx h =
     Some (next_pc (ctx\<lparr>ctx_x := (ctx_x ctx)[unat (d_rd d) := (ctx_pc ctx AND NOT 0xFFF) + push_bit 12 (d_imm_s d)]\<rparr>), h)"
  "d_opcode d = 0x90 \<Longrightarrow> execute_decoded d mm ctx h = Some (next_pc ctx, h)"
  "d_opcode d = 0x50 \<Longrightarrow> execute_decoded d mm ctx h = Some (branch_by d ctx, h)"
  "d_opcode d = 0x51 \<Longrightarrow> execute_decoded d mm ctx h =
     Some (branch_by d (ctx\<lparr>ctx_x := (ctx_x ctx)[30 := ctx_pc ctx + 4]\<rparr>), h)"
  by (simp_all add: execute_decoded_def exec_data_def exec_memory_def exec_branch_def exec_compare_def get_x_def set_x_def
    reg_lt_31(2) Let_def)

lemma ir_access_x:
  assumes "(r :: u8) < 31"
  shows "ir_get ctx (ucast r) = ctx_x ctx ! unat r" "ir_set (ucast r) v ctx = ctx\<lparr>ctx_x := (ctx_x ctx)[unat r := v]\<rparr>"
  unfolding ir_get_def ir_set_def reg_access_nat unat_ucast_reg using reg_lt_31(2) [OF assms] by simp_all

lemma exec_straight:
  assumes "straight d"
  shows "\<exists>i. instr_ir d (ctx_pc ctx) = [i] \<and> jit_ok i \<and> \<not> ir_ends i \<and>
    execute_decoded d mm ctx h = Some (next_pc (snd (ir_exec i ctx)), h)"
  using assms unfolding straight_def
  by (elim conjE disjE insertE emptyE)
    (simp_all add: instr_ir_straight execute_decoded_straight jit_ok_def alu_operand_ok_def ir_ends_def ir_exec_def
      ir_operand_def ir_access_x reg_lt_31)

lemma ir_exec_pc:
  assumes "jit_ok i"
  shows "snd (ir_exec i (ctx\<lparr>ctx_pc := v\<rparr>)) =
    (if ir_ends i then snd (ir_exec i ctx) else (snd (ir_exec i ctx))\<lparr>ctx_pc := v\<rparr>)"
  using assms
  by (cases "i_op i") (simp_all add: jit_ok_def ir_exec_def ir_ends_def ir_get_def ir_set_def ir_operand_def
    cpu_context_get_reg_def cpu_context_set_reg_def Let_def)

section \<open>Blocks\<close>

text \<open>The guest address of instruction \<open>k\<close> of a block.\<close>

definition pc_at :: "u64 \<Rightarrow> nat \<Rightarrow> u64" where
  "pc_at pc k = pc + of_nat (4 * k)"

lemma pc_at_index: "4 * k < 2 ^ 32 \<Longrightarrow> pc + ucast ((of_nat k :: u32) * 4) = pc_at pc k"
proof -
  assume k: "4 * k < 2 ^ 32"
  have "(of_nat k :: u32) * 4 = of_nat (4 * k)" by (simp add: mult.commute)
  moreover have "unat (of_nat (4 * k) :: u32) = 4 * k"
    using k by (simp only: unsigned_of_nat take_bit_nat_eq_self) (simp add: take_bit_nat_eq_self)
  moreover have "ucast (of_nat (4 * k) :: u32) = (of_nat (unat (of_nat (4 * k) :: u32)) :: u64)"
    by (rule of_nat_unat [symmetric])
  ultimately show ?thesis by (simp only: pc_at_def)
qed

text \<open>The interpreter on straight instructions, and the representation of the same instructions
  executed in front of any others.\<close>

lemma interp_straight:
  assumes "\<forall>d\<in>set ds. straight d" and "4 * (k + length ds) < 2 ^ 32"
  shows "\<exists>c'. interp ds mm (c\<lparr>ctx_pc := pc_at pc k\<rparr>) h = Some (c'\<lparr>ctx_pc := pc_at pc (k + length ds)\<rparr>, h) \<and>
    (\<forall>fall js. ir_exec_block fall (block_ir ds (of_nat k) pc @ js) c = ir_exec_block fall js c') \<and>
    (\<forall>i\<in>set (block_ir ds (of_nat k) pc). jit_ok i) \<and> length (block_ir ds (of_nat k) pc) = length ds"
  using assms
proof (induction ds arbitrary: k c)
  case Nil
  then show ?case by auto
next
  case (Cons d ds)
  let ?c = "c\<lparr>ctx_pc := pc_at pc k\<rparr>"
  have k: "pc + ucast ((of_nat k :: u32) * 4) = pc_at pc k" using Cons.prems(2) by (intro pc_at_index) simp
  from Cons.prems(1) have "straight d" by simp
  from exec_straight [OF this, of ?c mm h] obtain i where i: "instr_ir d (pc_at pc k) = [i]" "jit_ok i" "\<not> ir_ends i"
      "execute_decoded d mm ?c h = Some (next_pc (snd (ir_exec i ?c)), h)" by auto
  define c1 where "c1 = snd (ir_exec i c)"
  have "next_pc (snd (ir_exec i ?c)) = c1\<lparr>ctx_pc := pc_at pc (Suc k)\<rparr>"
    using ir_exec_pc [OF i(2), where ctx = c and v = "pc_at pc k"] i(3)
    by (simp add: next_pc_def c1_def pc_at_def)
  with i(4) have e: "execute_decoded d mm ?c h = Some (c1\<lparr>ctx_pc := pc_at pc (Suc k)\<rparr>, h)" by simp
  obtain c' where c': "interp ds mm (c1\<lparr>ctx_pc := pc_at pc (Suc k)\<rparr>) h = Some (c'\<lparr>ctx_pc := pc_at pc (Suc k + length ds)\<rparr>, h)"
      "\<And>fall js. ir_exec_block fall (block_ir ds (of_nat (Suc k)) pc @ js) c1 = ir_exec_block fall js c'"
      "\<forall>i\<in>set (block_ir ds (of_nat (Suc k)) pc). jit_ok i" "length (block_ir ds (of_nat (Suc k)) pc) = length ds"
    using Cons.IH [of "Suc k" c1] Cons.prems by auto
  have "block_ir (d # ds) (of_nat k) pc = i # block_ir ds (of_nat (Suc k)) pc"
    using i(1) k by (simp add: add.commute)
  moreover have "ir_exec_block fall (i # is) c = ir_exec_block fall is c1" for fall "is"
    using i(3) fst_ir_exec [of i c] by (simp add: case_prod_beta c1_def)
  ultimately show ?case using e c' i(2) by (intro exI [of _ c']) simp
qed

text \<open>A block: straight instructions, the last of which may be a forward branch.\<close>

definition jit_block :: "DecodedInstr list \<Rightarrow> bool" where
  "jit_block ds \<longleftrightarrow> ds \<noteq> [] \<and> list_all straight (butlast ds) \<and> (straight (last ds) \<or> forward_branch (last ds))"

lemma scast_forward:
  assumes "\<not> bit (w :: u32) 31"
  shows "(scast w :: u64) = ucast w"
proof -
  have small: "n < 31" if "bit w n" for n
  proof (rule ccontr)
    assume "\<not> n < 31"
    moreover have "n < 32" using bit_imp_le_length [OF that] by simp
    ultimately have "n = 31" by linarith
    with that assms show False by simp
  qed
  show ?thesis by (intro bit_word_eqI) (auto simp: bit_simps min_def assms dest: small)
qed

lemma exec_forward_branch:
  assumes "forward_branch d"
  shows "(\<forall>i\<in>set (instr_ir d (ctx_pc ctx)). jit_ok i) \<and> length (instr_ir d (ctx_pc ctx)) \<le> 2 \<and>
    execute_decoded d mm ctx h = Some (ir_exec_block fall (instr_ir d (ctx_pc ctx)) (ctx\<lparr>ctx_pc := v\<rparr>), h)"
proof -
  have "(scast (d_branch_offset d) :: u64) = ucast (d_branch_offset d)"
    using assms by (intro scast_forward) (simp add: forward_branch_def)
  moreover have "d_opcode d = 0x50 \<or> d_opcode d = 0x51" using assms by (simp add: forward_branch_def)
  ultimately show ?thesis
    by (elim disjE) (simp_all add: instr_ir_straight execute_decoded_straight jit_ok_def ir_exec_def branch_by_def
      ir_set_def cpu_context_set_reg_def IR_NONE_def)
qed

lemma interp_block:
  assumes "jit_block ds" "4 * length ds < 2 ^ 32" "ctx_pc ctx = pc"
  shows "\<exists>ctx'. interp ds mm ctx h = Some (ctx', h) \<and>
    ctx' = ir_exec_block (pc_at pc (length ds)) (block_ir ds 0 pc) ctx \<and>
    (\<forall>i\<in>set (block_ir ds 0 pc). jit_ok i) \<and> length (block_ir ds 0 pc) \<le> length ds + 1"
proof -
  have c0: "ctx\<lparr>ctx_pc := pc_at pc 0\<rparr> = ctx" using assms(3) by (simp add: pc_at_def)
  show ?thesis
  proof (cases "straight (last ds)")
    case True
    moreover have "set ds = insert (last ds) (set (butlast ds))"
      using assms(1) append_butlast_last_id [of ds] by (metis jit_block_def list.simps(15) rotate1.simps(2) set_rotate1)
    ultimately have "\<forall>d\<in>set ds. straight d" using assms(1) by (auto simp: jit_block_def list_all_iff)
    from interp_straight [OF this, of 0 mm pc ctx h] assms(2) c0
    obtain c' where "interp ds mm ctx h = Some (c'\<lparr>ctx_pc := pc_at pc (length ds)\<rparr>, h)"
        "\<And>fall js. ir_exec_block fall (block_ir ds 0 pc @ js) ctx = ir_exec_block fall js c'"
        "\<forall>i\<in>set (block_ir ds 0 pc). jit_ok i" "length (block_ir ds 0 pc) = length ds" by auto
    from this(1,3,4) this(2) [of _ "[]"] show ?thesis by simp
  next
    case False
    define es d where "es = butlast ds" and "d = last ds"
    have ds: "ds = es @ [d]" and br: "forward_branch d" and es: "\<forall>d\<in>set es. straight d"
      using assms(1) False by (auto simp: jit_block_def es_def d_def list_all_iff)
    let ?k = "length es"
    obtain c' where c': "interp es mm ctx h = Some (c'\<lparr>ctx_pc := pc_at pc ?k\<rparr>, h)"
        "\<And>fall js. ir_exec_block fall (block_ir es 0 pc @ js) ctx = ir_exec_block fall js c'"
        "\<forall>i\<in>set (block_ir es 0 pc). jit_ok i" "length (block_ir es 0 pc) = ?k"
      using interp_straight [OF es, of 0 mm pc ctx h] assms(2) c0 by (auto simp: ds)
    have split: "block_ir (es @ [d]) 0 pc = block_ir es 0 pc @ instr_ir d (pc_at pc ?k)"
    proof -
      have "block_ir (es @ [d]) i pc = block_ir es i pc @ instr_ir d (pc + ucast ((i + of_nat (length es)) * 4))" for i es
        by (induction es arbitrary: i) (simp_all add: ac_simps)
      moreover have "pc + ucast ((of_nat ?k :: u32) * 4) = pc_at pc ?k"
        using assms(2) by (intro pc_at_index) (simp add: ds)
      ultimately show ?thesis by simp
    qed
    from exec_forward_branch [OF br, where ctx = "c'\<lparr>ctx_pc := pc_at pc ?k\<rparr>" and mm = mm and h = h and
        fall = "pc_at pc (length ds)" and v = "ctx_pc c'"]
    have "(\<forall>i\<in>set (instr_ir d (pc_at pc ?k)). jit_ok i) \<and> length (instr_ir d (pc_at pc ?k)) \<le> 2 \<and>
      execute_decoded d mm (c'\<lparr>ctx_pc := pc_at pc ?k\<rparr>) h =
        Some (ir_exec_block (pc_at pc (length ds)) (instr_ir d (pc_at pc ?k)) c', h)" by simp
    moreover have "interp (xs @ [d]) mm c h = Option.bind (interp xs mm c h) (\<lambda>(c, h). execute_decoded d mm c h)" for xs c h
      by (induction xs arbitrary: c h) (auto split: Option.bind_splits)
    ultimately show ?thesis using c' by (auto simp: split ds)
  qed
qed

text \<open>The optimiser changes flag marks only, which neither the supported subset nor the meaning of
  an instruction looks at.\<close>

definition unmark :: "IRInst \<Rightarrow> IRInst" where
  "unmark i = i\<lparr>i_flags_set := False\<rparr>"

lemma unmark_simps [simp]:
  "i_op (unmark i) = i_op i" "i_dest (unmark i) = i_dest i" "i_src1 (unmark i) = i_src1 i"
  "i_src2 (unmark i) = i_src2 i" "i_imm (unmark i) = i_imm i"
  by (simp_all add: unmark_def)

lemma unmark_irrelevant: "jit_ok (unmark i) = jit_ok i" "ir_exec (unmark i) ctx = ir_exec i ctx"
  by (cases "i_op i"; simp add: jit_ok_def alu_operand_ok_def)
     (cases "i_op i"; simp add: ir_exec_def ir_operand_def)

lemma unmark_merge: "map unmark (merge_reference xs) = map unmark xs"
  by (rule nth_equalityI) (simp_all add: unmark_def merge_reference_def)

lemma ir_exec_block_unmark: "ir_exec_block fall (map unmark is) ctx = ir_exec_block fall is ctx"
  by (induction "is" arbitrary: ctx) (simp_all add: unmark_irrelevant split: prod.splits)

lemma jit_ok_unmark: "(\<forall>i\<in>set (map unmark is). jit_ok i) \<longleftrightarrow> (\<forall>i\<in>set is. jit_ok i)"
  by (simp add: unmark_irrelevant)

lemma optimize_instructions: "b_instructions (optimize b) = merge_reference (b_instructions b)"
  by (simp add: optimize_def constant_propagation_def dead_code_elimination_def flag_merging_reference)

lemma merge_meaning:
  "ir_exec_block fall (merge_reference xs) ctx = ir_exec_block fall xs ctx"
  "(\<forall>i\<in>set (merge_reference xs). jit_ok i) \<longleftrightarrow> (\<forall>i\<in>set xs. jit_ok i)"
  by (metis unmark_merge ir_exec_block_unmark) (metis unmark_merge jit_ok_unmark)

lemma merge_bound: "sum_list (map ir_bound (merge_reference xs)) \<le> sum_list (map ir_bound xs)"
proof -
  have "ir_bound (merge_reference xs ! k) \<le> ir_bound (xs ! k)" if "k < length xs" for k
    using that by (auto simp: merge_reference_def ir_bound_def merged_flags_def)
  moreover have "length (merge_reference xs) = length xs" by (simp add: merge_reference_def)
  ultimately show ?thesis unfolding sum_list_sum_nth by (auto intro!: sum_mono)
qed

text \<open>The code of a block at \<open>pc\<close>, and a bound on its size from the guest instructions.\<close>

definition block_text :: "u64 \<Rightarrow> DecodedInstr list \<Rightarrow> x86 list" where
  "block_text pc ds = block_asm (pc_at pc (length ds)) (merge_reference (block_ir ds 0 pc))"

definition guest_bound :: "DecodedInstr \<Rightarrow> nat" where
  "guest_bound d = (if d_sets_flags d then 164 else 27)"

definition block_bound :: "DecodedInstr list \<Rightarrow> nat" where
  "block_bound ds = 50 + sum_list (map guest_bound ds)"

lemma instr_ir_bound:
  "straight d \<Longrightarrow> sum_list (map ir_bound (instr_ir d pc)) \<le> guest_bound d"
  "forward_branch d \<Longrightarrow> sum_list (map ir_bound (instr_ir d pc)) \<le> guest_bound d + 27"
  unfolding straight_def forward_branch_def
  by ((elim conjE disjE insertE emptyE;
    simp add: instr_ir_straight ir_bound_def guest_bound_def sized_def IRInst_init_def)+)

lemma block_ir_bound:
  "ds \<noteq> [] \<Longrightarrow> list_all straight (butlast ds) \<Longrightarrow> straight (last ds) \<or> forward_branch (last ds) \<Longrightarrow>
   sum_list (map ir_bound (block_ir ds k pc)) \<le> sum_list (map guest_bound ds) + 27"
proof (induction ds arbitrary: k)
  case (Cons d ds)
  show ?case
  proof (cases "ds = []")
    case True
    with Cons.prems instr_ir_bound [of d "pc + ucast (k * 4)"] show ?thesis by auto
  next
    case False
    with Cons.prems instr_ir_bound(1) [of d "pc + ucast (k * 4)"] Cons.IH [of "k + 1"] show ?thesis by auto
  qed
qed simp

lemma block_text_size:
  assumes "jit_block ds" "4 * length ds < 2 ^ 32"
  shows "asm_size (block_text pc ds) \<le> block_bound ds"
proof -
  have "\<forall>i\<in>set (block_ir ds 0 pc). jit_ok i"
    using interp_block [OF assms, of "CPUContext_init\<lparr>ctx_pc := pc\<rparr>" pc] by auto
  then have "asm_size (block_text pc ds) \<le> 23 + sum_list (map ir_bound (merge_reference (block_ir ds 0 pc)))"
    unfolding block_text_def by (intro block_asm_size) (simp add: merge_meaning)
  also have "\<dots> \<le> 23 + sum_list (map ir_bound (block_ir ds 0 pc))" using merge_bound by simp
  also have "\<dots> \<le> block_bound ds"
    using block_ir_bound [of ds 0 pc] assms(1) by (simp add: jit_block_def block_bound_def)
  finally show ?thesis .
qed

section \<open>Translation\<close>

lemma build_jit_block:
  assumes "jit_block ds" "length ds < 2 ^ 32"
  shows "\<exists>b. build ds (of_nat (length ds)) pc IRBlock_init = (True, b) \<and> b_instructions b = block_ir ds 0 pc"
proof -
  have "\<forall>d\<in>set es. \<not> ends_block (d_category d) \<Longrightarrow> block_prefix (es @ [d]) = es @ [d]" for es d
    by (induction es) auto
  moreover have "\<forall>d\<in>set (butlast ds). \<not> ends_block (d_category d)"
    using assms(1) by (auto simp: jit_block_def list_all_iff straight_def)
  ultimately have p: "block_prefix ds = ds"
    using assms(1) append_butlast_last_id [of ds] by (metis jit_block_def)
  have n: "unat (of_nat (length ds) :: u32) = length ds"
    using assms(2) by (simp add: unsigned_of_nat take_bit_nat_eq_self)
  obtain ok b where b: "build_loop ds 0 pc (IRBlock_init\<lparr>b_arm_pc_start := pc, b_arm_instr_count := of_nat (length ds),
      b_is_conditional := False\<rparr>) = (ok, b)" by fastforce
  have "ok" "b_instructions b = block_ir ds 0 pc"
    using build_loop_result(1,2) [of ds 0 pc "IRBlock_init\<lparr>b_arm_pc_start := pc,
      b_arm_instr_count := of_nat (length ds), b_is_conditional := False\<rparr>"] b p
    by (simp_all add: IRBlock_init_def)
  then show ?thesis by (simp add: build_def Let_def n b)
qed

lemma lowered_code:
  assumes "\<forall>i\<in>set (b_instructions b). jit_ok i" "asm_size (block_asm fall (b_instructions b)) \<le> 4096"
    and "length buf = 4096"
  shows "\<exists>e code. lower_block b fall (set_buffer (Some buf) 4096 X86_64Emitter_init) = Some (True, e) \<and>
    emitted e = code \<and> code_size e = length code \<and> length code \<le> 4096 \<and>
    decodes_to code (block_asm fall (b_instructions b))"
proof -
  let ?e = "set_buffer (Some buf) 4096 X86_64Emitter_init"
  have e: "emitter_wf ?e" "emit_room ?e = 4096" "emitted ?e = []"
    using assms(3) by (simp_all add: emitter_view set_buffer_def X86_64Emitter_init_def)
  have "\<forall>i\<in>set (b_instructions b). encodable i" using assms(1) jit_ok_encodable by blast
  then obtain f where f: "assembles f (200 * length (b_instructions b) + 22) (block_asm fall (b_instructions b))"
      "\<And>e. lower_block b fall e = Some (True, f e)"
    using lower_block_assembles unfolding assembles_opt_def by blast
  from f(1) obtain code where c: "decodes_to code (block_asm fall (b_instructions b))"
      "\<And>e. emitter_wf e \<Longrightarrow> length code \<le> emit_room e \<Longrightarrow> f e = fold emit_byte code e"
    unfolding assembles_def by blast
  have n: "length code \<le> 4096" using decodes_to_len [OF c(1)] assms(2) by linarith
  then have fe: "f ?e = fold emit_byte code ?e" using e by (intro c(2)) simp_all
  have "emitted (f ?e) = code" using em.puts_contents [OF e(1), of code] n e by (simp add: fe)
  moreover have "emitter_wf (f ?e)" using em.puts_invar [OF e(1)] by (simp add: fe)
  moreover obtain buf' where "e_buf (f ?e) = Some buf'"
    using fold_emit_byte_buf [OF e(1), of code buf] n e(2) unfolding fe by (simp add: set_buffer_def)
  ultimately have "code_size (f ?e) = length code" by (auto simp: emitter_view code_size_def)
  with \<open>emitted (f ?e) = code\<close> f(2) c n show ?thesis by auto
qed

text \<open>The bytes of a block in the code pool.\<close>

definition block_code :: "host \<Rightarrow> BlockInfo \<Rightarrow> u8 list" where
  "block_code h b = map (h_byte h) (addrs (bi_host_code b) (unat (bi_host_code_size b)))"

lemma lookup_insert_block:
  "\<exists>info. fst (lookup pc (snd (insert_block pc hc sz n tc))) = Some info \<and> bi_host_code info = hc \<and>
     bi_host_code_size info = sz \<and> bi_arm_instr_count info = n"
  by (simp add: lookup_def insert_block_def Let_def update_conv' BlockInfo_init_def)

lemma write_pool:
  assumes "writable hc 4096 h" "length code \<le> 4096"
  shows "\<exists>h'. host_write h hc code = Some h' \<and> map (h_byte h') (addrs hc (length code)) = code"
proof -
  have "set (addrs hc (length code)) \<subseteq> set (addrs hc 4096)" 
    using assms(2) unfolding addrs_def set_map set_upt by (intro image_mono) simp
  then have "list_all (can_write h) (addrs hc (length code))" using assms(1) by (auto simp: writable_def list_all_iff)
  moreover have "distinct (addrs hc (length code))" using assms(2) by (intro distinct_addrs) simp
  ultimately show ?thesis by (simp add: host_write_def upd_all_same)
qed

lemma length_collect_block: "collect_block n pc mm h = Some ds \<Longrightarrow> length ds \<le> n"
  by (induction n arbitrary: pc ds) (auto simp: Let_def split: Option.bind_splits option.splits if_splits prod.splits)

text \<open>A successful translation: the code, the cache and the memory it leaves.\<close>

definition translated :: "u64 \<Rightarrow> u64 \<Rightarrow> u8 list \<Rightarrow> u32 \<Rightarrow> BlockInfo" where
  "translated pc hc code n = BlockInfo_init\<lparr>bi_arm_pc := pc, bi_host_code := hc,
     bi_host_code_size := of_nat (length code), bi_arm_instr_count := n\<rparr>"

definition after_translation :: "u64 \<Rightarrow> u64 \<Rightarrow> u8 list \<Rightarrow> u32 \<Rightarrow> TranslationCache \<Rightarrow> host \<Rightarrow> 'k engine \<Rightarrow> 'k engine" where
  "after_translation pc hc code n tc h en = en\<lparr>en_cache := snd (insert_block pc hc (of_nat (length code)) n tc),
     en_sys := (en_sys en)\<lparr>s_host := h, s_mem := mark_translated_page pc (s_mem (en_sys en))\<rparr>\<rparr>"

lemma translate_block_result:
  assumes "collect_block max_instr pc (s_mem (en_sys en)) (s_host (en_sys en)) = Some ds"
    and "jit_block ds" and "block_bound ds \<le> 4096"
    and "alloc_host_code 4096 (en_cache en) = (Some hc, tc)" and "hc \<noteq> 0"
    and "writable hc 4096 (s_host (en_sys en))"
  obtains code h' n where "translate_block pc en = Some (Some (translated pc hc code n), after_translation pc hc code n tc h' en)"
    "host_write (s_host (en_sys en)) hc code = Some h'" "map (h_byte h') (addrs hc (length code)) = code"
    "length code \<le> 4096" "decodes_to code (block_text pc ds)"
proof -
  let ?s = "en_sys en" let ?h = "s_host ?s" let ?fall = "pc_at pc (length ds)"
  have len: "4 * length ds < 2 ^ 32" using length_collect_block [OF assms(1)] by (simp add: max_instr_def)
  have fall: "pc + of_nat (length ds) * 4 = ?fall" by (simp add: pc_at_def mult.commute)
  obtain irb where irb: "build ds (of_nat (length ds)) pc IRBlock_init = (True, irb)" "b_instructions irb = block_ir ds 0 pc"
    using build_jit_block [OF assms(2)] len by auto
  let ?ob = "optimize irb"
  have asm: "block_asm ?fall (b_instructions ?ob) = block_text pc ds"
    by (simp add: optimize_instructions irb(2) block_text_def)
  have ok: "\<forall>i\<in>set (b_instructions ?ob). jit_ok i"
    using interp_block [OF assms(2) len, of "CPUContext_init\<lparr>ctx_pc := pc\<rparr>" pc]
    by (auto simp: optimize_instructions irb(2) merge_meaning)
  have "asm_size (block_text pc ds) \<le> 4096" using block_text_size [OF assms(2) len, of pc] assms(3) by linarith
  then obtain e where e: "lower_block ?ob ?fall (set_buffer (Some (map (h_byte ?h) (addrs hc 4096))) 4096 X86_64Emitter_init) = Some (True, e)"
      "code_size e = length (emitted e)" "length (emitted e) \<le> 4096" "decodes_to (emitted e) (block_text pc ds)"
    using lowered_code [OF ok, of ?fall "map (h_byte ?h) (addrs hc 4096)"] unfolding asm by auto
  obtain h' where h': "host_write ?h hc (emitted e) = Some h'" "map (h_byte h') (addrs hc (length (emitted e))) = emitted e"
    using write_pool [OF assms(6) e(3)] by blast
  have "ds \<noteq> []" using assms(2) by (simp add: jit_block_def)
  then have "translate_block pc en = Some (Some (translated pc hc (emitted e) (b_arm_instr_count ?ob)),
      after_translation pc hc (emitted e) (b_arm_instr_count ?ob) tc h' en)"
    using e(1,2) fall by (simp add: translate_block_def Let_def assms(1,4,5) irb h' translated_def after_translation_def
      case_prod_beta)
  with h' e(3,4) that show ?thesis by blast
qed

text \<open>Calling the code of a block does what the interpreter does with its instructions.\<close>

lemma block_text_executes:
  assumes "decodes_to code (block_text pc ds)" "jit_block ds" "4 * length ds < 2 ^ 32"
    and "jit_entry p ctx st" "ctx_pc ctx = pc" "length code \<le> n"
  shows "\<exists>ctx' st'. interp ds mm ctx h = Some (ctx', h) \<and> x86_run fl n (code @ rest) st = Some st' \<and> jit_exit p ctx' st st'"
proof -
  let ?is = "merge_reference (block_ir ds 0 pc)" let ?fall = "pc_at pc (length ds)"
  obtain ctx' where c: "interp ds mm ctx h = Some (ctx', h)" "ctx' = ir_exec_block ?fall ?is ctx" "\<forall>i\<in>set ?is. jit_ok i"
    using interp_block [OF assms(2,3,5)] by (auto simp: merge_meaning)
  from block_code_executes [OF _ c(3) assms(4,6), of ?fall] assms(1) c show ?thesis unfolding block_text_def by blast
qed

subsection \<open>A concrete engine\<close>

text \<open>ADD x1, x2, #5 and SVC #0 at 0x1000, an empty cache with its pool at 0x200000.\<close>

definition demo_guest :: host where
  "demo_guest = \<lparr>h_byte = (\<lambda>_. 0)(0x1000 := 0x41, 0x1001 := 0x14, 0x1003 := 0x91, 0x1004 := 0x01, 0x1007 := 0xD4),
     h_prot = (\<lambda>_. Some 7)\<rparr>"

definition demo_engine :: "unit engine" where
  "demo_engine = \<lparr>en_ctx = CPUContext_init, en_sys = \<lparr>s_mem = MemoryManager_init, s_host = demo_guest, s_k = ()\<rparr>,
     en_cache = (TranslationCache_init 8)\<lparr>tc_code_pool := 0x200000\<rparr>\<rparr>"

definition demo_add :: DecodedInstr where
  "demo_add = DecodedInstr_zero\<lparr>d_raw := 0x91001441, d_size := 1, d_category := INTEGER_ARITH, d_opcode := 0,
     d_rd := 1, d_rn := 2, d_rm := 0xFF, d_imm := 5\<rparr>"

lemma demo_decode: "decode 0x91001441 = (True, demo_add)"
  by code_simp

lemma demo_words: "read_u32 0x1000 mm demo_guest = Some (Some 0x91001441)" "read_u32 0x1004 mm demo_guest = Some (Some 0xD4000001)"
  by (simp_all add: read_u32_def host_read_def can_read_def demo_guest_def addrs_def upt_rec le_word_def)

lemma demo_collect: "collect_block max_instr 0x1000 mm demo_guest = Some [demo_add]"
proof -
  have "collect_block (Suc (Suc n)) 0x1000 mm demo_guest = Some [demo_add]" for n
    by (simp add: demo_decode demo_words is_svc_def demo_add_def)
  from this [of 62] show ?thesis by (simp add: max_instr_def)
qed

lemma demo_straight: "jit_block [demo_add]"
  by (simp add: jit_block_def straight_def demo_add_def ends_block_def)

section \<open>Properties\<close>

text \<open>C4: Translation refines interpretation.  When the collected guest instructions form a block
  of straight instructions, possibly ended by a forward branch, whose code fits the 4096 bytes
  granted (any 64 of them that do not set flags, or fewer), and the pool grants writable space, then \<open>translate_block\<close> succeeds, the block is found by the next lookup, and the
  bytes it stored, called on any context whose \<open>pc\<close> is the start of the block, return with the
  general registers, stack pointer, program counter and link register that the interpreter
  computes for the same instructions, having changed no memory but the context, its scratch
  words and one word below the stack.\<close>

theorem translate_block_refines_interpreter:
  assumes "collect_block max_instr pc (s_mem (en_sys en)) (s_host (en_sys en)) = Some ds"
    and "jit_block ds" and "block_bound ds \<le> 4096"
    and "alloc_host_code 4096 (en_cache en) = (Some hc, tc)" and "hc \<noteq> 0"
    and "writable hc 4096 (s_host (en_sys en))"
  shows "\<exists>b en'. translate_block pc en = Some (Some b, en') \<and>
    (\<exists>info. fst (lookup pc (en_cache en')) = Some info \<and> bi_host_code info = bi_host_code b \<and>
       bi_host_code_size info = bi_host_code_size b) \<and>
    (\<forall>fl p ctx st mm h. jit_entry p ctx st \<and> ctx_pc ctx = pc \<longrightarrow>
       (\<exists>ctx' st'. interp ds mm ctx h = Some (ctx', h) \<and>
          x86_run fl (unat (bi_host_code_size b)) (block_code (s_host (en_sys en')) b) st = Some st' \<and>
          jit_exit p ctx' st st'))"
proof -
  obtain code h' n where t: "translate_block pc en = Some (Some (translated pc hc code n), after_translation pc hc code n tc h' en)"
      "map (h_byte h') (addrs hc (length code)) = code" "length code \<le> 4096" "decodes_to code (block_text pc ds)"
    using translate_block_result [OF assms] .
  let ?b = "translated pc hc code n" let ?en = "after_translation pc hc code n tc h' en"
  have len: "4 * length ds < 2 ^ 32" using length_collect_block [OF assms(1)] by (simp add: max_instr_def)
  have size: "unat (bi_host_code_size ?b) = length code"
    using t(3) by (simp add: translated_def unsigned_of_nat take_bit_nat_eq_self)
  then have "block_code (s_host (en_sys ?en)) ?b = code"
    using t(2) by (simp add: block_code_def after_translation_def) (simp add: translated_def)
  moreover have "\<exists>info. fst (lookup pc (en_cache ?en)) = Some info \<and> bi_host_code info = bi_host_code ?b \<and>
      bi_host_code_size info = bi_host_code_size ?b"
    using lookup_insert_block [of pc hc "of_nat (length code)" n tc] by (auto simp: translated_def after_translation_def)
  ultimately show ?thesis
    using t(1) size block_text_executes [OF t(4) assms(2) len, where n = "length code" and rest = "[]"] by auto
qed

theorem translate_block_refines_interpreter_witness:
  "\<exists>b en' st'. translate_block 0x1000 demo_engine = Some (Some b, en') \<and>
     fst (lookup 0x1000 (en_cache en')) \<noteq> None \<and>
     x86_run (\<lambda>_ _. 2) (unat (bi_host_code_size b)) (block_code (s_host (en_sys en')) b)
       (demo_x86\<lparr>xs_host := put_slot 0x10000 32 0x1000 demo_host\<rparr>) = Some st' \<and>
     get_slot 0x10000 1 (xs_host st') = 5 \<and> get_slot 0x10000 32 (xs_host st') = 0x1004"
proof -
  let ?ctx = "CPUContext_init\<lparr>ctx_pc := 0x1000\<rparr>"
  let ?st = "demo_x86\<lparr>xs_host := put_slot 0x10000 32 0x1000 demo_host\<rparr>"
  have entry: "jit_entry 0x10000 ?ctx ?st"
    using demo_jit_entry by (simp add: jit_entry_def demo_x86_def int_words_simps demo_slots)
  have "collect_block max_instr 0x1000 (s_mem (en_sys demo_engine)) (s_host (en_sys demo_engine)) = Some [demo_add]"
    by (simp add: demo_engine_def demo_collect)
  moreover obtain tc where "alloc_host_code 4096 (en_cache demo_engine) = (Some 0x200000, tc)"
    by (simp add: alloc_host_code_def demo_engine_def TranslationCache_init_def DEFAULT_CODE_POOL_SIZE_def)
  moreover have "writable 0x200000 4096 (s_host (en_sys demo_engine))"
    by (simp add: writable_def list_all_iff can_write_def demo_engine_def demo_guest_def PROT_WRITE_def)
  ultimately obtain b en' where t: "translate_block 0x1000 demo_engine = Some (Some b, en')"
      "fst (lookup 0x1000 (en_cache en')) \<noteq> None"
    and r: "\<And>fl p ctx st mm h. jit_entry p ctx st \<and> ctx_pc ctx = 0x1000 \<longrightarrow>
       (\<exists>ctx' st'. interp [demo_add] mm ctx h = Some (ctx', h) \<and>
          x86_run fl (unat (bi_host_code_size b)) (block_code (s_host (en_sys en')) b) st = Some st' \<and> jit_exit p ctx' st st')"
    using translate_block_refines_interpreter [of "0x1000" demo_engine "[demo_add]" "0x200000" tc] demo_straight
    by (auto simp: block_bound_def guest_bound_def demo_add_def DecodedInstr_zero_def)
  from r [of "0x10000" ?ctx ?st MemoryManager_init demo_host "\<lambda>_ _. 2"] entry
  obtain ctx' st' where x: "interp [demo_add] MemoryManager_init ?ctx demo_host = Some (ctx', demo_host)"
      "x86_run (\<lambda>_ _. 2) (unat (bi_host_code_size b)) (block_code (s_host (en_sys en')) b) ?st = Some st'"
      "jit_exit 0x10000 ctx' ?st st'" by auto
  have "ctx' = next_pc (?ctx\<lparr>ctx_x := (replicate 31 0)[1 := 5]\<rparr>)"
    using x(1) execute_decoded_straight(1) [of demo_add]
    by (simp add: demo_add_def CPUContext_init_def DecodedInstr_zero_def)
  then have "int_words ctx' ! 1 = 5" "int_words ctx' ! 32 = 0x1004"
    by (simp_all add: int_words_def nth_append next_pc_def)
  with x(3) have "get_slot 0x10000 1 (xs_host st') = 5" "get_slot 0x10000 32 (xs_host st') = 0x1004"
    by (simp_all add: jit_exit_def int_slots_nth)
  with t x(2) show ?thesis by blast
qed

end
