(* ===== verification/Arm_Words.thy ===== *)
theory Arm_Words
  imports Jit_Correct
begin

text \<open>
  The ARM architecture as a reference for a class of instruction words, and the decoder and the
  interpreter against it: for these words decoding followed by interpretation has the
  architectural effect, and the decoded instructions lie in the class for which translated
  code agrees with the interpreter.
\<close>

section \<open>Instructions on which translation and interpretation agree\<close>

text \<open>The instructions of \<open>straight\<close> and the forward branches, without those that set flags.\<close>

definition supported :: "DecodedInstr \<Rightarrow> bool" where
  "supported d \<longleftrightarrow> (straight d \<or> forward_branch d \<and> d_category d = BRANCH) \<and> \<not> d_sets_flags d"

section \<open>The architecture\<close>

text \<open>The words: ADD (immediate) and MOVZ in their 64-bit forms
  with registers other than 31, ADRP, NOP, and B and BL with a forward offset.  \<open>arm_exec\<close> is written
  from the field layout of the manual and uses nothing of the decoder or the interpreter.\<close>

definition arm_word :: "u32 \<Rightarrow> bool" where
  "arm_word w \<longleftrightarrow>
     bits w 31 24 = 0b10010001 \<and> \<not> bit w 23 \<and> bits w 4 0 \<noteq> 31 \<and> bits w 9 5 \<noteq> 31 \<or>
     bits w 31 21 = 0b11010010100 \<and> bits w 4 0 \<noteq> 31 \<or>
     bit w 31 \<and> bits w 28 24 = 0b10000 \<and> bits w 4 0 \<noteq> 31 \<or>
     bits w 30 26 = 0b00101 \<and> \<not> bit w 25 \<or> w = 0xD503201F"

definition arm_exec :: "u32 \<Rightarrow> CPUContext \<Rightarrow> CPUContext" where
  "arm_exec w c =
    (let d = unat (bits w 4 0); n = unat (bits w 9 5); pc = ctx_pc c;
         put = (\<lambda>v. c\<lparr>ctx_x := (ctx_x c)[d := v], ctx_pc := pc + 4\<rparr>);
         target = pc + word_of_int (4 * sint (ucast w :: 26 word))
     in if w = 0xD503201F then c\<lparr>ctx_pc := pc + 4\<rparr>
        else if bits w 30 26 = 0b00101
        then (if bit w 31 then c\<lparr>ctx_x := (ctx_x c)[30 := pc + 4], ctx_pc := target\<rparr> else c\<lparr>ctx_pc := target\<rparr>)
        else if bits w 28 24 = 0b10001
        then put (ctx_x c ! n + push_bit (if bit w 22 then 12 else 0) (ucast (bits w 21 10)))
        else if bits w 28 23 = 0b100101 then put (ucast (bits w 20 5))
        else put ((pc AND NOT 0xFFF) + word_of_int (4096 * sint
               (word_cat (ucast (drop_bit 5 w) :: 19 word) (ucast (drop_bit 29 w) :: 2 word) :: 21 word))))"

lemma unat_bits_less: "hi - lo < 8 \<Longrightarrow> unat (ucast (bits w hi lo) :: u8) = unat (bits w hi lo)" "unat (bits w hi lo) < 2 ^ (hi - lo + 1)"
proof -
  have u: "unat (bits w hi lo) = take_bit (hi - lo + 1) (unat (drop_bit lo w))"
    by (simp only: bits_take_drop unsigned_take_bit_eq)
  show lt: "unat (bits w hi lo) < 2 ^ (hi - lo + 1)" unfolding u by (rule take_bit_nat_less_exp)
  assume "hi - lo < 8"
  then have "(2 :: nat) ^ (hi - lo + 1) \<le> 2 ^ 8" by (intro power_increasing) simp_all
  with lt have "unat (bits w hi lo) < 2 ^ 8" by linarith
  then show "unat (ucast (bits w hi lo) :: u8) = unat (bits w hi lo)"
    by (simp only: unsigned_ucast_eq) (simp add: take_bit_nat_eq_self)
qed

lemma reg_field_less: "hi - lo = 4 \<Longrightarrow> bits w hi lo \<noteq> 31 \<Longrightarrow> (ucast (bits w hi lo) :: u8) < 31"
  using unat_bits_less [where hi = hi and lo = lo and w = w] word_unat_eq_iff [of "bits w hi lo" 31] by (simp add: word_less_nat_alt)

lemma imm12_less: "(if c then push_bit 12 (ucast (bits w 21 10)) else ucast (bits w 21 10) :: u64) < 2 ^ 31"
proof -
  have n: "unat (bits w 21 10) < 2 ^ 12" using unat_bits_less(2) [where hi = 21 and lo = 10 and w = w] by simp
  then have u: "unat (ucast (bits w 21 10) :: u64) = unat (bits w 21 10)"
    by (simp only: unsigned_ucast_eq) (simp add: take_bit_nat_eq_self)
  then have "unat (push_bit 12 (ucast (bits w 21 10)) :: u64) = 4096 * unat (bits w 21 10)"
    using n by (simp only: unsigned_push_bit_eq) (simp add: take_bit_nat_eq_self push_bit_eq_mult)
  with n u show ?thesis by (simp add: word_less_nat_alt)
qed

lemma forward_offset: "\<not> bit w 25 \<Longrightarrow> \<not> bit (push_bit 2 (sign_extend (ucast w) 26)) 31" for w :: u32
proof -
  assume "\<not> bit w 25"
  then have "\<not> sint (ucast w :: 26 word) < 0"
    using bit_last_iff [of "ucast w :: 26 word"] by (simp add: bit_simps)
  then have "\<not> sint (push_bit 2 (sign_extend (ucast w) 26)) < 0" by (simp only: branch_offset_imm26)
  then show ?thesis using bit_last_iff [of "push_bit 2 (sign_extend (ucast w) 26)"] by simp
qed

lemma arm_word_cases:
  assumes "arm_word w"
  obtains (add) "bits w 28 24 = 0b10001" "bits w 30 26 \<noteq> 0b00101" "\<not> bit w 30" "bits w 4 0 \<noteq> 31" "bits w 9 5 \<noteq> 31"
      "w \<noteq> 0xD503201F"
  | (movz) "bits w 28 23 = 0b100101" "bits w 30 29 = 0b10" "bits w 28 24 \<noteq> 0b10001" "bits w 30 26 \<noteq> 0b00101"
      "bits w 4 0 \<noteq> 31" "w \<noteq> 0xD503201F"
  | (adrp) "bit w 31" "bits w 28 24 = 0b10000" "bits w 30 26 \<noteq> 0b00101" "bits w 28 23 \<noteq> 0b100101" "bits w 4 0 \<noteq> 31"
      "w \<noteq> 0xD503201F"
  | (branch) "bits w 30 26 = 0b00101" "\<not> bit w 25" "w \<noteq> 0xD503201F"
  | (nop) "w = 0xD503201F"
proof -
  have "bits 0xD503201F 28 24 = 0b10101" "bits 0xD503201F 30 26 = 0b10101" by (simp_all add: bits_def)
  with assms that show ?thesis unfolding arm_word_def
    by (cases "w = 0xD503201F") (auto simp: fld)
qed

lemma bits_rd: "hi - lo < 8 \<Longrightarrow> unat (ucast (bits w hi lo) :: u8) = unat (bits w hi lo)"
  by (rule unat_bits_less)

lemma arm_word_exec:
  assumes "arm_word w"
  shows "\<exists>d. decode w = (True, d) \<and> supported d \<and> (\<forall>mm c h. execute_decoded d mm c h = Some (arm_exec w c, h))"
  using assms
proof (cases rule: arm_word_cases)
  case add
  let ?d = "DecodedInstr_zero\<lparr>d_raw := w, d_size := ucast (bits w 31 31),
     d_category := INTEGER_ARITH, d_opcode := 0x00,
     d_rd := ucast (bits w 4 0), d_rn := ucast (bits w 9 5), d_rm := 0xFF,
     d_imm := (if bit w 22 then push_bit 12 (ucast (bits w 21 10)) else ucast (bits w 21 10))\<rparr>"
  have r: "(ucast (bits w 4 0) :: u8) < 31" "(ucast (bits w 9 5) :: u8) < 31"
    using reg_field_less [of 4 0 w] reg_field_less [of 9 5 w] add by simp_all
  have "decode w = (True, ?d)" using add by (simp add: decode_add_sub_imm_eq DecodedInstr_zero_def)
  moreover have "supported ?d"
    using r imm12_less [of "bit w 22" w] by (simp add: supported_def straight_def ends_block_def DecodedInstr_zero_def)
  moreover have "execute_decoded ?d mm c h = Some (arm_exec w c, h)" for mm c h
    using r add by (simp add: execute_decoded_straight(1) next_pc_def arm_exec_def Let_def bits_rd DecodedInstr_zero_def)
  ultimately show ?thesis by blast
next
  case movz
  let ?d = "DecodedInstr_zero\<lparr>d_raw := w, d_size := ucast (bits w 31 31),
     d_category := MOVE, d_rd := ucast (bits w 4 0), d_imm := ucast (bits w 20 5), d_opcode := 0x22\<rparr>"
  have r: "(ucast (bits w 4 0) :: u8) < 31" using reg_field_less [of 4 0 w] movz by simp
  have b: "bit w 30" "\<not> bit w 29" using movz by (simp_all add: bits_eq_iff [where n = 2] all_less_numeral)
  have "decode w = (True, ?d)" using movz b by (simp add: decode_move_wide)
  moreover have "supported ?d" using r by (simp add: supported_def straight_def ends_block_def DecodedInstr_zero_def)
  moreover have "execute_decoded ?d mm c h = Some (arm_exec w c, h)" for mm c h
    using r movz by (simp add: execute_decoded_straight(3) next_pc_def arm_exec_def Let_def bits_rd)
  ultimately show ?thesis by blast
next
  case adrp
  let ?imm = "scast (sign_extend (pcrel_imm21 w) 21) :: i64"
  let ?d = "DecodedInstr_zero\<lparr>d_raw := w, d_category := MOVE, d_opcode := 0x25, d_rd := ucast (bits w 4 0),
     d_imm_s := ?imm, d_imm := ?imm, d_is_pc_relative := True\<rparr>"
  have r: "(ucast (bits w 4 0) :: u8) < 31" using reg_field_less [of 4 0 w] adrp by simp
  have "push_bit 12 ?imm = word_of_int (2 ^ 12 * sint ?imm)" by (simp add: push_bit_eq_mult mult.commute)
  then have i: "push_bit 12 ?imm = word_of_int (4096 * sint
      (word_cat (ucast (drop_bit 5 w) :: 19 word) (ucast (drop_bit 29 w) :: 2 word) :: 21 word))"
    unfolding adrp_imm21 by simp
  have "decode w = (True, ?d)" using adrp by (simp add: decode_adrp_eq)
  moreover have "supported ?d" using r by (simp add: supported_def straight_def ends_block_def DecodedInstr_zero_def)
  moreover have "execute_decoded ?d mm c h = Some (arm_exec w c, h)" for mm c h
    using r adrp by (simp add: execute_decoded_straight(5) next_pc_def arm_exec_def Let_def bits_rd i)
  ultimately show ?thesis by blast
next
  case branch
  let ?off = "push_bit 2 (sign_extend (ucast w) 26) :: i32"
  let ?d = "DecodedInstr_zero\<lparr>d_raw := w, d_category := BRANCH, d_opcode := (if bit w 31 then 0x51 else 0x50),
     d_branch_offset := ?off\<rparr>"
  have nb: "\<not> bit ?off 31" using forward_offset [of w] branch by simp
  then have off: "(ucast ?off :: u64) = word_of_int (4 * sint (ucast w :: 26 word))"
    using scast_forward [OF nb] by (simp only: scast_eq_of_int_sint branch_offset_imm26)
  have "decode w = (True, ?d)" using branch by (simp add: decode_b_bl_eq)
  moreover have "supported ?d" using nb by (simp add: supported_def forward_branch_def ends_block_def DecodedInstr_zero_def)
  moreover have "execute_decoded ?d mm c h = Some (arm_exec w c, h)" for mm c h
    using branch off by (simp add: execute_decoded_straight(7,8) branch_by_def arm_exec_def Let_def)
  ultimately show ?thesis by blast
next
  case nop
  have "decode 0xD503201F = (True, DecodedInstr_zero\<lparr>d_raw := 0xD503201F, d_size := 1, d_category := SYSTEM, d_opcode := 0x90\<rparr>)"
    by code_simp
  with nop show ?thesis
    by (simp add: supported_def straight_def ends_block_def DecodedInstr_zero_def execute_decoded_straight(6) next_pc_def
      arm_exec_def)
qed

section \<open>Properties\<close>

text \<open>C8: Decoding and interpreting one of these words has the effect that the architecture
  prescribes, on every context and without touching memory.\<close>

theorem decode_execute_architectural:
  assumes "arm_word w"
  shows "fst (decode w) \<and> execute_decoded (snd (decode w)) mm c h = Some (arm_exec w c, h)"
  using arm_word_exec [OF assms] by auto

text \<open>The witness is ADD x1, x2, #5, LSL #12.\<close>

theorem decode_execute_architectural_witness:
  "\<forall>mm h. execute_decoded (snd (decode 0x91401441)) mm (CPUContext_init\<lparr>ctx_x := (replicate 31 0)[2 := 7], ctx_pc := 0x1000\<rparr>) h =
     Some (CPUContext_init\<lparr>ctx_x := (replicate 31 0)[2 := 7, 1 := 0x5007], ctx_pc := 0x1004\<rparr>, h)"
  using decode_execute_architectural [of "0x91401441" _ "CPUContext_init\<lparr>ctx_x := (replicate 31 0)[2 := 7], ctx_pc := 0x1000\<rparr>"]
  by (simp add: arm_word_def arm_exec_def bits_def)

end
