(* ===== verification/Engine_Run.thy ===== *)
theory Engine_Run
  imports Exec_Engine
begin

text \<open>
  Properties of the run loop and of the interpreter of \<open>Exec_Engine\<close>: the condition codes, the
  outcomes of \<open>run\<close> over the states its passes reach, the words and contexts on which the
  interpreter is defined, and what a system call leaves in the result register.
\<close>

section \<open>Passes of the loop as a step relation\<close>

inductive engine_step :: "host_cpu \<Rightarrow> 'k kernel \<Rightarrow> 'k engine \<Rightarrow> 'k engine \<Rightarrow> bool" for cpu K where
  pass: "running (en_ctx en) \<Longrightarrow> run_body cpu K en = Some (Inr (counted, en')) \<Longrightarrow> engine_step cpu K en en'"

inductive_simps engine_step_iff: "engine_step cpu K en en'"

inductive engine_reaches :: "host_cpu \<Rightarrow> 'k kernel \<Rightarrow> 'k engine \<Rightarrow> 'k engine \<Rightarrow> bool" for cpu K where
  refl: "engine_reaches cpu K en en"
| step: "engine_step cpu K en en1 \<Longrightarrow> engine_reaches cpu K en1 en2 \<Longrightarrow> engine_reaches cpu K en en2"

text \<open>\<open>read_u32\<close> never answers \<open>false\<close>, so the loop's \<open>break\<close> is not taken.\<close>

lemma read_u32_not_false: "read_u32 a mm h \<noteq> Some None"
  by (simp add: read_u32_def)

lemma run_body_no_break: "run_body cpu K en \<noteq> Some (Inl en')"
  using read_u32_not_false
  by (auto simp: run_body_def Let_def split: prod.splits if_splits option.splits Option.bind_splits)

lemma run_loop_outcome:
  "case run_loop cpu K iter en of
     None \<Rightarrow> \<exists>en'. engine_reaches cpu K en en' \<and> running (en_ctx en') \<and> run_body cpu K en' = None
   | Some (n, en') \<Rightarrow> engine_reaches cpu K en en' \<and> n \<le> max iter max_iter \<and> (running (en_ctx en') \<longrightarrow> n \<ge> max_iter)"
proof (induction cpu K iter en rule: run_loop.induct)
  case (1 cpu K iter en)
  show ?case
  proof (cases "running (en_ctx en) \<and> iter < max_iter")
    case True
    consider "run_body cpu K en = None" | c en1 where "run_body cpu K en = Some (Inr (c, en1))"
      using run_body_no_break [of cpu K en] by (metis not_Some_eq sum.exhaust surj_pair)
    then show ?thesis
    proof cases
      case 1
      with True show ?thesis by (auto simp: run_loop.simps [of cpu K iter en] intro: engine_reaches.refl)
    next
      case (2 c en1)
      define i where "i = (if c then iter + 1 else iter)"
      have step: "engine_step cpu K en en1" using True 2 by (auto intro: engine_step.pass)
      have IH: "case run_loop cpu K i en1 of
          None \<Rightarrow> \<exists>en'. engine_reaches cpu K en1 en' \<and> running (en_ctx en') \<and> run_body cpu K en' = None
        | Some (n, en') \<Rightarrow> engine_reaches cpu K en1 en' \<and> n \<le> max i max_iter \<and> (running (en_ctx en') \<longrightarrow> n \<ge> max_iter)"
        unfolding i_def by (rule "1.IH" [OF True 2 HOL.refl HOL.refl])
      have "run_loop cpu K iter en = run_loop cpu K i en1"
        using True 2 by (simp add: run_loop.simps [of cpu K iter en] i_def)
      moreover have "max i max_iter = max iter max_iter" using True by (simp add: i_def)
      ultimately show ?thesis using IH step
        by (cases "run_loop cpu K i en1") (auto intro: engine_reaches.step)
    qed
  qed (auto simp: run_loop.simps [of cpu K iter en] intro: engine_reaches.refl)
qed

section \<open>The context keeps its shape\<close>

lemma ctx_wf_updates [simp]:
  "ctx_wf (ctx\<lparr>ctx_pc := v\<rparr>) = ctx_wf ctx" "ctx_wf (ctx\<lparr>ctx_state_flags := f\<rparr>) = ctx_wf ctx"
  "ctx_wf (ctx\<lparr>ctx_exit_status := e\<rparr>) = ctx_wf ctx" "ctx_wf (ctx\<lparr>ctx_nzcv := n\<rparr>) = ctx_wf ctx"
  "ctx_wf (ctx\<lparr>ctx_x := (ctx_x ctx)[i := w]\<rparr>) = ctx_wf ctx"
  by (simp_all add: ctx_wf_def)

lemma ctx_wf_helpers [simp]:
  "ctx_wf (crash ctx) = ctx_wf ctx" "ctx_wf (next_pc ctx) = ctx_wf ctx" "ctx_wf (branch_by d ctx) = ctx_wf ctx"
  "ctx_wf (set_nzcv n z c v ctx) = ctx_wf ctx" "ctx_wf (finish_syscall r ctx) = ctx_wf ctx"
  by (simp_all add: crash_def next_pc_def branch_by_def set_nzcv_def finish_syscall_def)

lemma ctx_wf_set_x: "set_x ctx r v = Some ctx' \<Longrightarrow> ctx_wf ctx' = ctx_wf ctx"
  by (auto simp: set_x_def split: if_splits)

lemma ctx_wf_load_into: "load_into r rt ctx = Some ctx' \<Longrightarrow> ctx_wf ctx' = ctx_wf ctx"
  by (auto simp: load_into_def ctx_wf_set_x split: option.splits)

lemma ctx_wf_exec_data: "exec_data d ctx = Some (Some ctx') \<Longrightarrow> ctx_wf ctx' = ctx_wf ctx"
  unfolding exec_data_def Let_def
  by (auto simp: ctx_wf_set_x split: if_splits Option.bind_splits)

lemma ctx_wf_exec_branch: "exec_branch d ctx = Some (Some ctx') \<Longrightarrow> ctx_wf ctx' = ctx_wf ctx"
  unfolding exec_branch_def Let_def
  by (auto simp: ctx_wf_set_x split: if_splits Option.bind_splits)

lemma ctx_wf_exec_compare: "exec_compare d ctx = Some (Some ctx') \<Longrightarrow> ctx_wf ctx' = ctx_wf ctx"
  unfolding exec_compare_def Let_def
  by (auto simp: ctx_wf_set_x split: if_splits Option.bind_splits)

lemma ctx_wf_exec_memory: "exec_memory d mm ctx h = Some (Some (ctx', h')) \<Longrightarrow> ctx_wf ctx' = ctx_wf ctx"
  unfolding exec_memory_def Let_def
  by (auto simp: ctx_wf_set_x ctx_wf_load_into split: if_splits Option.bind_splits option.splits)

lemma ctx_wf_execute_decoded: "execute_decoded d mm ctx h = Some (ctx', h') \<Longrightarrow> ctx_wf ctx' = ctx_wf ctx"
  by (auto simp: execute_decoded_def split: Option.bind_splits option.splits
    dest: ctx_wf_exec_data ctx_wf_exec_memory ctx_wf_exec_branch ctx_wf_exec_compare)

lemma passthrough_ctx: "passthrough_syscall K n args ctx s = Some (r, ctx', s') \<Longrightarrow> ctx' = ctx"
  by (auto simp: passthrough_syscall_def split: prod.splits)

lemma memory_handlers_ctx:
  "handle_mmap K ctx s = Some (r, ctx', s') \<Longrightarrow> ctx' = ctx"
  "handle_mprotect K ctx s = Some (r, ctx', s') \<Longrightarrow> ctx' = ctx"
  "handle_munmap K ctx s = Some (r, ctx', s') \<Longrightarrow> ctx' = ctx"
  "handle_brk K ctx s = Some (r, ctx', s') \<Longrightarrow> ctx' = ctx"
  by (auto simp: handle_mmap_def handle_mprotect_def handle_munmap_def handle_brk_def Let_def
    split: prod.splits if_splits)

lemma io_handlers_ctx:
  "handle_read K ctx s = Some (r, ctx', s') \<Longrightarrow> ctx' = ctx"
  "handle_write K ctx s = Some (r, ctx', s') \<Longrightarrow> ctx' = ctx"
  unfolding handle_read_def handle_write_def Let_def
  by (auto split: prod.splits if_splits sum.splits option.splits Option.bind_splits)

lemma exit_handlers_ctx:
  "handle_exit K ctx s = Some (r, ctx', s') \<Longrightarrow> ctx_wf ctx' = ctx_wf ctx"
  "handle_exit_group K ctx s = Some (r, ctx', s') \<Longrightarrow> ctx_wf ctx' = ctx_wf ctx"
  by (auto simp: handle_exit_def handle_exit_group_def Let_def)

lemmas passthrough_handlers = handle_clone_def handle_futex_def handle_set_tid_address_def handle_set_robust_list_def
  handle_gettid_def handle_prctl_def handle_rt_sigreturn_def handle_getrandom_def handle_mremap_def handle_clone3_def
  handle_preadv_def handle_pwritev_def handle_sendfile_def handle_splice_def

lemma ctx_wf_execute: "execute K ctx s = Some (r, ctx', s') \<Longrightarrow> ctx_wf ctx' = ctx_wf ctx"
  unfolding execute_def Let_def passthrough_handlers
  by (auto split: if_splits dest: passthrough_ctx memory_handlers_ctx io_handlers_ctx exit_handlers_ctx)

subsection \<open>Where the interpreter is defined\<close>

lemma reg_defined:
  assumes "r < 32" "r \<noteq> 31"
  shows "set_x c r v = Some (c\<lparr>ctx_x := (ctx_x c)[unat r := v]\<rparr>)" "get_x c r = Some (ctx_x c ! unat r)"
    "base_or_sp c r = Some (ctx_x c ! unat r)"
  using assms by (auto simp: get_x_def set_x_def base_or_sp_def word_less_nat_alt word_unat_eq_iff)

lemma exec_data_defined:
  assumes "fields_ok d" "opcode_ok d" "31 \<notin> {d_rd d, d_rn d, d_rm d}"
  shows "exec_data d c \<noteq> None"
proof -
  have r: "d_rd d < 32" "d_rd d \<noteq> 31" "d_rn d < 32" "d_rn d \<noteq> 31" "d_rm d \<noteq> 31" "d_opcode d \<noteq> 0x20"
    using assms by (auto simp: fields_ok_def opcode_ok_def undecoded_opcodes_def)
  show ?thesis
  proof (cases "d_opcode d \<in> {0x10, 0x12, 0x14}")
    case True
    then have "d_rm d < 32" using assms(1) by (simp add: fields_ok_def)
    with True r show ?thesis by (auto simp: exec_data_def reg_defined Let_def)
  next
    case False
    with r show ?thesis by (simp add: exec_data_def reg_defined Let_def)
  qed
qed

lemma exec_branch_defined:
  assumes "fields_ok d" "31 \<notin> {d_rd d, d_rn d, d_rm d}"
  shows "exec_branch d c \<noteq> None"
proof -
  have r: "d_rn d < 32" "d_rn d \<noteq> 31" using assms by (auto simp: fields_ok_def)
  show ?thesis
  proof (cases "d_opcode d \<in> {0x57, 0x58}")
    case True
    then have "d_imm d < 32" using assms(1) by (simp add: fields_ok_def)
    then have "unat (ucast (d_imm d) :: u32) < 64"
      by (simp add: word_less_nat_alt unsigned_ucast_eq take_bit_nat_eq_self)
    with True r show ?thesis by (auto simp: exec_branch_def reg_defined Let_def)
  next
    case False
    with r reg_defined [of 30 c] show ?thesis by (simp add: exec_branch_def reg_defined Let_def)
  qed
qed

text \<open>An \<open>int64_t\<close> cast to \<open>int\<close> and back.\<close>

lemma sint_int_of_i64: "sint (scast (ucast r :: i32) :: i64) = signed_take_bit 31 (sint r)" for r :: i64
proof -
  have "sint (scast (ucast r :: i32) :: i64) = signed_take_bit 63 (sint (ucast r :: i32))" by (simp add: signed_scast_eq)
  also have "sint (ucast r :: i32) = signed_take_bit 31 (uint r)"
    by (simp add: sint_uint unsigned_ucast_eq signed_take_bit_take_bit)
  also have "signed_take_bit 63 (signed_take_bit 31 (uint r)) = signed_take_bit 31 (signed_take_bit 63 (uint r))"
    by (simp add: signed_take_bit_signed_take_bit)
  also have "signed_take_bit 63 (uint r) = sint r" by (simp add: sint_uint)
  finally show ?thesis .
qed

section \<open>Condition codes\<close>

text \<open>The condition of the ARM architecture manual (ConditionHolds): the upper three bits select a
  predicate on the flags, the lowest bit negates it except in 1111.\<close>

definition condition_holds :: "u8 \<Rightarrow> bool \<Rightarrow> bool \<Rightarrow> bool \<Rightarrow> bool \<Rightarrow> bool" where
  "condition_holds cond n z c v =
    (let k = drop_bit 1 cond;
         base = (if k = 0 then z else if k = 1 then c else if k = 2 then n else if k = 3 then v
                 else if k = 4 then c \<and> \<not> z else if k = 5 then n = v else if k = 6 then n = v \<and> \<not> z else True)
     in if bit cond 0 \<and> cond \<noteq> 15 then \<not> base else base)"

lemma nibble_cases:
  assumes "(k :: u8) < 15"
  shows "k \<in> {0, 1, 2, 3, 4, 5, 6, 7, 8, 9, 10, 11, 12, 13, 14}"
  using assms by unat_arith

subsection \<open>A concrete guest\<close>

text \<open>SVC #0 with the number of \<open>exit\<close> in \<open>x8\<close> and the status 7 in \<open>x0\<close>.\<close>

definition exit_engine :: "unit engine" where
  "exit_engine = \<lparr>en_ctx = CPUContext_init\<lparr>ctx_x := (replicate 31 0)[8 := 93, 0 := 7], ctx_pc := 0x1000\<rparr>,
     en_sys = \<lparr>s_mem = MemoryManager_init,
       s_host = \<lparr>h_byte = (\<lambda>_. 0)(0x1000 := 0x01, 0x1003 := 0xD4), h_prot = (\<lambda>_. Some 7)\<rparr>, s_k = ()\<rparr>,
     en_cache = TranslationCache_init 8\<rparr>"

definition idle_cpu :: host_cpu where
  "idle_cpu a ctx h = (False, ctx, h)"

lemma exit_fetch: "read_u32 0x1000 (s_mem (en_sys exit_engine)) (s_host (en_sys exit_engine)) = Some (Some 0xD4000001)"
  by (simp add: read_u32_def host_read_def can_read_def exit_engine_def addrs_def upt_rec le_word_def)

lemma exit_lookup: "lookup 0x1000 (en_cache exit_engine) = (None, en_cache exit_engine)"
  by (simp add: lookup_def exit_engine_def TranslationCache_init_def)

lemma exit_execute: "\<exists>ctx s. execute demo_kernel (next_pc (en_ctx exit_engine)) (en_sys exit_engine) = Some (7, ctx, s) \<and>
   ctx_state_flags ctx = STATE_EXITED \<and> ctx_exit_status ctx = 7 \<and> ctx_x ctx = ctx_x (en_ctx exit_engine)"
proof -
  have "xr (next_pc (en_ctx exit_engine)) 8 = 93" by (simp add: xr_def next_pc_def exit_engine_def)
  then show ?thesis
    by (simp add: execute_dispatch handle_exit_def Let_def next_pc_def exit_engine_def xr_def as_int_def CPUContext_init_def)
qed

section \<open>Properties\<close>

text \<open>C9: Whatever the host CPU and the kernel do, \<open>run\<close> ends.  It ends in a state its passes
  reach, after at most \<open>max_iter\<close> counted passes, and only because the guest crashed or exited or
  because the limit was hit (a failed fetch never ends it, \<open>read_u32\<close> always answers true);
  undefined behaviour comes only from a pass in a reached state that is still running.\<close>

theorem run_outcome:
  "case run cpu K pc en of
     None \<Rightarrow> \<exists>en'. engine_reaches cpu K (en\<lparr>en_ctx := (en_ctx en)\<lparr>ctx_pc := pc\<rparr>\<rparr>) en' \<and>
       running (en_ctx en') \<and> run_body cpu K en' = None
   | Some (n, en') \<Rightarrow> engine_reaches cpu K (en\<lparr>en_ctx := (en_ctx en)\<lparr>ctx_pc := pc\<rparr>\<rparr>) en' \<and> n \<le> max_iter \<and>
       (running (en_ctx en') \<longrightarrow> n = max_iter)"
  using run_loop_outcome [where iter = 0 and cpu = cpu and K = K and en = "en\<lparr>en_ctx := (en_ctx en)\<lparr>ctx_pc := pc\<rparr>\<rparr>"]
  by (auto simp: run_def split: option.splits)

theorem run_outcome_witness:
  "\<exists>en'. run idle_cpu demo_kernel 0x1000 exit_engine = Some (1, en') \<and> \<not> running (en_ctx en') \<and>
     ctx_exit_status (en_ctx en') = 7 \<and> engine_reaches idle_cpu demo_kernel exit_engine en'"
proof -
  obtain ctx s where e: "execute demo_kernel (next_pc (en_ctx exit_engine)) (en_sys exit_engine) = Some (7, ctx, s)"
      "ctx_state_flags ctx = STATE_EXITED" "ctx_exit_status ctx = 7"
    using exit_execute by blast
  have pc: "ctx_pc (en_ctx exit_engine) = 0x1000" "running (en_ctx exit_engine)"
      "exit_engine\<lparr>en_ctx := (en_ctx exit_engine)\<lparr>ctx_pc := 0x1000\<rparr>\<rparr> = exit_engine"
    by (simp_all add: exit_engine_def running_def CPUContext_init_def)
  define en' where "en' = exit_engine\<lparr>en_ctx := finish_syscall 7 ctx, en_sys := s\<rparr>"
  have "run_body idle_cpu demo_kernel exit_engine = Some (Inr (True, en'))"
    by (simp add: run_body_def pc exit_lookup exit_fetch is_svc_def handle_syscall_def e en'_def)
  moreover have stop: "\<not> running (en_ctx en')"
    by (simp add: en'_def running_def finish_syscall_def e state_defs)
  ultimately have r: "run idle_cpu demo_kernel 0x1000 exit_engine = Some (1, en')"
    by (simp add: run_def pc run_loop.simps [of _ _ _ exit_engine] run_loop.simps [of _ _ _ en'] max_iter_def)
  have "engine_reaches idle_cpu demo_kernel exit_engine en'"
    using run_outcome [of idle_cpu demo_kernel "0x1000" exit_engine] r pc(3) by simp
  with r stop e(3) show ?thesis by (auto simp: en'_def finish_syscall_def)
qed

text \<open>C15: The interpreter's undefined behaviour outside memory accesses comes from register number 31 alone.
  Every word that decodes to an instruction other than a load or store, and whose register fields are not
  31, is executed: the register arrays are never indexed out of range, no shift count is too large, the
  context keeps its shape and memory does not change.  ADD and SUB with register 31, the stack pointer,
  index the array out of range.\<close>

theorem interpreter_progress:
  assumes "decode w = (True, d)" and "d_category d \<noteq> LOAD_STORE" and "ctx_wf c"
  shows "(31 \<notin> {d_rd d, d_rn d, d_rm d} \<longrightarrow> (\<exists>c'. execute_decoded d mm c h = Some (c', h) \<and> ctx_wf c')) \<and>
    (d_opcode d \<in> {0x00, 0x01} \<and> 31 \<in> {d_rd d, d_rn d} \<longrightarrow> execute_decoded d mm c h = None)"
proof -
  have f: "fields_ok d" using decode_fields [OF assms(1)] .
  have o: "opcode_ok d" using decode_opcode_ok [of w] assms(1) by simp
  have "d_opcode d \<notin> memory_opcodes" using f assms(2) by (auto simp: fields_ok_def)
  then have m: "exec_memory d mm c h = Some None" using o
    by (simp add: exec_memory_def opcode_ok_def undecoded_opcodes_def memory_opcodes_def Let_def)
  have cmp: "exec_compare d c = Some (if d_opcode d = 0x90 then Some (next_pc c) else None)" using o
    by (simp add: exec_compare_def opcode_ok_def undecoded_opcodes_def Let_def)
  have "\<exists>c'. execute_decoded d mm c h = Some (c', h) \<and> ctx_wf c'" if n: "31 \<notin> {d_rd d, d_rn d, d_rm d}"
  proof -
    obtain r s where "exec_data d c = Some r" "exec_branch d c = Some s"
      using exec_data_defined [OF f o n, of c] exec_branch_defined [OF f n, of c] by blast
    then have "\<exists>c'. execute_decoded d mm c h = Some (c', h)"
      by (auto simp: execute_decoded_def m cmp split: option.split)
    with ctx_wf_execute_decoded assms(3) show ?thesis by blast
  qed
  moreover have "execute_decoded d mm c h = None" if "d_opcode d \<in> {0x00, 0x01}" "31 \<in> {d_rd d, d_rn d}"
    using that by (auto simp: execute_decoded_def exec_data_def get_x_def set_x_def Let_def)
  ultimately show ?thesis by blast
qed

text \<open>The witness: MOVZ x0, #5 is executed, SUB sp, sp, #16 is not.\<close>

theorem interpreter_progress_witness:
  "(\<exists>c'. execute_decoded (snd (decode 0xD28000A0)) MemoryManager_init CPUContext_init \<lparr>h_byte = (\<lambda>_. 0), h_prot = (\<lambda>_. None)\<rparr> =
      Some (c', \<lparr>h_byte = (\<lambda>_. 0), h_prot = (\<lambda>_. None)\<rparr>) \<and> ctx_wf c') \<and>
   execute_decoded (snd (decode 0xD10043FF)) MemoryManager_init CPUContext_init \<lparr>h_byte = (\<lambda>_. 0), h_prot = (\<lambda>_. None)\<rparr> = None"
proof -
  have d: "fst (decode 0xD28000A0)" "d_category (snd (decode 0xD28000A0)) \<noteq> LOAD_STORE"
    "31 \<notin> {d_rd (snd (decode 0xD28000A0)), d_rn (snd (decode 0xD28000A0)), d_rm (snd (decode 0xD28000A0))}"
    "fst (decode 0xD10043FF)" "d_category (snd (decode 0xD10043FF)) \<noteq> LOAD_STORE"
    "d_opcode (snd (decode 0xD10043FF)) \<in> {0x00, 0x01}" "31 \<in> {d_rd (snd (decode 0xD10043FF)), d_rn (snd (decode 0xD10043FF))}"
    by code_simp+
  have c: "ctx_wf CPUContext_init" by (simp add: ctx_wf_def CPUContext_init_def)
  have e: "decode w = (True, snd (decode w))" if "fst (decode w)" for w using that by (simp add: prod_eq_iff)
  show ?thesis
    using interpreter_progress [OF e [OF d(1)] d(2) c] interpreter_progress [OF e [OF d(4)] d(5) c] d(3,6,7) by blast
qed


text \<open>C25: \<open>check_condition\<close> is the architecture's condition test for the codes 0 to 14; the code 15,
  which the architecture treats as always true, is never true here.\<close>

theorem check_condition_architectural:
  "(\<forall>ctx. \<forall>cond<15. check_condition (ctx_nzcv ctx) cond =
      condition_holds cond (flag_n ctx) (flag_z ctx) (flag_c ctx) (flag_v ctx)) \<and>
   (\<forall>ctx. \<not> check_condition (ctx_nzcv ctx) 15 \<and>
      condition_holds 15 (flag_n ctx) (flag_z ctx) (flag_c ctx) (flag_v ctx))"
proof -
  have "check_condition (ctx_nzcv ctx) cond = condition_holds cond (flag_n ctx) (flag_z ctx) (flag_c ctx) (flag_v ctx)"
    if "cond < 15" for ctx cond
    using nibble_cases [OF that] by (auto simp: check_condition_def condition_holds_def flag_defs Let_def)
  then show ?thesis by (simp add: check_condition_def condition_holds_def flag_defs Let_def)
qed

theorem check_condition_architectural_witness:
  "check_condition (ctx_nzcv (set_nzcv True False False True CPUContext_init)) 10 \<and>
   \<not> check_condition (ctx_nzcv (set_nzcv True False False True CPUContext_init)) 15"
  using check_condition_architectural
  by (auto simp: condition_holds_def dest!: spec [of _ "set_nzcv True False False True CPUContext_init"] spec [of _ 10])

text \<open>C26: Compare and branch in the interpreter: after CMP of two registers whose signed difference
  does not overflow (otherwise the flag computation is undefined behaviour), the conditions EQ,
  NE, HS, LO, HI, LS, GE, LT, GT and LE are the unsigned and signed comparisons of the operands.\<close>

theorem compare_sets_conditions:
  assumes "d_opcode d = 0x30" and "get_x ctx (d_rn d) = Some a" and "get_x ctx (d_rm d) = Some b"
    and "- (2 ^ 63) \<le> sint a - sint b" and "sint a - sint b < 2 ^ 63"
  shows "\<exists>ctx'. execute_decoded d mm ctx h = Some (ctx', h) \<and> ctx_x ctx' = ctx_x ctx \<and>
    (let holds = check_condition (ctx_nzcv ctx')
     in (holds 0 \<longleftrightarrow> a = b) \<and> (holds 1 \<longleftrightarrow> a \<noteq> b) \<and> (holds 2 \<longleftrightarrow> a \<ge> b) \<and> (holds 3 \<longleftrightarrow> a < b) \<and>
        (holds 8 \<longleftrightarrow> a > b) \<and> (holds 9 \<longleftrightarrow> a \<le> b) \<and>
        (holds 10 \<longleftrightarrow> sint a \<ge> sint b) \<and> (holds 11 \<longleftrightarrow> sint a < sint b) \<and>
        (holds 12 \<longleftrightarrow> sint a > sint b) \<and> (holds 13 \<longleftrightarrow> sint a \<le> sint b))"
proof -
  have "sint (a - b) = signed_take_bit 63 (sint a - sint b)" using sint_word_ariths(2) [of a b] by simp
  then have "sint (a - b) = sint a - sint b" using assms(4,5) by (simp only: signed_take_bit_int_eq_self)
  then have n: "bit (a - b) 63 \<longleftrightarrow> sint a < sint b" using bit_last_iff [of "a - b"] by simp
  have z: "a - b = 0 \<longleftrightarrow> a = b" by simp
  have eq: "sint a = sint b \<longleftrightarrow> a = b" by (rule word_eq_iff_signed [symmetric])
  define ctx' where "ctx' = next_pc (set_nzcv (sint a < sint b) (a = b) (a \<ge> b) False ctx)"
  have "execute_decoded d mm ctx h = Some (ctx', h)"
    using assms n by (simp add: execute_decoded_def exec_data_def exec_memory_def exec_branch_def exec_compare_def ctx'_def Let_def)
  moreover have "flag_n ctx' = (sint a < sint b)" "flag_z ctx' = (a = b)" "flag_c ctx' = (a \<ge> b)" "flag_v ctx' = False"
    using flags_set_nzcv [of "sint a < sint b" "a = b" "a \<ge> b" False ctx]
    by (simp_all add: ctx'_def next_pc_def flag_defs)
  then have "check_condition (ctx_nzcv ctx') c =
      condition_holds c (sint a < sint b) (a = b) (a \<ge> b) False" if "c < 15" for c
    using nibble_cases [OF that] by (auto simp: check_condition_def condition_holds_def flag_defs Let_def)
  moreover have "ctx_x ctx' = ctx_x ctx" by (simp add: ctx'_def next_pc_def set_nzcv_def)
  ultimately show ?thesis
    using eq by (intro exI [of _ ctx']) (auto simp: condition_holds_def Let_def not_less not_le)
qed

theorem compare_sets_conditions_witness:
  "let ctx = CPUContext_init\<lparr>ctx_x := (replicate 31 0)[1 := 5, 2 := - 1]\<rparr>;
       d = DecodedInstr_zero\<lparr>d_opcode := 0x30, d_rn := 1, d_rm := 2\<rparr>
   in \<exists>ctx'. execute_decoded d MemoryManager_init ctx (s_host demo_sys) = Some (ctx', s_host demo_sys) \<and>
        check_condition (ctx_nzcv ctx') 3 \<and> check_condition (ctx_nzcv ctx') 12"
  using compare_sets_conditions [of "DecodedInstr_zero\<lparr>d_opcode := 0x30, d_rn := 1, d_rm := 2\<rparr>"
    "CPUContext_init\<lparr>ctx_x := (replicate 31 0)[1 := 5, 2 := - 1]\<rparr>" 5 "- 1" MemoryManager_init "s_host demo_sys"]
  by (auto simp: get_x_def Let_def)

text \<open>C34: A system call passes its result through an \<open>int\<close>: the pass executes the handler with the
  program counter behind the SVC and leaves in \<open>x0\<close> the low 32 bits of the result, sign-extended.
  The guest sees the handler's result exactly when it fits into 32 bits; an address above 2 GiB, as
  \<open>mmap\<close> and \<open>brk\<close> return it, is lost.\<close>

theorem syscall_result_truncated:
  assumes "fst (lookup (ctx_pc (en_ctx en)) (en_cache en)) = None"
    and "read_u32 (ctx_pc (en_ctx en)) (s_mem (en_sys en)) (s_host (en_sys en)) = Some (Some instr)" and "is_svc instr"
    and "execute K (next_pc (en_ctx en)) (en_sys en) = Some (r, ctx, s)" and "ctx_wf ctx"
  shows "\<exists>en'. run_body cpu K en = Some (Inr (True, en')) \<and> en_sys en' = s \<and>
    get_x (en_ctx en') 0 = Some (scast (ucast r :: i32)) \<and>
    (get_x (en_ctx en') 0 = Some r \<longleftrightarrow> - (2 ^ 31) \<le> sint r \<and> sint r < 2 ^ 31)"
proof -
  obtain tc where l: "lookup (ctx_pc (en_ctx en)) (en_cache en) = (None, tc)" using assms(1) by (metis prod.collapse)
  define en' where "en' = en\<lparr>en_cache := tc, en_ctx := finish_syscall (ucast r) ctx, en_sys := s\<rparr>"
  have body: "run_body cpu K en = Some (Inr (True, en'))"
    using assms by (simp add: run_body_def l handle_syscall_def en'_def)
  have x0: "get_x (en_ctx en') 0 = Some (scast (ucast r :: i32))"
    using assms(5) by (simp add: get_x_def en'_def finish_syscall_def ctx_wf_def)
  have "(scast (ucast r :: i32) :: i64) = r \<longleftrightarrow> sint (scast (ucast r :: i32) :: i64) = sint r"
    by (rule word_eq_iff_signed)
  also have "sint (scast (ucast r :: i32) :: i64) = signed_take_bit 31 (sint r)"
    by (rule sint_int_of_i64)
  also have "signed_take_bit 31 (sint r) = sint r \<longleftrightarrow> - (2 ^ 31) \<le> sint r \<and> sint r < 2 ^ 31"
    using signed_take_bit_int_greater_eq_minus_exp [of 31 "sint r"] signed_take_bit_int_less_exp [of 31 "sint r"]
    by (auto intro: signed_take_bit_int_eq_self)
  finally have "(scast (ucast r :: i32) :: i64) = r \<longleftrightarrow> - (2 ^ 31) \<le> sint r \<and> sint r < 2 ^ 31" .
  with body x0 show ?thesis by (intro exI [of _ en']) (simp add: en'_def)
qed

theorem syscall_result_truncated_witness:
  "\<exists>en'. run_body idle_cpu demo_kernel exit_engine = Some (Inr (True, en')) \<and> get_x (en_ctx en') 0 = Some 7"
proof -
  obtain ctx s where e: "execute demo_kernel (next_pc (en_ctx exit_engine)) (en_sys exit_engine) = Some (7, ctx, s)"
    using exit_execute by blast
  have pc: "ctx_pc (en_ctx exit_engine) = 0x1000" by (simp add: exit_engine_def)
  have "ctx_wf (next_pc (en_ctx exit_engine))"
    by (simp add: exit_engine_def ctx_wf_def CPUContext_init_def next_pc_def)
  then have "ctx_wf ctx" using ctx_wf_execute [OF e] by simp
  then show ?thesis
    using syscall_result_truncated [of exit_engine "0xD4000001" demo_kernel 7 ctx s idle_cpu] e
    by (auto simp: pc exit_lookup exit_fetch is_svc_def)
qed

end
