(* ===== verification/Jit_Run.thy ===== *)
theory Jit_Run
  imports X86_Host Arm_Words Engine_Run
begin

text \<open>
  Whole runs of the engine on the reference processor of \<open>X86_Host\<close>.  The reference is a machine
  that fetches, decodes and interprets one guest instruction at a time (\<open>guest_step\<close>).  Every
  pass of the run loop, whether it finds a block in the cache, translates one, or interprets an
  instruction because the code pool is exhausted, makes one or more of these steps.
\<close>

section \<open>Simulation by blocks\<close>

text \<open>A machine whose passes make several steps of a reference machine at once: given enough
  reference steps, \<open>size\<close> of them or all up to a stopping state, a pass makes a prefix of them.\<close>

locale block_simulation =
  fixes rel :: "'s \<Rightarrow> 'a \<Rightarrow> bool" and pass :: "'s \<Rightarrow> 's \<Rightarrow> bool" and ref :: "'a \<Rightarrow> 'a \<Rightarrow> bool"
    and stop :: "'a \<Rightarrow> bool" and size :: nat
  assumes pass_sim: "rel s a \<Longrightarrow> (ref ^^ n) a b \<Longrightarrow> 0 < n \<Longrightarrow> size \<le> n \<or> stop b \<Longrightarrow>
      \<exists>m k a' s'. 0 < m \<and> m \<le> size \<and> n = m + k \<and> (ref ^^ m) a a' \<and> (ref ^^ k) a' b \<and> pass s s' \<and> rel s' a'"
begin

lemma reaches_stop:
  assumes "rel s a" "(ref ^^ n) a b" "stop b"
  shows "\<exists>k s'. k \<le> n \<and> n \<le> size * k \<and> (pass ^^ k) s s' \<and> rel s' b"
  using assms(1,2)
proof (induction n arbitrary: s a rule: less_induct)
  case (less n)
  show ?case
  proof (cases n)
    case 0
    with less.prems show ?thesis by (intro exI [of _ 0] exI [of _ s]) auto
  next
    case (Suc n')
    then obtain m k a' s1 where 1: "0 < m" "m \<le> size" "n = m + k" "(ref ^^ k) a' b" "pass s s1" "rel s1 a'"
      using pass_sim [OF less.prems] assms(3) by blast
    then obtain j s' where 2: "j \<le> k" "k \<le> size * j" "(pass ^^ j) s1 s'" "rel s' b"
      using less.IH [of k s1 a'] by auto
    have "(pass ^^ Suc j) s s'" using 1(5) 2(3) by (rule relpowp_Suc_I2)
    with 1 2 show ?thesis by (intro exI [of _ "Suc j"] exI [of _ s']) auto
  qed
qed

lemma keeps_going:
  assumes "rel s a" "(ref ^^ (size * k)) a b" "0 < size"
  shows "\<exists>m a' s'. k \<le> m \<and> (ref ^^ m) a a' \<and> (pass ^^ k) s s' \<and> rel s' a'"
  using assms(1,2)
proof (induction k arbitrary: s a b)
  case 0
  then show ?case by (intro exI [of _ 0]) auto
next
  case (Suc k)
  then obtain m l a' s1 where 1: "0 < m" "m \<le> size" "size * Suc k = m + l" "(ref ^^ m) a a'" "(ref ^^ l) a' b"
      "pass s s1" "rel s1 a'"
    using pass_sim [OF Suc.prems] assms(3) by auto
  then have l: "l = size * k + (size - m)" by simp
  from 1(5) obtain b' where "(ref ^^ (size * k)) a' b'" unfolding l relpowp_add by blast
  from Suc.IH [OF 1(7) this] obtain j a2 s2 where 2: "k \<le> j" "(ref ^^ j) a' a2" "(pass ^^ k) s1 s2" "rel s2 a2" by blast
  have "(pass ^^ Suc k) s s2" using 1(6) 2(3) by (rule relpowp_Suc_I2)
  moreover have "(ref ^^ (m + j)) a a2" using 1(4) 2(2) unfolding relpowp_add by blast
  ultimately show ?case using 1(1) 2 by (intro exI [of _ "m + j"] exI [of _ a2] exI [of _ s2]) auto
qed

end

section \<open>The reference machine\<close>

text \<open>An instruction is fetched from outside the bytes \<open>A\<close> that the translator owns.\<close>

definition fetches :: "host \<Rightarrow> u64 set \<Rightarrow> u64 \<Rightarrow> u32 \<Rightarrow> bool" where
  "fetches h A pc raw \<longleftrightarrow> map_option le_word (host_read h pc 4) = Some raw \<and> set (addrs pc 4) \<inter> A = {}"

inductive guest_step :: "host \<Rightarrow> u64 set \<Rightarrow> CPUContext \<Rightarrow> CPUContext \<Rightarrow> bool" for h A where
  instr: "fetches h A (ctx_pc c) raw \<Longrightarrow> \<not> is_svc raw \<Longrightarrow> decode raw = (True, d) \<Longrightarrow> supported d \<Longrightarrow>
    execute_decoded d MemoryManager_init c h = Some (c', h) \<Longrightarrow> guest_step h A c c'"

inductive_cases guest_stepE: "guest_step h A c c'"

text \<open>The architecture on its words makes such steps.\<close>

inductive arm_step :: "host \<Rightarrow> u64 set \<Rightarrow> CPUContext \<Rightarrow> CPUContext \<Rightarrow> bool" for h A where
  word: "fetches h A (ctx_pc c) w \<Longrightarrow> arm_word w \<Longrightarrow> arm_step h A c (arm_exec w c)"

lemma arm_step_guest: "arm_step h A c c' \<Longrightarrow> guest_step h A c c'"
proof (induction rule: arm_step.induct)
  case (word c w)
  from arm_word_exec [OF word(2)] obtain d where d: "decode w = (True, d)" "supported d"
      "execute_decoded d MemoryManager_init c h = Some (arm_exec w c, h)" by blast
  moreover have "\<not> is_svc w" using decode_svc [of w] d(1) by (auto simp: is_svc_def)
  ultimately show ?case using word(1) by (blast intro: guest_step.instr)
qed

lemma arm_steps_guest: "(arm_step h A ^^ n) c c' \<Longrightarrow> (guest_step h A ^^ n) c c'"
proof (induction n arbitrary: c')
  case (Suc n)
  then show ?case by (auto dest: arm_step_guest)
qed simp

definition at_svc :: "host \<Rightarrow> u64 set \<Rightarrow> CPUContext \<Rightarrow> bool" where
  "at_svc h A c \<longleftrightarrow> (\<exists>raw. fetches h A (ctx_pc c) raw \<and> is_svc raw)"

lemma fetches_read: "fetches h A pc raw \<Longrightarrow> same_but A h h' \<Longrightarrow> read_u32 pc mm h' = Some (Some raw)"
  by (auto simp: fetches_def read_u32_def same_but_read)

subsection \<open>The interpreter on these instructions\<close>

text \<open>Contexts with the same integer registers and the same control fields; flags and vectors may
  differ.\<close>

definition agree :: "CPUContext \<Rightarrow> CPUContext \<Rightarrow> bool" where
  "agree c c' \<longleftrightarrow> ctx_wf c \<and> ctx_wf c' \<and> int_words c = int_words c' \<and> ctx_control c = ctx_control c'"

lemma agree_fields:
  assumes "agree c c'"
  shows "ctx_x c = ctx_x c'" "ctx_sp c = ctx_sp c'" "ctx_pc c = ctx_pc c'" "ctx_lr c = ctx_lr c'"
    "ctx_state_flags c = ctx_state_flags c'" "running c = running c'"
  using assms by (auto simp: agree_def int_words_def ctx_wf_def ctx_control_def running_def)

lemma agree_refl: "ctx_wf c \<Longrightarrow> agree c c"
  by (simp add: agree_def)

lemma agree_update:
  assumes "agree c c'" "length xs = 31"
  shows "agree (c\<lparr>ctx_x := xs, ctx_pc := p\<rparr>) (c'\<lparr>ctx_x := xs, ctx_pc := p\<rparr>)"
  unfolding agree_def
  using agree_fields(2,4) [OF assms(1)] assms(2) assms(1) [unfolded agree_def, THEN conjunct1]
    assms(1) [unfolded agree_def, THEN conjunct2, THEN conjunct1]
    assms(1) [unfolded agree_def, THEN conjunct2, THEN conjunct2, THEN conjunct2]
  by (simp add: int_words_def ctx_wf_def ctx_control_def)

text \<open>Each of them writes the registers and the program counter by a function of both.\<close>

definition writes_by :: "DecodedInstr \<Rightarrow> (u64 list \<Rightarrow> u64 \<Rightarrow> u64 list) \<Rightarrow> (u64 \<Rightarrow> u64) \<Rightarrow> bool" where
  "writes_by d f g \<longleftrightarrow> (\<forall>xs p. length (f xs p) = length xs) \<and>
     (\<forall>mm c h. execute_decoded d mm c h = Some (c\<lparr>ctx_x := f (ctx_x c) (ctx_pc c), ctx_pc := g (ctx_pc c)\<rparr>, h))"

lemma writes_by_straight:
  "d_opcode d = 0 \<Longrightarrow> d_rd d < 31 \<Longrightarrow> d_rn d < 31 \<Longrightarrow>
     writes_by d (\<lambda>xs p. xs[unat (d_rd d) := xs ! unat (d_rn d) + d_imm d]) (\<lambda>p. p + 4)"
  "d_opcode d = 1 \<Longrightarrow> d_rd d < 31 \<Longrightarrow> d_rn d < 31 \<Longrightarrow>
     writes_by d (\<lambda>xs p. xs[unat (d_rd d) := xs ! unat (d_rn d) - d_imm d]) (\<lambda>p. p + 4)"
  "d_opcode d = 0x22 \<Longrightarrow> d_rd d < 31 \<Longrightarrow> writes_by d (\<lambda>xs p. xs[unat (d_rd d) := d_imm d]) (\<lambda>p. p + 4)"
  "d_opcode d = 0x24 \<Longrightarrow> d_rd d < 31 \<Longrightarrow> writes_by d (\<lambda>xs p. xs[unat (d_rd d) := p + d_imm_s d]) (\<lambda>p. p + 4)"
  "d_opcode d = 0x25 \<Longrightarrow> d_rd d < 31 \<Longrightarrow>
     writes_by d (\<lambda>xs p. xs[unat (d_rd d) := (p AND NOT 0xFFF) + push_bit 12 (d_imm_s d)]) (\<lambda>p. p + 4)"
  "d_opcode d = 0x90 \<Longrightarrow> writes_by d (\<lambda>xs p. xs) (\<lambda>p. p + 4)"
  by (simp_all add: writes_by_def execute_decoded_straight next_pc_def)

lemma writes_by_branch:
  "d_opcode d = 0x50 \<Longrightarrow> writes_by d (\<lambda>xs p. xs) (\<lambda>p. p + ucast (d_branch_offset d))"
  "d_opcode d = 0x51 \<Longrightarrow> writes_by d (\<lambda>xs p. xs[30 := p + 4]) (\<lambda>p. p + ucast (d_branch_offset d))"
  by (simp_all add: writes_by_def execute_decoded_straight branch_by_def)

lemma supported_writes:
  assumes "supported d"
  obtains f g where "writes_by d f g" "straight d \<Longrightarrow> g = (\<lambda>p. p + 4)"
proof (cases "straight d")
  case True
  then have "\<exists>f. writes_by d f (\<lambda>p. p + 4)"
    unfolding straight_def using writes_by_straight [of d] by blast
  with that show ?thesis by blast
next
  case False
  then have "d_opcode d \<in> {0x50, 0x51}" using assms by (auto simp: supported_def forward_branch_def)
  with writes_by_branch [of d] that False show ?thesis by blast
qed

text \<open>So its effect is the same in every memory and on every context that agrees.\<close>

lemma supported_exec:
  assumes "supported d" "execute_decoded d mm c h = Some (c1, h1)"
  shows "h1 = h" "ctx_wf c1 = ctx_wf c" "ctx_control c1 = ctx_control c" "straight d \<Longrightarrow> ctx_pc c1 = ctx_pc c + 4"
    and "agree c' c \<Longrightarrow> \<exists>c2. execute_decoded d mm' c' h' = Some (c2, h') \<and> agree c2 c1"
proof -
  obtain f g where w: "writes_by d f g" "straight d \<Longrightarrow> g = (\<lambda>p. p + 4)" using supported_writes [OF assms(1)] by metis
  from w(1) have e: "execute_decoded d mm c h = Some (c\<lparr>ctx_x := f (ctx_x c) (ctx_pc c), ctx_pc := g (ctx_pc c)\<rparr>, h)"
    and len: "length (f xs p) = length xs" for mm c h xs p by (auto simp: writes_by_def)
  from assms(2) have c1: "c1 = c\<lparr>ctx_x := f (ctx_x c) (ctx_pc c), ctx_pc := g (ctx_pc c)\<rparr>" "h1 = h" by (simp_all add: e)
  then show "h1 = h" "ctx_wf c1 = ctx_wf c" "ctx_control c1 = ctx_control c" "straight d \<Longrightarrow> ctx_pc c1 = ctx_pc c + 4"
    using w(2) len by (simp_all add: ctx_wf_def ctx_control_def)
  show "\<exists>c2. execute_decoded d mm' c' h' = Some (c2, h') \<and> agree c2 c1" if "agree c' c"
    using agree_update [OF that, of "f (ctx_x c) (ctx_pc c)"] agree_fields(1,3) [OF that] that len
    by (simp add: e c1 agree_def ctx_wf_def)
qed

lemma guest_step_keeps: "guest_step h A c c' \<Longrightarrow> ctx_wf c' = ctx_wf c \<and> ctx_control c' = ctx_control c"
  by (auto elim!: guest_stepE dest: supported_exec(2,3))

lemma guest_steps_keep: "(guest_step h A ^^ n) c c' \<Longrightarrow> ctx_wf c' = ctx_wf c \<and> ctx_control c' = ctx_control c"
  by (induction n arbitrary: c') (auto dest: guest_step_keeps)

section \<open>The blocks of a run\<close>

text \<open>If the reference machine makes \<open>n\<close> steps, as many as a block can have or up to a system call,
  then the block that the engine collects at its first instruction is a prefix of these steps.
  What the translator does to its own bytes makes no difference.\<close>

definition steps_block :: "host \<Rightarrow> u64 set \<Rightarrow> nat \<Rightarrow> CPUContext \<Rightarrow> DecodedInstr list \<Rightarrow> CPUContext \<Rightarrow> bool" where
  "steps_block h A N c ds c1 \<longleftrightarrow> (\<forall>h' mm. same_but A h h' \<longrightarrow> collect_block N (ctx_pc c) mm h' = Some ds) \<and>
     (ds = [] \<or> jit_block ds) \<and> (\<forall>d\<in>set ds. \<not> d_sets_flags d) \<and>
     interp ds MemoryManager_init c h = Some (c1, h) \<and> (guest_step h A ^^ length ds) c c1"

lemma steps_block_Nil: "at_svc h A c \<or> N = 0 \<Longrightarrow> steps_block h A N c [] c"
  by (cases N) (auto simp: steps_block_def at_svc_def fetches_read)

lemma steps_block_branch:
  assumes "fetches h A (ctx_pc c) raw" "\<not> is_svc raw" "decode raw = (True, d)"
    and "execute_decoded d MemoryManager_init c h = Some (c1, h)" "supported d" "\<not> straight d"
  shows "steps_block h A (Suc N) c [d] c1"
proof -
  have "guest_step h A c c1" using assms(1-5) by (blast intro: guest_step.instr)
  with assms show ?thesis by (auto simp: steps_block_def fetches_read jit_block_def supported_def eq_OO)
qed

lemma steps_block_Cons:
  assumes "fetches h A (ctx_pc c) raw" "\<not> is_svc raw" "decode raw = (True, d)"
    and "execute_decoded d MemoryManager_init c h = Some (c1, h)" "supported d" "straight d"
    and "steps_block h A N c1 ds c2"
  shows "steps_block h A (Suc N) c (d # ds) c2"
proof -
  have step: "guest_step h A c c1" using assms(1-5) by (blast intro: guest_step.instr)
  have "ctx_pc c1 = ctx_pc c + 4" using supported_exec(4) [OF assms(5,4,6)] .
  moreover have "d_category d \<noteq> BRANCH" "d_category d \<noteq> BRANCH_COND"
    using assms(6) by (simp_all add: straight_def ends_block_def)
  moreover have "jit_block (d # ds)" using assms(6,7) by (auto simp: steps_block_def jit_block_def)
  ultimately show ?thesis
    using assms step relpowp_Suc_I2 [of "guest_step h A", OF step]
    by (auto simp: steps_block_def fetches_read supported_def)
qed

lemma steps_blockI:
  assumes "(guest_step h A ^^ n) c c'" "N \<le> n \<or> at_svc h A c'"
  obtains ds c1 m where "steps_block h A N c ds c1" "n = length ds + m" "(guest_step h A ^^ m) c1 c'"
    "0 < n \<Longrightarrow> 0 < N \<Longrightarrow> ds \<noteq> []"
  using assms
proof (induction N arbitrary: n c thesis)
  case 0
  from 0(1) [OF steps_block_Nil] 0(2) show ?case by simp
next
  case (Suc N)
  show ?case
  proof (cases n)
    case 0
    with Suc.prems have "c = c'" "at_svc h A c" by auto
    with Suc.prems(1) [OF steps_block_Nil] 0 show ?thesis by simp
  next
    case (Suc m)
    with Suc.prems(2) obtain c1 where c1: "guest_step h A c c1" "(guest_step h A ^^ m) c1 c'"
      by (meson relpowp_Suc_D2)
    from c1(1) obtain raw d where d: "fetches h A (ctx_pc c) raw" "\<not> is_svc raw" "decode raw = (True, d)"
        "execute_decoded d MemoryManager_init c h = Some (c1, h)" "supported d"
      by (blast elim: guest_stepE)
    show ?thesis
    proof (cases "straight d")
      case True
      have "N \<le> m \<or> at_svc h A c'" using Suc.prems(3) \<open>n = Suc m\<close> by auto
      from Suc.IH [OF _ c1(2) this]
      obtain ds c2 k where "steps_block h A N c1 ds c2" "m = length ds + k" "(guest_step h A ^^ k) c2 c'" by blast
      with Suc.prems(1) [OF steps_block_Cons [OF d True]] \<open>n = Suc m\<close> show ?thesis by auto
    next
      case False
      from Suc.prems(1) [OF steps_block_branch [OF d False]] c1(2) \<open>n = Suc m\<close> show ?thesis by auto
    qed
  qed
qed

lemma steps_block_bound:
  assumes "steps_block h A max_instr c ds c1" "ds \<noteq> []"
  shows "jit_block ds" "4 * length ds < 2 ^ 32" "block_bound ds \<le> 4096"
proof -
  have n: "length ds \<le> 64"
    using assms(1) length_collect_block [of max_instr "ctx_pc c" MemoryManager_init h ds]
    by (auto simp: steps_block_def max_instr_def)
  have "sum_list (map guest_bound ds) = sum_list (map (\<lambda>_. 27) ds)"
    using assms(1) by (intro arg_cong [where f = sum_list]) (simp add: steps_block_def guest_bound_def)
  then show "jit_block ds" "4 * length ds < 2 ^ 32" "block_bound ds \<le> 4096"
    using assms n by (simp_all add: block_bound_def sum_list_triv steps_block_def)
qed

section \<open>The relation between the engine and the reference machine\<close>

text \<open>A cached block lies in the used part of the pool and its bytes are the code of the block that
  the guest has at this address.\<close>

definition entry_ok :: "host \<Rightarrow> host \<Rightarrow> TranslationCache \<Rightarrow> u64 \<Rightarrow> u64 \<Rightarrow> bool" where
  "entry_ok h0 h tc pc hc \<longleftrightarrow> (\<exists>off ds code rest. hc = tc_code_pool tc + of_nat off \<and>
     off + 4096 \<le> unat (tc_code_pool_used tc) \<and> collect_block max_instr pc MemoryManager_init h0 = Some ds \<and> ds \<noteq> [] \<and>
     peek hc 4096 h = code @ rest \<and> decodes_to code (block_text pc ds))"

definition cache_ok :: "host \<Rightarrow> host \<Rightarrow> TranslationCache \<Rightarrow> bool" where
  "cache_ok h0 h tc \<longleftrightarrow> (\<forall>pc hc sz n. cache_find tc pc = Some (hc, sz, n) \<longrightarrow> entry_ok h0 h tc pc hc)"

text \<open>The pool: mapped, writable, without wrap-around, apart from the context and the stack.\<close>

definition pool_bytes :: "TranslationCache \<Rightarrow> u64 set" where
  "pool_bytes tc = set (addrs (tc_code_pool tc) (unat (tc_code_pool_size tc)))"

definition pool_ready :: "x86_state \<Rightarrow> TranslationCache \<Rightarrow> host \<Rightarrow> bool" where
  "pool_ready st0 tc h \<longleftrightarrow> tc_code_pool tc \<noteq> 0 \<and> unat (tc_code_pool tc) + unat (tc_code_pool_size tc) < 2 ^ 64 \<and>
     unat (tc_code_pool_size tc) < 2 ^ 63 \<and> tc_code_pool_used tc \<le> tc_code_pool_size tc \<and>
     writable (tc_code_pool tc) (unat (tc_code_pool_size tc)) h \<and> pool_bytes tc \<inter> call_bytes st0 = {}"

definition private_bytes :: "x86_state \<Rightarrow> TranslationCache \<Rightarrow> u64 set" where
  "private_bytes st0 tc = call_bytes st0 \<union> pool_bytes tc"

text \<open>The operating system's part of the guest: the translator changes its own bytes and the list
  of translated pages, nothing else.\<close>

definition sys_agree :: "u64 set \<Rightarrow> 'k sys \<Rightarrow> 'k sys \<Rightarrow> bool" where
  "sys_agree P s s' \<longleftrightarrow> same_but P (s_host s) (s_host s') \<and>
     (s_mem s')\<lparr>mm_translated_pages := []\<rparr> = (s_mem s)\<lparr>mm_translated_pages := []\<rparr> \<and> s_k s' = s_k s"

lemma sys_agree_refl [simp]: "sys_agree P s s"
  by (simp add: sys_agree_def)

lemma sys_agree_host:
  assumes "sys_agree P s s'" "same_but P (s_host s') h"
  shows "sys_agree P s (s'\<lparr>s_host := h\<rparr>)"
    and "sys_agree P s (s'\<lparr>s_host := h, s_mem := mark_translated_page pc (s_mem s')\<rparr>)"
  using assms by (auto simp: sys_agree_def mark_translated_page_def Let_def intro: same_but_trans)

text \<open>The engine against the registers \<open>c\<close> and the system \<open>s\<close> of the reference machine.  The
  translator owns the bytes \<open>P\<close>; the memory of \<open>s\<close> may differ from that of the start, \<open>h0\<close>, in the bytes
  of \<open>A\<close>, where no instruction lies.\<close>

definition jit_rel :: "host \<Rightarrow> u64 set \<Rightarrow> u64 set \<Rightarrow> x86_state \<Rightarrow> 'k sys \<Rightarrow> 'k engine \<Rightarrow> CPUContext \<Rightarrow> bool" where
  "jit_rel h0 A P st0 s en c \<longleftrightarrow> agree (en_ctx en) c \<and> same_but A h0 (s_host s) \<and> sys_agree P s (en_sys en) \<and>
     host_ready st0 h0 \<and> pool_ready st0 (en_cache en) h0 \<and> P = private_bytes st0 (en_cache en) \<and> P \<subseteq> A \<and>
     cache_ok h0 (s_host (en_sys en)) (en_cache en)"

lemma jit_relD:
  assumes "jit_rel h0 A P st0 s en c"
  shows "agree (en_ctx en) c" "same_but A h0 (s_host (en_sys en))" "host_ready st0 h0" "pool_ready st0 (en_cache en) h0"
    "P = private_bytes st0 (en_cache en)" "cache_ok h0 (s_host (en_sys en)) (en_cache en)"
    "same_but A h0 (s_host s)" "sys_agree P s (en_sys en)" "P \<subseteq> A"
  using assms same_but_mono [of P "s_host s" "s_host (en_sys en)" A] same_but_trans [of A h0 "s_host s" "s_host (en_sys en)"]
  by (auto simp: jit_rel_def sys_agree_def)

lemma pool_slice:
  assumes "pool_ready st0 tc h" "off + n \<le> unat (tc_code_pool_size tc)" "0 < n"
  defines "hc \<equiv> tc_code_pool tc + of_nat off"
  shows "hc \<noteq> 0" "writable hc n h" "set (addrs hc n) \<subseteq> pool_bytes tc" "set (addrs hc n) \<inter> call_bytes st0 = {}"
proof -
  have "unat (tc_code_pool tc) + off < 2 ^ 64" "0 < unat (tc_code_pool tc)"
    using assms by (auto simp: pool_ready_def unat_gt_0)
  then have "unat hc = unat (tc_code_pool tc) + off" unfolding hc_def by (intro unat_add_of_nat)
  with \<open>0 < unat (tc_code_pool tc)\<close> show "hc \<noteq> 0" by auto
  show sub: "set (addrs hc n) \<subseteq> pool_bytes tc" unfolding hc_def pool_bytes_def using assms(2) by (rule addrs_subset)
  then show "writable hc n h" "set (addrs hc n) \<inter> call_bytes st0 = {}"
    using assms(1) by (auto simp: pool_ready_def writable_def list_all_iff pool_bytes_def)
qed

text \<open>What keeps the entries: memory that is the same in the used part of the pool, and a cache
  that finds no new blocks.\<close>

lemma entry_ok_keep:
  assumes "entry_ok h0 h tc pc hc" "tc_code_pool tc' = tc_code_pool tc"
    and "unat (tc_code_pool_used tc) \<le> unat (tc_code_pool_used tc')"
    and "\<And>off. off + 4096 \<le> unat (tc_code_pool_used tc) \<Longrightarrow>
      peek (tc_code_pool tc + of_nat off) 4096 h' = peek (tc_code_pool tc + of_nat off) 4096 h"
  shows "entry_ok h0 h' tc' pc hc"
  using assms unfolding entry_ok_def by fastforce

lemma cache_ok_keep:
  assumes "cache_ok h0 h tc" "\<And>pc w. cache_find tc' pc = Some w \<Longrightarrow> cache_find tc pc = Some w"
    and "tc_code_pool tc' = tc_code_pool tc" "tc_code_pool_used tc' = tc_code_pool_used tc"
  shows "cache_ok h0 h tc'"
  unfolding cache_ok_def
proof (intro allI impI)
  fix pc hc sz n assume "cache_find tc' pc = Some (hc, sz, n)"
  with assms(1,2) have "entry_ok h0 h tc pc hc" unfolding cache_ok_def by blast
  then show "entry_ok h0 h tc' pc hc" by (rule entry_ok_keep) (simp_all add: assms(3,4))
qed

lemma lookup_frame:
  "tc_code_pool (snd (lookup pc tc)) = tc_code_pool tc" "tc_code_pool_size (snd (lookup pc tc)) = tc_code_pool_size tc"
  "tc_code_pool_used (snd (lookup pc tc)) = tc_code_pool_used tc"
  by (simp_all add: lookup_def Let_def split: option.splits)

lemma jit_rel_cache:
  assumes "jit_rel h0 A P st0 s en c" "\<And>pc w. cache_find tc' pc = Some w \<Longrightarrow> cache_find (en_cache en) pc = Some w"
    and "tc_code_pool tc' = tc_code_pool (en_cache en)" "tc_code_pool_used tc' = tc_code_pool_used (en_cache en)"
    and "tc_code_pool_size tc' = tc_code_pool_size (en_cache en)"
  shows "jit_rel h0 A P st0 s (en\<lparr>en_cache := tc'\<rparr>) c"
proof -
  have "pool_ready st0 tc' h0 = pool_ready st0 (en_cache en) h0" "private_bytes st0 tc' = private_bytes st0 (en_cache en)"
    by (simp_all add: pool_ready_def private_bytes_def pool_bytes_def assms(3,4,5))
  moreover have "cache_ok h0 h (en_cache en) \<Longrightarrow> cache_ok h0 h tc'" for h by (rule cache_ok_keep [OF _ assms(2,3,4)])
  ultimately show ?thesis using assms(1) by (auto simp: jit_rel_def)
qed

lemma jit_rel_lookup: "jit_rel h0 A P st0 s en c \<Longrightarrow> jit_rel h0 A P st0 s (en\<lparr>en_cache := snd (lookup pc (en_cache en))\<rparr>) c"
  by (rule jit_rel_cache) (simp_all add: cache_find_lookup lookup_frame)

lemma jit_rel_evict: "jit_rel h0 A P st0 s en c \<Longrightarrow> jit_rel h0 A P st0 s (en\<lparr>en_cache := evict_cold (en_cache en)\<rparr>) c"
  by (rule jit_rel_cache) (auto dest: cache_find_evict)

section \<open>Calling a block\<close>

lemma call_code:
  assumes "host_ready st0 h" "agree ctx c" "steps_block h0 A max_instr c ds c1" "ds \<noteq> []"
    and "peek hc 4096 h = code @ rest" "decodes_to code (block_text (ctx_pc c) ds)"
    and "set (addrs hc 4096) \<inter> call_bytes st0 = {}"
  shows "\<exists>ctx1 h1. x86_host fl st0 hc ctx h = (False, ctx1, h1) \<and> agree ctx1 c1 \<and> same_but (call_bytes st0) h h1"
proof -
  let ?p = "xs_reg st0 RDI" let ?h = "store_ctx ?p ctx h" let ?st = "st0\<lparr>xs_host := ?h\<rparr>"
  have wf: "ctx_wf ctx" using assms(2) by (simp add: agree_def)
  have "jit_entry ?p ctx ?st" by (rule x86_host_entry [OF assms(1) wf])
  then have entry: "jit_entry ?p c ?st" using assms(2) by (simp add: jit_entry_def agree_def)
  have "peek hc 4096 ?h = peek hc 4096 h"
    using assms(7) by (intro same_but_peek [OF same_but_store [OF wf]]) (auto simp: call_bytes_def)
  then have code: "peek hc 4096 ?h = code @ rest" using assms(5) by simp
  have len: "length code \<le> 4096" using arg_cong [OF assms(5), of length] by simp
  note b = steps_block_bound [OF assms(3,4)]
  have i: "interp ds MemoryManager_init c h0 = Some (c1, h0)" and s: "(guest_step h0 A ^^ length ds) c c1"
    using assms(3) by (simp_all add: steps_block_def)
  obtain st' where r: "x86_run fl 4096 (peek hc 4096 ?h) ?st = Some st'" "jit_exit ?p c1 ?st st'"
    using block_text_executes [OF assms(6) b(1,2) entry HOL.refl len, where mm = MemoryManager_init and h = h0 and fl = fl and
      rest = rest] i unfolding code by auto
  from x86_host_exit [OF assms(1) wf r] guest_steps_keep [OF s] assms(2)
  show ?thesis by (auto simp: agree_def)
qed

lemma jit_rel_call:
  assumes "jit_rel h0 A P st0 s en c" "steps_block h0 A max_instr c ds c1" "ds \<noteq> []"
    and "entry_ok h0 (s_host (en_sys en)) (en_cache en) (ctx_pc c) (bi_host_code b)" "bi_is_valid b"
  shows "jit_rel h0 A P st0 s (execute_block (x86_host fl st0) (Some b) en) c1"
proof -
  let ?h = "s_host (en_sys en)" let ?tc = "en_cache en" let ?hc = "bi_host_code b"
  note rel = jit_relD [OF assms(1)]
  have collect: "collect_block max_instr (ctx_pc c) MemoryManager_init h0 = Some ds"
    using assms(2) by (simp add: steps_block_def)
  obtain off code rest where e: "?hc = tc_code_pool ?tc + of_nat off" "off + 4096 \<le> unat (tc_code_pool_used ?tc)"
      "peek ?hc 4096 ?h = code @ rest" "decodes_to code (block_text (ctx_pc c) ds)"
    using assms(4) by (auto simp: entry_ok_def collect)
  have used: "unat (tc_code_pool_used ?tc) \<le> unat (tc_code_pool_size ?tc)"
    using rel(4) by (simp add: pool_ready_def word_le_nat_alt)
  have slice: "tc_code_pool ?tc + of_nat k \<noteq> 0 \<and> set (addrs (tc_code_pool ?tc + of_nat k) 4096) \<inter> call_bytes st0 = {}"
    if "k + 4096 \<le> unat (tc_code_pool_used ?tc)" for k
    using pool_slice [OF rel(4), of k 4096] that used by simp
  have "host_ready st0 ?h" using host_ready_same [OF rel(2)] rel(3) by simp
  moreover have "set (addrs ?hc 4096) \<inter> call_bytes st0 = {}" using slice [OF e(2)] e(1) by simp
  ultimately obtain ctx1 h1 where c: "x86_host fl st0 ?hc (en_ctx en) ?h = (False, ctx1, h1)" "agree ctx1 c1"
      "same_but (call_bytes st0) ?h h1"
    using call_code [OF _ rel(1) assms(2,3) e(3,4)] by blast
  have "cache_ok h0 h1 ?tc"
    unfolding cache_ok_def
  proof (intro allI impI)
    fix pc hc sz n assume "cache_find ?tc pc = Some (hc, sz, n)"
    with rel(6) have "entry_ok h0 ?h ?tc pc hc" unfolding cache_ok_def by blast
    then show "entry_ok h0 h1 ?tc pc hc"
      by (rule entry_ok_keep) (simp_all add: same_but_peek [OF c(3)] slice)
  qed
  moreover have "execute_block (x86_host fl st0) (Some b) en = en\<lparr>en_ctx := ctx1, en_sys := (en_sys en)\<lparr>s_host := h1\<rparr>\<rparr>"
    using slice [OF e(2), folded e(1)] assms(5) by (simp add: execute_block_def c(1))
  moreover have "sys_agree P s ((en_sys en)\<lparr>s_host := h1\<rparr>)"
    by (intro sys_agree_host rel(8) same_but_mono [OF c(3)]) (simp add: rel(5) private_bytes_def)
  ultimately show ?thesis using rel c(2) by (simp add: jit_rel_def)
qed

section \<open>Translating a block\<close>

lemma insert_block_frame:
  "tc_code_pool (snd (insert_block pc hc sz n tc)) = tc_code_pool tc"
  "tc_code_pool_size (snd (insert_block pc hc sz n tc)) = tc_code_pool_size tc"
  "tc_code_pool_used (snd (insert_block pc hc sz n tc)) = tc_code_pool_used tc"
  by (simp_all add: insert_block_def Let_def)

lemma cache_find_insert:
  "cache_find (snd (insert_block pc hc sz n tc)) pc' = Some w \<Longrightarrow>
     (if pc' = pc then w = (hc, sz, n) else cache_find tc pc' = Some w)"
  using cache_find_ins [of pc "(hc, sz, n)" tc pc'] cache_find_evict [of tc pc' w]
  by (auto simp: cache_ins_def split: if_splits)

lemma alloc_granted:
  assumes "alloc_host_code 4096 tc = (Some hc, tc')" "pool_ready st0 tc h"
  shows "hc = tc_code_pool tc + of_nat (unat (tc_code_pool_used tc))"
    and "unat (tc_code_pool_used tc') = unat (tc_code_pool_used tc) + 4096"
    and "unat (tc_code_pool_used tc) + 4096 \<le> unat (tc_code_pool_size tc)"
    and "tc' = tc\<lparr>tc_code_pool_used := tc_code_pool_used tc'\<rparr>"
proof -
  have a: "\<not> tc_code_pool_used tc + 4096 > tc_code_pool_size tc" "hc = tc_code_pool tc + tc_code_pool_used tc"
      "tc' = tc\<lparr>tc_code_pool_used := tc_code_pool_used tc + 4096\<rparr>"
    using assms(1) by (auto simp: alloc_host_code_cases split: if_splits)
  have "unat (tc_code_pool_used tc) + 4096 < 2 ^ 64"
    using assms(2) by (auto simp: pool_ready_def word_le_nat_alt)
  then have u: "unat (tc_code_pool_used tc + 4096) = unat (tc_code_pool_used tc) + 4096"
    using unat_add_of_nat [of "tc_code_pool_used tc" 4096] by simp
  with a show "hc = tc_code_pool tc + of_nat (unat (tc_code_pool_used tc))"
    "unat (tc_code_pool_used tc') = unat (tc_code_pool_used tc) + 4096"
    "unat (tc_code_pool_used tc) + 4096 \<le> unat (tc_code_pool_size tc)"
    "tc' = tc\<lparr>tc_code_pool_used := tc_code_pool_used tc'\<rparr>"
    by (simp_all add: word_less_nat_alt not_less)
qed

lemma host_write_poke: "host_write h a bs = Some h' \<Longrightarrow> h' = poke a bs h"
  by (auto simp: host_write_def poke_def split: if_splits)

lemma cache_ok_insert:
  assumes "cache_ok h0 h tc" "pool_ready st0 tc h0" "alloc_host_code 4096 tc = (Some hc, tc')"
    and "same_but (set (addrs hc 4096)) h h'" "tc2 = snd (insert_block pc hc sz n tc')" "entry_ok h0 h' tc2 pc hc"
  shows "cache_ok h0 h' tc2"
  unfolding cache_ok_def
proof (intro allI impI)
  fix pc1 hc1 sz1 n1 assume f: "cache_find tc2 pc1 = Some (hc1, sz1, n1)"
  note a = alloc_granted [OF assms(3,2)]
  show "entry_ok h0 h' tc2 pc1 hc1"
  proof (cases "pc1 = pc")
    case True
    with cache_find_insert [OF f [unfolded assms(5)]] assms(6) show ?thesis by simp
  next
    case False
    with cache_find_insert [OF f [unfolded assms(5)]] cache_find_alloc [of 4096 tc] assms(3)
    have "cache_find tc pc1 = Some (hc1, sz1, n1)" by simp
    with assms(1) have old: "entry_ok h0 h tc pc1 hc1" unfolding cache_ok_def by blast
    have bytes: "peek (tc_code_pool tc + of_nat off) 4096 h' = peek (tc_code_pool tc + of_nat off) 4096 h"
      if "off + 4096 \<le> unat (tc_code_pool_used tc)" for off
      using addrs_disjoint [OF that, of 4096 "tc_code_pool tc"] a(1,3) assms(2)
      by (intro same_but_peek [OF assms(4)]) (simp add: pool_ready_def)
    have "tc_code_pool tc2 = tc_code_pool tc" "unat (tc_code_pool_used tc) \<le> unat (tc_code_pool_used tc2)"
      using a(2) arg_cong [OF a(4), of tc_code_pool] by (simp_all add: assms(5) insert_block_frame)
    from entry_ok_keep [OF old this bytes] show ?thesis .
  qed
qed

lemma jit_rel_translate:
  assumes "jit_rel h0 A P st0 s en c" "steps_block h0 A max_instr c ds c1" "ds \<noteq> []"
    and "alloc_host_code 4096 (en_cache en) = (Some hc, tc)"
  obtains b en' where "translate_block (ctx_pc c) en = Some (Some b, en')" "bi_is_valid b" "jit_rel h0 A P st0 s en' c"
    "entry_ok h0 (s_host (en_sys en')) (en_cache en') (ctx_pc c) (bi_host_code b)"
proof -
  let ?h = "s_host (en_sys en)" let ?tc = "en_cache en" let ?used = "unat (tc_code_pool_used (en_cache en))"
  note rel = jit_relD [OF assms(1)]
  note a = alloc_granted [OF assms(4) rel(4)]
  note slice = pool_slice [OF rel(4) a(3), folded a(1), simplified]
  have collect: "collect_block max_instr (ctx_pc c) mm h' = Some ds" if "same_but A h0 h'" for mm h'
    using assms(2) that by (simp add: steps_block_def)
  have "writable hc 4096 ?h" using slice(2) same_but_perms(1) [OF rel(2)] by simp
  then obtain code h' n where t:
      "translate_block (ctx_pc c) en = Some (Some (translated (ctx_pc c) hc code n), after_translation (ctx_pc c) hc code n tc h' en)"
      "host_write ?h hc code = Some h'" "length code \<le> 4096" "decodes_to code (block_text (ctx_pc c) ds)"
    using translate_block_result [OF collect [OF rel(2)] steps_block_bound(1,3) [OF assms(2,3)] assms(4) slice(1)] by metis
  let ?en = "after_translation (ctx_pc c) hc code n tc h' en" let ?tc' = "en_cache ?en"
  have h': "h' = poke hc code ?h" using host_write_poke [OF t(2)] .
  have same: "same_but (set (addrs hc 4096)) ?h h'"
    unfolding h' using t(3) by (intro same_but_poke addrs_mono)
  have f: "tc_code_pool ?tc' = tc_code_pool ?tc" "tc_code_pool_size ?tc' = tc_code_pool_size ?tc"
      "tc_code_pool_used ?tc' = tc_code_pool_used tc"
    using arg_cong [OF a(4), of tc_code_pool] arg_cong [OF a(4), of tc_code_pool_size]
    by (simp_all add: after_translation_def insert_block_frame)
  have "take (length code) (peek hc 4096 h') = code"
    using peek_take_drop [of 0 "length code" 4096 hc h'] peek_poke_same [of code hc ?h] t(3) by (simp add: h')
  then have code: "peek hc 4096 h' = code @ drop (length code) (peek hc 4096 h')" by (metis append_take_drop_id)
  have new: "entry_ok h0 h' ?tc' (ctx_pc c) hc"
    unfolding entry_ok_def f using a(1,2) assms(3) code t(4) collect [OF same_but_refl]
    by (intro exI [of _ ?used] exI [of _ ds] exI [of _ code] exI [of _ "drop (length code) (peek hc 4096 h')"]) simp
  have "cache_ok h0 h' ?tc'"
    by (rule cache_ok_insert [OF rel(6,4) assms(4) same _ new]) (simp add: after_translation_def)
  moreover have "pool_ready st0 ?tc' h0"
    using rel(4) a(2,3) by (simp add: pool_ready_def pool_bytes_def f word_le_nat_alt)
  moreover have "private_bytes st0 ?tc' = private_bytes st0 ?tc"
    using f by (simp add: private_bytes_def pool_bytes_def)
  moreover have "sys_agree P s (en_sys ?en)"
    using sys_agree_host(2) [OF rel(8) same_but_mono [OF same]] slice(3)
    by (simp add: after_translation_def rel(5) private_bytes_def le_supI2)
  ultimately have "jit_rel h0 A P st0 s ?en c"
    using rel by (simp add: jit_rel_def) (simp add: after_translation_def)
  with that [OF t(1)] new show ?thesis by (simp add: translated_def BlockInfo_init_def after_translation_def)
qed

section \<open>Passes of the run loop\<close>

definition engine_pass :: "host_cpu \<Rightarrow> 'k kernel \<Rightarrow> 'k engine \<Rightarrow> 'k engine \<Rightarrow> bool" where
  "engine_pass cpu K en en' \<longleftrightarrow> running (en_ctx en) \<and> run_body cpu K en = Some (Inr (True, en'))"

lemma passes_reach: "(engine_pass cpu K ^^ k) en en' \<Longrightarrow> engine_reaches cpu K en en'"
proof (induction k arbitrary: en)
  case (Suc k)
  then obtain en1 where 1: "engine_pass cpu K en en1" "(engine_pass cpu K ^^ k) en1 en'" by (meson relpowp_Suc_D2)
  have "engine_step cpu K en en1" using 1(1) unfolding engine_pass_def by (blast intro: engine_step.pass)
  with Suc.IH [OF 1(2)] show ?case by (blast intro: engine_reaches.step)
qed (auto intro: engine_reaches.refl)

lemma run_loop_passes:
  "(engine_pass cpu K ^^ k) en en' \<Longrightarrow> iter + k \<le> max_iter \<Longrightarrow> run_loop cpu K iter en = run_loop cpu K (iter + k) en'"
proof (induction k arbitrary: en iter)
  case (Suc k)
  then obtain en1 where 1: "engine_pass cpu K en en1" "(engine_pass cpu K ^^ k) en1 en'" by (meson relpowp_Suc_D2)
  then have "run_loop cpu K iter en = run_loop cpu K (iter + 1) en1"
    using Suc.prems(2) by (simp add: run_loop.simps [of cpu K iter en] engine_pass_def)
  with Suc.IH [OF 1(2), of "iter + 1"] Suc.prems(2) show ?case by simp
qed simp

lemma translate_block_no_room:
  assumes "collect_block max_instr pc (s_mem (en_sys en)) (s_host (en_sys en)) = Some ds" "jit_block ds" "length ds < 2 ^ 32"
    and "alloc_host_code 4096 (en_cache en) = (None, tc)"
  shows "translate_block pc en = Some (None, en\<lparr>en_cache := tc\<rparr>)"
proof -
  obtain irb where "build ds (of_nat (length ds)) pc IRBlock_init = (True, irb)"
    using build_jit_block [OF assms(2,3)] by blast
  moreover have "ds \<noteq> []" using assms(2) by (simp add: jit_block_def)
  ultimately show ?thesis by (simp add: translate_block_def Let_def assms(1,4))
qed

lemma jit_pass_hit:
  assumes "jit_rel h0 A P st0 s en c" "steps_block h0 A max_instr c ds c1" "ds \<noteq> []"
    and "fst (lookup (ctx_pc c) (en_cache en)) = Some info"
  shows "\<exists>en'. run_body (x86_host fl st0) K en = Some (Inr (True, en')) \<and> jit_rel h0 A P st0 s en' c1"
proof -
  let ?en = "en\<lparr>en_cache := snd (lookup (ctx_pc c) (en_cache en))\<rparr>"
  have pc: "ctx_pc (en_ctx en) = ctx_pc c" using agree_fields(3) [OF jit_relD(1) [OF assms(1)]] .
  have "cache_find (en_cache en) (ctx_pc c) = Some (bi_host_code info, bi_host_code_size info, bi_arm_instr_count info)"
    using lookup_find [of "ctx_pc c" "en_cache en"] assms(4) by simp
  moreover have "bi_is_valid info"
    using assms(4) by (auto simp: lookup_def Let_def split: option.splits if_splits)
  moreover have rel: "jit_rel h0 A P st0 s ?en c" using assms(1) by (rule jit_rel_lookup)
  ultimately have "jit_rel h0 A P st0 s (execute_block (x86_host fl st0) (Some info) ?en) c1"
    by (intro jit_rel_call [OF rel assms(2,3)]) (auto simp: jit_rel_def cache_ok_def cache_find_lookup)
  then show ?thesis using assms(4) pc by (simp add: run_body_def case_prod_beta)
qed

lemma jit_pass_miss:
  assumes "jit_rel h0 A P st0 s en c" "steps_block h0 A max_instr c ds c1" "ds \<noteq> []" "guest_step h0 A c c2"
    and "fst (lookup (ctx_pc c) (en_cache en)) = None"
  shows "\<exists>en'. run_body (x86_host fl st0) K en = Some (Inr (True, en')) \<and> (jit_rel h0 A P st0 s en' c1 \<or> jit_rel h0 A P st0 s en' c2)"
proof -
  let ?h = "s_host (en_sys en)"
  note rel = jit_relD [OF assms(1)]
  then have pc: "ctx_pc (en_ctx en) = ctx_pc c" using agree_fields(3) by blast
  have look: "lookup (ctx_pc c) (en_cache en) = (None, en_cache en)"
    using assms(5) by (auto simp: lookup_def Let_def split: option.splits if_splits)
  obtain raw d where d: "fetches h0 A (ctx_pc c) raw" "\<not> is_svc raw" "decode raw = (True, d)" "supported d"
      "execute_decoded d MemoryManager_init c h0 = Some (c2, h0)"
    using assms(4) by (blast elim: guest_stepE)
  note fetch = fetches_read [OF d(1) rel(2), of "s_mem (en_sys en)"]
  show ?thesis
  proof (cases "alloc_host_code 4096 (en_cache en)")
    case (Pair code tc)
    show ?thesis
    proof (cases code)
      case None
      with Pair have alloc: "alloc_host_code 4096 (en_cache en) = (None, tc)" "tc = evict_cold (en_cache en)"
        by (auto simp: alloc_host_code_cases split: if_splits)
      let ?en = "en\<lparr>en_cache := tc\<rparr>"
      have relt: "jit_rel h0 A P st0 s ?en c" unfolding alloc(2) using assms(1) by (rule jit_rel_evict)
      have "translate_block (ctx_pc c) en = Some (None, ?en)"
        using assms(2) rel(2) steps_block_bound(1,2) [OF assms(2,3)]
        by (intro translate_block_no_room [OF _ _ _ alloc(1)]) (auto simp: steps_block_def)
      moreover obtain ctx2 where x: "execute_decoded d (s_mem (en_sys en)) (en_ctx en) ?h = Some (ctx2, ?h)" "agree ctx2 c2"
        using supported_exec(5) [OF d(4,5) rel(1)] by blast
      ultimately have "run_body (x86_host fl st0) K en = Some (Inr (True, ?en\<lparr>en_ctx := ctx2\<rparr>))"
        by (simp add: run_body_def pc look fetch d(2,3))
      moreover have "jit_rel h0 A P st0 s (?en\<lparr>en_ctx := ctx2\<rparr>) c2" using relt x(2) by (auto simp: jit_rel_def)
      ultimately show ?thesis by blast
    next
      case (Some hc)
      with Pair have "alloc_host_code 4096 (en_cache en) = (Some hc, tc)" by simp
      from jit_rel_translate [OF assms(1,2,3) this] obtain b en' where
          t: "translate_block (ctx_pc c) en = Some (Some b, en')" "bi_is_valid b" "jit_rel h0 A P st0 s en' c"
          "entry_ok h0 (s_host (en_sys en')) (en_cache en') (ctx_pc c) (bi_host_code b)" .
      have "run_body (x86_host fl st0) K en = Some (Inr (True, execute_block (x86_host fl st0) (Some b) en'))"
        by (simp add: run_body_def pc look fetch d(2) t(1))
      with jit_rel_call [OF t(3) assms(2,3) t(4,2)] show ?thesis by blast
    qed
  qed
qed

lemma jit_pass:
  assumes "jit_rel h0 A P st0 s en c" "running c" "(guest_step h0 A ^^ n) c c'" "0 < n" "max_instr \<le> n \<or> at_svc h0 A c'"
  shows "\<exists>m k c1 en'. 0 < m \<and> m \<le> max_instr \<and> n = m + k \<and> (guest_step h0 A ^^ m) c c1 \<and> (guest_step h0 A ^^ k) c1 c' \<and>
    engine_pass (x86_host fl st0) K en en' \<and> jit_rel h0 A P st0 s en' c1 \<and> running c1"
proof -
  have pos: "0 < max_instr" by (simp add: max_instr_def)
  obtain ds c1 k where b: "steps_block h0 A max_instr c ds c1" "n = length ds + k" "(guest_step h0 A ^^ k) c1 c'" "ds \<noteq> []"
    using steps_blockI [OF assms(3,5)] assms(4) pos by metis
  have s1: "(guest_step h0 A ^^ length ds) c c1" "length ds \<le> max_instr"
    using b(1) length_collect_block [of max_instr "ctx_pc c" MemoryManager_init h0 ds] by (simp_all add: steps_block_def)
  obtain n' where n': "n = Suc n'" using assms(4) by (cases n) auto
  then obtain c2 where c2: "guest_step h0 A c c2" "(guest_step h0 A ^^ n') c2 c'"
    using assms(3) by (meson relpowp_Suc_D2)
  have s2: "(guest_step h0 A ^^ 1) c c2" using c2(1) by (simp add: eq_OO)
  have run: "running c" "running (en_ctx en)"
    using assms(2) agree_fields(6) [OF jit_relD(1) [OF assms(1)]] by simp_all
  have keeps: "(guest_step h0 A ^^ m) c c3 \<Longrightarrow> running c3" for m c3
    using guest_steps_keep [of m h0 A c c3] assms(2) by (simp add: running_def ctx_control_def)
  show ?thesis
  proof (cases "fst (lookup (ctx_pc c) (en_cache en))")
    case (Some info)
    from jit_pass_hit [OF assms(1) b(1,4) Some] s1 b run keeps [OF s1(1)] show ?thesis
      unfolding engine_pass_def by (metis length_greater_0_conv)
  next
    case None
    from jit_pass_miss [OF assms(1) b(1,4) c2(1) None, of fl K] obtain en' where
        e: "run_body (x86_host fl st0) K en = Some (Inr (True, en'))" "jit_rel h0 A P st0 s en' c1 \<or> jit_rel h0 A P st0 s en' c2" by blast
    from e(2) show ?thesis
    proof
      assume "jit_rel h0 A P st0 s en' c1"
      with e(1) s1 b run keeps [OF s1(1)] show ?thesis unfolding engine_pass_def by (metis length_greater_0_conv)
    next
      assume "jit_rel h0 A P st0 s en' c2"
      with e(1) s2 c2(2) run keeps [OF s2] n' show ?thesis
        unfolding engine_pass_def by (intro exI [of _ 1] exI [of _ n'] exI [of _ c2] exI [of _ en']) (simp add: max_instr_def)
    qed
  qed
qed

interpretation jit: block_simulation "\<lambda>en c. jit_rel h0 A P st0 s en c \<and> running c" "engine_pass (x86_host fl st0) K"
  "guest_step h0 A" "at_svc h0 A" max_instr for h0 A P st0 s fl K
  by unfold_locales (metis jit_pass)

section \<open>Complete runs\<close>

text \<open>An engine about to run: no block translated yet, pool, context and stack in place.\<close>

definition jit_start :: "x86_state \<Rightarrow> 'k engine \<Rightarrow> bool" where
  "jit_start st0 en \<longleftrightarrow> ctx_wf (en_ctx en) \<and> running (en_ctx en) \<and> tc_block_map (en_cache en) = [] \<and>
     host_ready st0 (s_host (en_sys en)) \<and> pool_ready st0 (en_cache en) (s_host (en_sys en))"

definition start_at :: "u64 \<Rightarrow> 'k engine \<Rightarrow> 'k engine" where
  "start_at pc en = en\<lparr>en_ctx := (en_ctx en)\<lparr>ctx_pc := pc\<rparr>\<rparr>"

lemma run_start_at: "run cpu K pc en = run_loop cpu K 0 (start_at pc en)"
  by (simp add: run_def start_at_def)

lemma jit_start_rel:
  assumes "jit_start st0 en" "h0 = s_host (en_sys en)" "P = private_bytes st0 (en_cache en)" "P \<subseteq> A"
  shows "jit_rel h0 A P st0 (en_sys en) (start_at pc en) ((en_ctx en)\<lparr>ctx_pc := pc\<rparr>) \<and> running ((en_ctx en)\<lparr>ctx_pc := pc\<rparr>)"
  using assms by (simp add: jit_start_def jit_rel_def start_at_def agree_refl cache_ok_def cache_find_def running_def)

text \<open>At a system call nothing is cached, so the pass calls the handler.\<close>

lemma svc_pass:
  assumes "jit_rel h0 A P st0 s en c" "at_svc h0 A c"
  shows "run_body cpu K en = Option.bind (handle_syscall K (next_pc (en_ctx en)) (en_sys en))
    (\<lambda>(r, ctx, s). Some (Inr (True, en\<lparr>en_ctx := finish_syscall r ctx, en_sys := s\<rparr>)))"
proof -
  obtain raw where raw: "fetches h0 A (ctx_pc c) raw" "is_svc raw" using assms(2) by (auto simp: at_svc_def)
  note rel = jit_relD(1,2,6) [OF assms(1)]
  have pc: "ctx_pc (en_ctx en) = ctx_pc c" using agree_fields(3) [OF rel(1)] .
  have "collect_block max_instr (ctx_pc c) MemoryManager_init h0 = Some []"
    using fetches_read [OF raw(1) same_but_refl] raw(2) by (simp add: max_instr_def eval_nat_numeral)
  then have "cache_find (en_cache en) (ctx_pc c) = None"
    using rel(3) unfolding cache_ok_def entry_ok_def by (metis not_Some_eq option.inject prod_cases3)
  then have "fst (lookup (ctx_pc c) (en_cache en)) = None" using lookup_find [of "ctx_pc c" "en_cache en"] by simp
  then have "lookup (ctx_pc c) (en_cache en) = (None, en_cache en)"
    by (auto simp: lookup_def Let_def split: option.splits if_splits)
  with fetches_read [OF raw(1) rel(2)] raw(2) show ?thesis by (simp add: run_body_def pc)
qed

subsection \<open>Concrete guests\<close>

text \<open>MOVZ x8, #93; MOVZ x0, #7; SVC #0 at 0x1000, and the branch to itself at 0x2000; the pool at
  0x200000.\<close>

definition guest_words :: "u8 list" where
  "guest_words = le_bytes 4 (0xD2800BA8 :: u32) @ le_bytes 4 (0xD28000E0 :: u32) @ le_bytes 4 (0xD4000001 :: u32)"

definition guest_host_mem :: host where
  "guest_host_mem = poke 0x2000 (le_bytes 4 (0x14000000 :: u32)) (poke 0x1000 guest_words \<lparr>h_byte = (\<lambda>_. 0), h_prot = (\<lambda>_. Some 7)\<rparr>)"

definition guest_engine :: "unit engine" where
  "guest_engine = \<lparr>en_ctx = CPUContext_init, en_sys = \<lparr>s_mem = MemoryManager_init, s_host = guest_host_mem, s_k = ()\<rparr>,
     en_cache = (TranslationCache_init 8)\<lparr>tc_code_pool := 0x200000\<rparr>\<rparr>"

abbreviation guest_private :: "u64 set" where
  "guest_private \<equiv> private_bytes demo_x86 (en_cache guest_engine)"

lemma guest_geometry:
  "xs_reg demo_x86 RDI = 0x10000" "xs_reg demo_x86 RSP = 0x8000"
  "tc_code_pool (en_cache guest_engine) = 0x200000" "unat (tc_code_pool_size (en_cache guest_engine)) = 0x4000000"
  "tc_code_pool_used (en_cache guest_engine) = 0" "tc_block_map (en_cache guest_engine) = []"
  by (simp_all add: demo_x86_def reg_defs guest_engine_def TranslationCache_init_def DEFAULT_CODE_POOL_SIZE_def)

lemma guest_apart:
  "unat a + n \<le> 0x4000 \<Longrightarrow> set (addrs a n) \<inter> guest_private = {}"
  using disjoint_rangesI [of a n "0x7FF8" 8] disjoint_rangesI [of a n "0x10000" 832] disjoint_rangesI [of a n "0x200000" "0x4000000"]
  by (auto simp: disjoint_ranges_def private_bytes_def call_bytes_def pool_bytes_def guest_geometry)

lemma guest_writable: "writable a n guest_host_mem" "can_read guest_host_mem a"
  by (simp_all add: writable_def list_all_iff can_write_def can_read_def guest_host_mem_def PROT_WRITE_def)

lemma guest_start: "jit_start demo_x86 guest_engine"
proof -
  have "disjoint_ranges 0x7FF8 8 0x10000 832" "disjoint_ranges 0x7FF8 8 0x200000 0x4000000"
      "disjoint_ranges 0x10000 832 0x200000 0x4000000"
    by (rule disjoint_rangesI; simp)+
  then have "host_ready demo_x86 guest_host_mem" "pool_ready demo_x86 (en_cache guest_engine) guest_host_mem"
    by (auto simp: host_ready_def pool_ready_def guest_geometry guest_writable pool_bytes_def call_bytes_def disjoint_ranges_def)
  moreover have "ctx_wf CPUContext_init" "running CPUContext_init"
    by (simp_all add: ctx_wf_def CPUContext_init_def running_def)
  ultimately show ?thesis by (simp add: jit_start_def guest_geometry) (simp add: guest_engine_def)
qed

lemma guest_fetches:
  "fetches guest_host_mem guest_private 0x1000 0xD2800BA8" "fetches guest_host_mem guest_private 0x1004 0xD28000E0"
  "fetches guest_host_mem guest_private 0x1008 0xD4000001" "fetches guest_host_mem guest_private 0x2000 0x14000000"
proof -
  have r: "host_read guest_host_mem a n = Some (peek a n guest_host_mem)" for a n
    by (simp add: host_read_def peek_def list_all_iff guest_writable)
  let ?h = "\<lparr>h_byte = (\<lambda>_. 0), h_prot = (\<lambda>_. Some 7)\<rparr> :: host"
  have "disjoint_ranges 0x1000 12 0x2000 4" by (rule disjoint_rangesI; simp)
  then have "peek 0x1000 12 guest_host_mem = peek 0x1000 12 (poke 0x1000 guest_words ?h)"
    unfolding guest_host_mem_def by (intro same_but_peek [OF same_but_poke [OF order_refl]]) (simp add: disjoint_ranges_def)
  then have w: "peek 0x1000 12 guest_host_mem = guest_words"
    using peek_poke_same [of guest_words "0x1000" ?h] by (simp add: guest_words_def)
  have p: "peek (0x1000 + of_nat k) n guest_host_mem = take n (drop k guest_words)" if "k + n \<le> 12" for k n
    using peek_take_drop [OF that, of "0x1000" guest_host_mem] w by simp
  have "peek 0x2000 4 guest_host_mem = le_bytes 4 (0x14000000 :: u32)"
    using peek_poke_same [of "le_bytes 4 (0x14000000 :: u32)" "0x2000"] by (simp add: guest_host_mem_def)
  with p [of 0 4] p [of 4 4] p [of 8 4] guest_apart [of "0x1000" 4] guest_apart [of "0x1004" 4] guest_apart [of "0x1008" 4]
    guest_apart [of "0x2000" 4]
  show "fetches guest_host_mem guest_private 0x1000 0xD2800BA8" "fetches guest_host_mem guest_private 0x1004 0xD28000E0"
    "fetches guest_host_mem guest_private 0x1008 0xD4000001" "fetches guest_host_mem guest_private 0x2000 0x14000000"
    by (simp_all add: fetches_def r guest_words_def le_word_le_bytes)
qed

definition movz_of :: "u32 \<Rightarrow> u8 \<Rightarrow> u64 \<Rightarrow> DecodedInstr" where
  "movz_of raw r v = DecodedInstr_zero\<lparr>d_raw := raw, d_size := 1, d_category := MOVE, d_opcode := 0x22,
     d_rd := r, d_imm := v\<rparr>"

definition self_branch :: DecodedInstr where
  "self_branch = DecodedInstr_zero\<lparr>d_raw := 0x14000000, d_category := BRANCH, d_opcode := 0x50\<rparr>"

lemma guest_decode:
  "decode 0xD2800BA8 = (True, movz_of 0xD2800BA8 8 93)" "decode 0xD28000E0 = (True, movz_of 0xD28000E0 0 7)"
  "decode 0x14000000 = (True, self_branch)"
  by code_simp+

lemma guest_supported: "r < 31 \<Longrightarrow> supported (movz_of raw r v)" "supported self_branch"
  by (simp_all add: supported_def straight_def forward_branch_def movz_of_def self_branch_def ends_block_def DecodedInstr_zero_def)

lemma guest_runs:
  "(guest_step guest_host_mem guest_private ^^ 2) (CPUContext_init\<lparr>ctx_pc := 0x1000\<rparr>)
     (CPUContext_init\<lparr>ctx_x := (replicate 31 0)[8 := 93, 0 := 7], ctx_pc := 0x1008\<rparr>)"
  "at_svc guest_host_mem guest_private (CPUContext_init\<lparr>ctx_x := (replicate 31 0)[8 := 93, 0 := 7], ctx_pc := 0x1008\<rparr>)"
proof -
  let ?c1 = "CPUContext_init\<lparr>ctx_x := (replicate 31 0)[8 := 93], ctx_pc := 0x1004\<rparr>"
  let ?c2 = "CPUContext_init\<lparr>ctx_x := (replicate 31 0)[8 := 93, 0 := 7], ctx_pc := 0x1008\<rparr>"
  have x: "execute_decoded (movz_of raw r v) mm c h = Some (next_pc (c\<lparr>ctx_x := (ctx_x c)[unat r := v]\<rparr>), h)"
    if "r < 31" for raw r v mm c h
    using execute_decoded_straight(3) [of "movz_of raw r v"] that by (simp add: movz_of_def)
  have "guest_step guest_host_mem guest_private (CPUContext_init\<lparr>ctx_pc := 0x1000\<rparr>) ?c1"
    by (rule guest_step.instr [where raw = "0xD2800BA8" and d = "movz_of 0xD2800BA8 8 93"])
      (simp_all add: guest_fetches guest_decode guest_supported is_svc_def x next_pc_def CPUContext_init_def)
  moreover have "guest_step guest_host_mem guest_private ?c1 ?c2"
    by (rule guest_step.instr [where raw = "0xD28000E0" and d = "movz_of 0xD28000E0 0 7"])
      (simp_all add: guest_fetches guest_decode guest_supported is_svc_def x next_pc_def CPUContext_init_def)
  ultimately show "(guest_step guest_host_mem guest_private ^^ 2) (CPUContext_init\<lparr>ctx_pc := 0x1000\<rparr>) ?c2"
    by (simp add: numeral_2_eq_2 eq_OO relcompp_apply) blast
  show "at_svc guest_host_mem guest_private ?c2"
    using guest_fetches(3) by (auto simp: at_svc_def is_svc_def)
qed

lemma guest_spins: "(guest_step guest_host_mem guest_private ^^ n) (CPUContext_init\<lparr>ctx_pc := 0x2000\<rparr>) (CPUContext_init\<lparr>ctx_pc := 0x2000\<rparr>)"
proof (induction n)
  case (Suc n)
  have "execute_decoded self_branch mm c h = Some (c, h)" for mm c h
    using execute_decoded_straight(7) [of self_branch] by (simp add: self_branch_def branch_by_def DecodedInstr_zero_def)
  then have "guest_step guest_host_mem guest_private (CPUContext_init\<lparr>ctx_pc := 0x2000\<rparr>) (CPUContext_init\<lparr>ctx_pc := 0x2000\<rparr>)"
    by (intro guest_step.instr [where raw = "0x14000000" and d = self_branch])
      (simp_all add: guest_fetches guest_decode guest_supported is_svc_def)
  with Suc show ?case by (rule relpowp_Suc_I)
qed simp

section \<open>Properties\<close>

text \<open>C2: The engine refines the interpreter over whole stretches of guest code.  If
  fetching, decoding and interpreting one instruction at a time leads in \<open>n\<close> steps from the start
  to a system call, then the passes of the run loop, executing translated code on the reference
  processor, lead to the same registers, stack pointer, program counter and link register, in at
  most \<open>n\<close> passes, and memory outside the translator's own bytes is untouched.  There is no bound
  on the number of blocks: a full cache evicts and an exhausted pool falls back to the
  interpreter.\<close>

theorem passes_refine_interpreter:
  assumes "jit_start st0 en" and "h0 = s_host (en_sys en)" and "A = private_bytes st0 (en_cache en)"
    and "(guest_step h0 A ^^ n) ((en_ctx en)\<lparr>ctx_pc := pc\<rparr>) c" and "at_svc h0 A c"
  shows "\<exists>k en'. k \<le> n \<and> n \<le> max_instr * k \<and> (engine_pass (x86_host fl st0) K ^^ k) (start_at pc en) en' \<and>
    int_words (en_ctx en') = int_words c \<and> same_but A h0 (s_host (en_sys en'))"
proof -
  obtain k en' where k: "k \<le> n" "n \<le> max_instr * k" "(engine_pass (x86_host fl st0) K ^^ k) (start_at pc en) en'"
      "jit_rel h0 A A st0 (en_sys en) en' c"
    using jit.reaches_stop [OF jit_start_rel [OF assms(1-3) order_refl] assms(4,5), of fl K] by blast
  with jit_relD(1,2) [OF k(4)] show ?thesis by (auto simp: agree_def)
qed

theorem passes_refine_interpreter_witness:
  "\<exists>k en'. k \<le> 2 \<and> 2 \<le> max_instr * k \<and>
     (engine_pass (x86_host (\<lambda>_ _. 2) demo_x86) demo_kernel ^^ k) (start_at 0x1000 guest_engine) en' \<and>
     ctx_x (en_ctx en') ! 0 = 7 \<and> ctx_x (en_ctx en') ! 8 = 93 \<and> ctx_pc (en_ctx en') = 0x1008"
proof -
  let ?c = "CPUContext_init\<lparr>ctx_x := (replicate 31 0)[8 := 93, 0 := 7], ctx_pc := 0x1008\<rparr>"
  obtain k en' where k: "k \<le> 2" "2 \<le> max_instr * k"
      "(engine_pass (x86_host (\<lambda>_ _. 2) demo_x86) demo_kernel ^^ k) (start_at 0x1000 guest_engine) en'"
      "int_words (en_ctx en') = int_words ?c"
    using passes_refine_interpreter [OF guest_start _ HOL.refl, of guest_host_mem 2 "0x1000" ?c "\<lambda>_ _. 2" demo_kernel] guest_runs
    by (auto simp: guest_engine_def)
  from arg_cong [OF k(4), of length] have n: "length (ctx_x (en_ctx en')) = 31" by (simp add: int_words_def CPUContext_init_def)
  have "int_words (en_ctx en') ! 0 = 7" "int_words (en_ctx en') ! 8 = 93" "int_words (en_ctx en') ! 32 = 0x1008"
    unfolding k(4) by (simp_all add: int_words_def CPUContext_init_def nth_append)
  with k n show ?thesis by (intro exI [of _ k] exI [of _ en']) (simp add: int_words_def nth_append)
qed

end
