(* ===== verification/Jit_Calls.thy ===== *)
theory Jit_Calls
  imports Jit_Run
begin

text \<open>
  Complete runs: the translated program with its system calls.  The reference (\<open>prog_step\<close>) steps
  through instructions by a relation on the registers, that of the interpreter or that of the
  architecture, and answers a system call by the handler on its own memory and kernel.  The
  simulation of \<open>Jit_Run\<close> is lifted to it by a second interpretation of \<open>block_simulation\<close>.
\<close>

section \<open>The reference program\<close>

text \<open>The calls whose effect does not depend on the bytes \<open>P\<close> of the translator and does not reach
  the code: \<open>write\<close> from outside \<open>P\<close>, \<open>read\<close> of at most the requested length into bytes of \<open>A\<close> outside \<open>P\<close>,
  \<open>gettid\<close>, \<open>brk\<close>, and numbers outside the table.\<close>

definition local_call :: "u64 set \<Rightarrow> u64 set \<Rightarrow> 'k kernel \<Rightarrow> CPUContext \<Rightarrow> 'k sys \<Rightarrow> bool" where
  "local_call A P K c s \<longleftrightarrow>
     (let nr = ctx_x c ! 8; buf = set (addrs (ctx_x c ! 1) (unat (ctx_x c ! 2)))
      in nr = 64 \<and> buf \<inter> P = {} \<or>
         nr = 63 \<and> buf \<subseteq> A - P \<and> (\<forall>data k. k_read K (as_int (ctx_x c ! 0)) (ctx_x c ! 2) (s_k s) = (Inr data, k) \<longrightarrow>
           length data \<le> unat (ctx_x c ! 2)) \<or>
         nr = 178 \<or> nr = 214 \<or> sint (as_int nr) \<notin> fst ` set syscall_table)"

inductive prog_step :: "(CPUContext \<Rightarrow> CPUContext \<Rightarrow> bool) \<Rightarrow> host \<Rightarrow> u64 set \<Rightarrow> u64 set \<Rightarrow> 'k kernel \<Rightarrow>
    CPUContext \<times> 'k sys \<Rightarrow> CPUContext \<times> 'k sys \<Rightarrow> bool" for R h A P K where
  instr: "R c c' \<Longrightarrow> prog_step R h A P K (c, s) (c', s)"
| call: "at_svc h A c \<Longrightarrow> local_call A P K c s \<Longrightarrow> handle_syscall K (next_pc c) s = Some (r, c', s') \<Longrightarrow>
    prog_step R h A P K (c, s) (finish_syscall r c', s')"

inductive_cases prog_stepE: "prog_step R h A P K a b"

lemma prog_steps_mono:
  assumes "\<And>c c'. R c c' \<Longrightarrow> R' c c'" "(prog_step R h A P K ^^ n) a b"
  shows "(prog_step R' h A P K ^^ n) a b"
proof -
  have "prog_step R' h A P K x y" if "prog_step R h A P K x y" for x y
    using that by (cases rule: prog_step.cases) (auto intro: prog_step.intros assms(1))
  then show ?thesis using assms(2) by (rule relpowp_mono)
qed

lemma prog_steps_instr: "(R ^^ n) c c' \<Longrightarrow> (prog_step R h A P K ^^ n) (c, s) (c', s)"
proof (induction n arbitrary: c')
  case (Suc n)
  then show ?case by (auto intro: prog_step.instr relcomppI)
qed simp

text \<open>A sequence of steps begins with instructions, up to its end or to the first call.\<close>

lemma prog_steps_split:
  assumes "(prog_step R h A P K ^^ n) (c, s) b"
  obtains (instrs) c1 where "(R ^^ n) c c1" "b = (c1, s)"
    | (call) j c1 x m where "(R ^^ j) c c1" "n = j + Suc m" "at_svc h A c1" "local_call A P K c1 s"
        "prog_step R h A P K (c1, s) x" "(prog_step R h A P K ^^ m) x b"
        "\<exists>r c' s'. handle_syscall K (next_pc c1) s = Some (r, c', s') \<and> x = (finish_syscall r c', s')"
  using assms
proof (induction n arbitrary: c thesis)
  case 0
  then show ?case by (auto intro: 0(1) [of c])
next
  case (Suc n)
  from Suc.prems(3) obtain x where x: "prog_step R h A P K (c, s) x" "(prog_step R h A P K ^^ n) x b"
    by (meson relpowp_Suc_D2)
  from x(1) show ?case
  proof (cases rule: prog_step.cases)
    case (instr c1)
    with x(2) have "(prog_step R h A P K ^^ n) (c1, s) b" by simp
    from Suc.IH [OF _ _ this] instr(2) show ?thesis
      using Suc.prems(1,2) relpowp_Suc_I2 [of R c c1] by (metis add_Suc)
  next
    case (call r c' s')
    with x Suc.prems(2) [of 0 c n x] show ?thesis by auto
  qed
qed

section \<open>A call in the engine and in the reference\<close>

lemma upd_all_cong: "f x = g x \<Longrightarrow> upd_all xs bs f x = upd_all xs bs g x"
proof (induction xs arbitrary: bs f g)
  case (Cons a xs)
  show ?case
  proof (cases bs)
    case Cons': (Cons b bs')
    have "(f(a := b)) x = (g(a := b)) x" using Cons.prems by simp
    then show ?thesis unfolding Cons' upd_all.simps by (rule Cons.IH)
  qed (use Cons.prems in simp)
qed simp

lemma same_but_poke_both: "same_but P h h' \<Longrightarrow> same_but P (poke a bs h) (poke a bs h')"
  by (auto simp: same_but_def poke_def intro: upd_all_cong)

lemma host_write_same:
  assumes "same_but P h h'" "host_write h a bs = Some h1"
  shows "host_write h' a bs = Some (poke a bs h')" "same_but P h1 (poke a bs h')"
proof -
  have "list_all (can_write h) (addrs a (length bs))" using assms(2) by (auto simp: host_write_def split: if_splits)
  then have "list_all (can_write h') (addrs a (length bs))"
    using assms(1) by (simp add: same_but_def can_write_def list_all_iff)
  then show "host_write h' a bs = Some (poke a bs h')" by (simp add: host_write_def poke_def)
  show "same_but P h1 (poke a bs h')" using same_but_poke_both [OF assms(1)] host_write_poke [OF assms(2)] by simp
qed

lemma execute_local:
  "xr ctx 8 = 178 \<Longrightarrow> execute K ctx s = handle_gettid K ctx s"
  "xr ctx 8 = 214 \<Longrightarrow> execute K ctx s = handle_brk K ctx s"
  by (simp_all add: execute_def translate_syscall_nr_def syscall_table_def as_int_def)

text \<open>What the handlers read: the argument registers, the regions, the kernel and bytes outside \<open>P\<close>.\<close>

lemma local_call_execute:
  assumes "ctx_x d = ctx_x c" "sys_agree P s t" "local_call A P K c s" "execute K c s = Some (r, c', s')"
  shows "c' = c \<and> (\<exists>t'. execute K d t = Some (r, d, t') \<and> sys_agree P s' t' \<and> same_but (A - P) (s_host s) (s_host s') \<and>
    same_but (A - P) (s_host t) (s_host t'))"
proof -
  let ?x = "\<lambda>i. ctx_x c ! i"
  have x: "xr d i = ?x i" "xr c i = ?x i" for i by (simp_all add: xr_def assms(1))
  have ag: "same_but P (s_host s) (s_host t)" "s_k t = s_k s"
      "(s_mem t)\<lparr>mm_translated_pages := []\<rparr> = (s_mem s)\<lparr>mm_translated_pages := []\<rparr>"
    using assms(2) by (simp_all add: sys_agree_def)
  have mm: "mm_regions (s_mem t) = mm_regions (s_mem s)" "mm_brk (s_mem t) = mm_brk (s_mem s)"
      "mm_mmap_base (s_mem t) = mm_mmap_base (s_mem s)"
    using arg_cong [OF ag(3), of mm_regions] arg_cong [OF ag(3), of mm_brk] arg_cong [OF ag(3), of mm_mmap_base] by simp_all
  have perms: "check_perms (s_mem t) = check_perms (s_mem s)" by (simp add: check_perms_def mm(1) fun_eq_iff)
  from assms(3) consider (wr) "?x 8 = 64" "set (addrs (?x 1) (unat (?x 2))) \<inter> P = {}"
    | (rd) "?x 8 = 63" "set (addrs (?x 1) (unat (?x 2))) \<subseteq> A - P"
        "\<And>data k. k_read K (as_int (?x 0)) (?x 2) (s_k s) = (Inr data, k) \<Longrightarrow> length data \<le> unat (?x 2)"
    | (tid) "?x 8 = 178" | (brk) "?x 8 = 214" | (other) "sint (as_int (?x 8)) \<notin> fst ` set syscall_table"
    unfolding local_call_def Let_def by blast
  then show ?thesis
  proof cases
    case wr
    have "host_read (s_host t) (?x 1) (unat (?x 2)) = host_read (s_host s) (?x 1) (unat (?x 2))"
      using same_but_read [OF ag(1) wr(2)] .
    then show ?thesis using assms(2,4) wr(1)
      by (auto simp: execute_dispatch x handle_write_def read_bytes_def perms ag(2) Let_def sys_agree_def
          split: if_splits prod.splits Option.bind_splits option.splits)
  next
    case rd
    show ?thesis
    proof (cases "?x 2 > 4096 \<and> \<not> k_malloc K (?x 2)")
      case True
      then show ?thesis using assms(2,4) rd(1) by (auto simp: execute_dispatch x handle_read_def Let_def)
    next
      case False
      obtain w k where k: "k_read K (as_int (?x 0)) (?x 2) (s_k s) = (w, k)" by (cases rule: prod.exhaust)
      show ?thesis
      proof (cases "\<exists>data. w = Inr data \<and> data \<noteq> [] \<and> check_perms (s_mem s) (?x 1) (of_nat (length data)) PROT_WRITE")
        case True
        then obtain data where data: "w = Inr data" "data \<noteq> []" "check_perms (s_mem s) (?x 1) (of_nat (length data)) PROT_WRITE"
          by blast
        then obtain h where h: "host_write (s_host s) (?x 1) data = Some h" "r = of_nat (length data)" "c' = c"
            "s' = s\<lparr>s_k := k, s_host := h\<rparr>"
          using assms(4) rd(1) False k
          by (auto simp: execute_dispatch x handle_read_def write_bytes_def Let_def split: Option.bind_splits)
        have sub: "set (addrs (?x 1) (length data)) \<subseteq> A - P"
          using rd(2) addrs_mono [OF rd(3) [OF k [unfolded data(1)]]] by blast
        note h' = host_write_same [OF ag(1) h(1)]
        have "execute K d t = Some (r, d, t\<lparr>s_k := k, s_host := poke (?x 1) data (s_host t)\<rparr>)"
          using rd(1) False k data h'(1) h(2)
          by (auto simp: execute_dispatch x handle_read_def write_bytes_def Let_def perms ag(2))
        moreover have "sys_agree P s' (t\<lparr>s_k := k, s_host := poke (?x 1) data (s_host t)\<rparr>)"
          using h'(2) ag(3) h(4) by (simp add: sys_agree_def)
        ultimately show ?thesis
          using h(3,4) same_but_poke [OF sub, of "s_host s"] same_but_poke [OF sub, of "s_host t"] host_write_poke [OF h(1)]
          by auto
      next
        case no: False
        with assms(2,4) rd(1) False k show ?thesis
          by (cases w) (auto simp: execute_dispatch x handle_read_def write_bytes_def Let_def perms ag(2) sys_agree_def)
      qed
    qed
  next
    case tid
    with assms(2,4) show ?thesis by (auto simp: execute_local x handle_gettid_def ag(2))
  next
    case brk
    have "(s_mem t)\<lparr>mm_brk := ?x 0, mm_translated_pages := []\<rparr> = (s_mem s)\<lparr>mm_brk := ?x 0, mm_translated_pages := []\<rparr>"
      using arg_cong [OF ag(3), of "\<lambda>m. m\<lparr>mm_brk := ?x 0\<rparr>"] by (cases "s_mem t"; cases "s_mem s") simp
    with brk assms(2,4) ag show ?thesis
      by (auto simp: execute_local x handle_brk_def get_brk_def set_brk_def mm sys_agree_def Let_def split: if_splits)
  next
    case other
    with assms(2,4) execute_unknown [of d K t] execute_unknown [of c K s] show ?thesis by (simp add: x)
  qed
qed

section \<open>Passes that answer a call\<close>

lemma finish_next_pc: "finish_syscall r (next_pc c) = c\<lparr>ctx_x := (ctx_x c)[0 := scast r], ctx_pc := ctx_pc c + 4\<rparr>"
  by (cases c) (simp add: finish_syscall_def next_pc_def)

lemma agree_finish:
  assumes "agree d c"
  shows "agree (finish_syscall r (next_pc d)) (finish_syscall r (next_pc c))"
proof -
  have "length ((ctx_x c)[0 := scast r]) = 31" using assms by (simp add: agree_def ctx_wf_def)
  from agree_update [OF assms this] show ?thesis using agree_fields(1,3) [OF assms] by (simp add: finish_next_pc)
qed

lemma jit_rel_sys:
  assumes "jit_rel h0 A P st0 s en c" "agree d c'" "sys_agree P s' t'"
    and "same_but (A - P) (s_host s) (s_host s')" "same_but (A - P) (s_host (en_sys en)) (s_host t')"
  shows "jit_rel h0 A P st0 s' (en\<lparr>en_ctx := d, en_sys := t'\<rparr>) c'"
proof -
  let ?tc = "en_cache en"
  note rel = jit_relD [OF assms(1)]
  have "same_but A h0 (s_host s')" using same_but_trans [OF rel(7)] same_but_mono [OF assms(4)] by blast
  moreover have "cache_ok h0 (s_host t') ?tc"
    unfolding cache_ok_def
  proof (intro allI impI)
    fix pc hc sz n assume "cache_find ?tc pc = Some (hc, sz, n)"
    with rel(6) have old: "entry_ok h0 (s_host (en_sys en)) ?tc pc hc" unfolding cache_ok_def by blast
    have used: "unat (tc_code_pool_used ?tc) \<le> unat (tc_code_pool_size ?tc)"
      using rel(4) by (simp add: pool_ready_def word_le_nat_alt)
    have "peek (tc_code_pool ?tc + of_nat off) 4096 (s_host t') = peek (tc_code_pool ?tc + of_nat off) 4096 (s_host (en_sys en))"
      if "off + 4096 \<le> unat (tc_code_pool_used ?tc)" for off
      using pool_slice(3) [OF rel(4), of off 4096] that used rel(5)
      by (intro same_but_peek [OF assms(5)]) (auto simp: private_bytes_def)
    then show "entry_ok h0 (s_host t') ?tc pc hc" by (rule entry_ok_keep [OF old HOL.refl order_refl])
  qed
  ultimately show ?thesis using rel assms(2,3) by (simp add: jit_rel_def)
qed

lemma call_pass:
  assumes "jit_rel h0 A P st0 s en c" "running c" "at_svc h0 A c" "local_call A P K c s"
    and "handle_syscall K (next_pc c) s = Some (r, c', s')"
  shows "\<exists>en'. engine_pass cpu K en en' \<and> jit_rel h0 A P st0 s' en' (finish_syscall r c') \<and> running (finish_syscall r c')"
proof -
  note rel = jit_relD [OF assms(1)]
  obtain r0 where r0: "execute K (next_pc c) s = Some (r0, c', s')" "r = ucast r0"
    using assms(5) by (auto simp: handle_syscall_def)
  have x: "ctx_x (next_pc (en_ctx en)) = ctx_x (next_pc c)" using agree_fields(1) [OF rel(1)] by (simp add: next_pc_def)
  have "local_call A P K (next_pc c) s" using assms(4) by (simp add: local_call_def next_pc_def)
  from local_call_execute [OF x rel(8) this r0(1)] obtain t' where t': "c' = next_pc c"
      "execute K (next_pc (en_ctx en)) (en_sys en) = Some (r0, next_pc (en_ctx en), t')" "sys_agree P s' t'"
      "same_but (A - P) (s_host s) (s_host s')" "same_but (A - P) (s_host (en_sys en)) (s_host t')" by blast
  let ?en = "en\<lparr>en_ctx := finish_syscall r (next_pc (en_ctx en)), en_sys := t'\<rparr>"
  have "run_body cpu K en = Some (Inr (True, ?en))"
    using t'(2) by (simp add: svc_pass [OF assms(1,3)] handle_syscall_def r0(2))
  moreover have "jit_rel h0 A P st0 s' ?en (finish_syscall r c')"
    unfolding t'(1) using jit_rel_sys [OF assms(1) agree_finish [OF rel(1)] t'(3-5)] .
  moreover have "running (en_ctx en)" "running (finish_syscall r c')"
    using assms(2) agree_fields(6) [OF rel(1)] by (simp_all add: t'(1) finish_syscall_def next_pc_def running_def)
  ultimately show ?thesis unfolding engine_pass_def by blast
qed

lemma exit_pass:
  assumes "jit_rel h0 A P st0 s en c" "at_svc h0 A c" "ctx_x c ! 8 \<in> {93, 94}"
  shows "\<exists>en'. run_body cpu K en = Some (Inr (True, en')) \<and> \<not> running (en_ctx en') \<and>
    ctx_exit_status (en_ctx en') = as_int (ctx_x c ! 0) \<and> en_sys en' = en_sys en"
proof -
  note ag = jit_relD(1) [OF assms(1)]
  let ?ctx = "next_pc (en_ctx en)"
  let ?ctx' = "?ctx\<lparr>ctx_exit_status := as_int (xr ?ctx 0), ctx_state_flags := ctx_state_flags ?ctx OR STATE_EXITED\<rparr>"
  have x: "ctx_x ?ctx = ctx_x c" using agree_fields(1) [OF ag] by (simp add: next_pc_def)
  have "xr ?ctx 8 \<in> {93, 94}" using assms(3) by (simp add: xr_def x)
  then have "execute K ?ctx (en_sys en) = Some (scast (as_int (xr ?ctx 0)), ?ctx', en_sys en)"
    by (auto simp: execute_dispatch handle_exit_def handle_exit_group_def Let_def)
  then have "run_body cpu K en = Some (Inr (True, en\<lparr>en_ctx := finish_syscall (ucast (scast (as_int (xr ?ctx 0)) :: i64)) ?ctx'\<rparr>))"
    by (simp add: svc_pass [OF assms(1,2)] handle_syscall_def)
  moreover have "(f OR STATE_EXITED) AND STATE_EXITED \<noteq> 0" for f
  proof -
    have "(f OR STATE_EXITED) AND STATE_EXITED = STATE_EXITED" by (rule bit_word_eqI) (auto simp: bit_simps)
    then show ?thesis by (simp add: STATE_EXITED_def)
  qed
  ultimately show ?thesis by (simp add: running_def finish_syscall_def xr_def x)
qed

definition prog_rel :: "host \<Rightarrow> u64 set \<Rightarrow> u64 set \<Rightarrow> x86_state \<Rightarrow> 'k engine \<Rightarrow> CPUContext \<times> 'k sys \<Rightarrow> bool" where
  "prog_rel h0 A P st0 en a \<longleftrightarrow> jit_rel h0 A P st0 (snd a) en (fst a) \<and> running (fst a)"

lemma prog_pass:
  assumes "prog_rel h0 A P st0 en a" "(prog_step (guest_step h0 A) h0 A P K ^^ n) a b" "0 < n"
    and "max_instr \<le> n \<or> at_svc h0 A (fst b)"
  shows "\<exists>m k a' en'. 0 < m \<and> m \<le> max_instr \<and> n = m + k \<and> (prog_step (guest_step h0 A) h0 A P K ^^ m) a a' \<and>
    (prog_step (guest_step h0 A) h0 A P K ^^ k) a' b \<and> engine_pass (x86_host fl st0) K en en' \<and> prog_rel h0 A P st0 en' a'"
proof -
  let ?R = "prog_step (guest_step h0 A) h0 A P K"
  obtain c s where a: "a = (c, s)" by (cases a)
  have rel: "jit_rel h0 A P st0 s en c" "running c" using assms(1) by (simp_all add: prog_rel_def a)
  have stretch: ?thesis
    if j: "(guest_step h0 A ^^ j) c c1" "0 < j" "max_instr \<le> j \<or> at_svc h0 A c1" "(?R ^^ l) (c1, s) b" "n = j + l" for j c1 l
  proof -
    obtain m k c2 en' where p: "0 < m" "m \<le> max_instr" "j = m + k" "(guest_step h0 A ^^ m) c c2" "(guest_step h0 A ^^ k) c2 c1"
        "engine_pass (x86_host fl st0) K en en'" "jit_rel h0 A P st0 s en' c2" "running c2"
      using jit_pass [OF rel j(1-3), of fl K] by blast
    have "(?R ^^ m) a (c2, s)" unfolding a by (rule prog_steps_instr [OF p(4)])
    moreover have "(?R ^^ (k + l)) (c2, s) b" unfolding relpowp_add using prog_steps_instr [OF p(5)] j(4) by blast
    ultimately show ?thesis using p j(5)
      by (intro exI [of _ m] exI [of _ "k + l"] exI [of _ "(c2, s)"] exI [of _ en']) (simp add: prog_rel_def)
  qed
  from assms(2) [unfolded a] show ?thesis
  proof (cases rule: prog_steps_split)
    case (instrs c1)
    with assms(3,4) show ?thesis by (intro stretch [of n c1 0]) auto
  next
    case (call j c1 x m)
    then show ?thesis
    proof (cases j)
      case 0
      with call have c1: "c1 = c" "n = 1 + m" by simp_all
      obtain r c' s' where h: "handle_syscall K (next_pc c) s = Some (r, c', s')" "x = (finish_syscall r c', s')"
        using call(7) c1(1) by blast
      obtain en' where "engine_pass (x86_host fl st0) K en en'" "prog_rel h0 A P st0 en' x"
        using call_pass [OF rel call(3,4) [unfolded c1(1)] h(1)] h(2) by (auto simp: prog_rel_def)
      moreover have "(?R ^^ 1) a x" using call(5) c1(1) by (simp add: a eq_OO)
      moreover have "1 \<le> max_instr" by (simp add: max_instr_def)
      ultimately show ?thesis using call(6) c1(2)
        by (intro exI [of _ 1] exI [of _ m] exI [of _ x] exI [of _ en']) simp
    next
      case (Suc i)
      have "(?R ^^ Suc m) (c1, s) b" using relpowp_Suc_I2 [OF call(5,6)] .
      with call Suc show ?thesis by (intro stretch [of j c1 "Suc m"]) auto
    qed
  qed
qed

interpretation prog: block_simulation "prog_rel h0 A P st0" "engine_pass (x86_host fl st0) K"
  "prog_step (guest_step h0 A) h0 A P K" "\<lambda>b. at_svc h0 A (fst b)" max_instr for h0 A P st0 fl K
  by unfold_locales (rule prog_pass)

section \<open>Complete runs\<close>

lemma prog_start:
  assumes "jit_start st0 en" "h0 = s_host (en_sys en)" "P = private_bytes st0 (en_cache en)" "P \<subseteq> A"
  shows "prog_rel h0 A P st0 (start_at pc en) ((en_ctx en)\<lparr>ctx_pc := pc\<rparr>, en_sys en)"
  using jit_start_rel [OF assms] by (simp add: prog_rel_def)

lemma prog_exits:
  assumes "jit_start st0 en" and "h0 = s_host (en_sys en)" and "P = private_bytes st0 (en_cache en)" and "P \<subseteq> A"
    and "(prog_step (guest_step h0 A) h0 A P K ^^ n) ((en_ctx en)\<lparr>ctx_pc := pc\<rparr>, en_sys en) (c, s)"
    and "at_svc h0 A c" and "ctx_x c ! 8 \<in> {93, 94}" and "n < max_iter"
  shows "\<exists>k en'. run (x86_host fl st0) K pc en = Some (k, en') \<and> k \<le> n + 1 \<and> \<not> running (en_ctx en') \<and>
    ctx_exit_status (en_ctx en') = as_int (ctx_x c ! 0) \<and> sys_agree P s (en_sys en')"
proof -
  obtain k en1 where k: "k \<le> n" "(engine_pass (x86_host fl st0) K ^^ k) (start_at pc en) en1"
      "jit_rel h0 A P st0 s en1 c" "running c"
    using prog.reaches_stop [OF prog_start [OF assms(1-4)] assms(5), of fl] assms(6) by (auto simp: prog_rel_def)
  obtain en' where e: "run_body (x86_host fl st0) K en1 = Some (Inr (True, en'))" "\<not> running (en_ctx en')"
      "ctx_exit_status (en_ctx en') = as_int (ctx_x c ! 0)" "en_sys en' = en_sys en1"
    using exit_pass [OF k(3) assms(6,7)] by blast
  have "running (en_ctx en1)" using k(4) agree_fields(6) [OF jit_relD(1) [OF k(3)]] by simp
  moreover have "run (x86_host fl st0) K pc en = run_loop (x86_host fl st0) K k en1"
    using run_loop_passes [OF k(2), of 0] k(1) assms(8) by (simp add: run_start_at)
  ultimately have "run (x86_host fl st0) K pc en = Some (k + 1, en')"
    using e(1,2) k(1) assms(8) by (simp add: run_loop.simps [of _ _ k en1] run_loop.simps [of _ _ "Suc k" en'])
  with e k(1) jit_relD(8) [OF k(3)] show ?thesis by auto
qed

subsection \<open>A concrete guest\<close>

text \<open>At 0x1000 a guest that reads two bytes to 0x3000, writes them and exits with status 7; the kernel's
  state is the output so far.\<close>

definition echo_code :: "u32 list" where
  "echo_code = [0xD28007E8, 0xD2860001, 0xD2800042, 0xD4000001,
     0xD2800808, 0xD2800020, 0xD4000001, 0xD2800BA8, 0xD28000E0, 0xD4000001]"

definition echo_kernel :: "u8 list kernel" where
  "echo_kernel = \<lparr>k_syscall = (\<lambda>_ _ k h. (0, k, h)), k_read = (\<lambda>_ _ k. (Inr [0x68, 0x69], k)),
     k_write = (\<lambda>_ bs k. (of_nat (length bs), k @ bs)), k_gettid = (\<lambda>_. 1), k_malloc = (\<lambda>_. True),
     k_os = \<lparr>os_mmap = (\<lambda>_ _ _. True), os_munmap = (\<lambda>_ _. 0), os_mprotect = (\<lambda>_ _ _. 0)\<rparr>\<rparr>"

definition echo_host :: host where
  "echo_host = poke 0x1000 (concat (map (le_bytes 4) echo_code)) \<lparr>h_byte = (\<lambda>_. 0), h_prot = (\<lambda>_. Some 7)\<rparr>"

definition echo_mem :: MemoryManager where
  "echo_mem = MemoryManager_init\<lparr>mm_regions := [\<lparr>mr_addr = 0x3000, mr_size = 0x1000, mr_perms = 3, mr_type = DATA,
     mr_is_translated = False\<rparr>]\<rparr>"

definition echo_engine :: "u8 list engine" where
  "echo_engine = \<lparr>en_ctx = CPUContext_init, en_sys = \<lparr>s_mem = echo_mem, s_host = echo_host, s_k = []\<rparr>,
     en_cache = (TranslationCache_init 8)\<lparr>tc_code_pool := 0x200000\<rparr>\<rparr>"

abbreviation echo_data :: "u64 set" where
  "echo_data \<equiv> guest_private \<union> set (addrs 0x3000 2)"

definition echo_ctx :: "u64 list \<Rightarrow> u64 \<Rightarrow> u64 \<Rightarrow> CPUContext" where
  "echo_ctx xs x8 pc = CPUContext_init\<lparr>ctx_x := xs @ [0, 0, 0, 0, 0, x8] @ replicate 22 0, ctx_pc := pc\<rparr>"

lemma le_bytes_slice:
  "i < length ws \<Longrightarrow> take 4 (drop (4 * i) (concat (map (le_bytes 4) ws))) = le_bytes 4 (ws ! i)" for ws :: "u32 list"
proof (induction ws arbitrary: i)
  case (Cons w ws)
  then show ?case by (cases i) simp_all
qed simp

lemma echo_fetches:
  assumes "i < 10"
  shows "fetches echo_host echo_data (0x1000 + of_nat (4 * i)) (echo_code ! i)"
proof -
  have len: "length (concat (map (le_bytes 4) echo_code)) = 40" by (simp add: echo_code_def)
  have r: "host_read echo_host a n = Some (peek a n echo_host)" for a n
    by (simp add: host_read_def peek_def list_all_iff can_read_def echo_host_def poke_def)
  have "peek (0x1000 + of_nat (4 * i)) 4 echo_host = le_bytes 4 (echo_code ! i)"
    using peek_poke_part [of "4 * i" 4 "concat (map (le_bytes 4) echo_code)" "0x1000"] assms le_bytes_slice [of i echo_code] len
    by (simp add: echo_host_def echo_code_def)
  moreover have "set (addrs (0x1000 + of_nat (4 * i)) 4) \<inter> echo_data = {}"
  proof -
    have u: "unat (0x1000 + of_nat (4 * i) :: u64) = 0x1000 + 4 * i"
      using unat_add_of_nat [of "0x1000" "4 * i"] assms by simp
    have "disjoint_ranges (0x1000 + of_nat (4 * i)) 4 0x3000 2" by (rule disjoint_rangesI) (use u assms in simp_all)
    with guest_apart [of "0x1000 + of_nat (4 * i)" 4] u assms show ?thesis by (auto simp: disjoint_ranges_def)
  qed
  ultimately show ?thesis by (simp add: fetches_def r le_word_le_bytes)
qed

abbreviation echo_step :: "CPUContext \<times> u8 list sys \<Rightarrow> CPUContext \<times> u8 list sys \<Rightarrow> bool" where
  "echo_step \<equiv> prog_step (arm_step echo_host echo_data) echo_host echo_data guest_private echo_kernel"

lemma echo_movs:
  "echo_step (echo_ctx [0, 0, 0] 0 0x1000, s) (echo_ctx [0, 0, 0] 63 0x1004, s)"
  "echo_step (echo_ctx [0, 0, 0] 63 0x1004, s) (echo_ctx [0, 0x3000, 0] 63 0x1008, s)"
  "echo_step (echo_ctx [0, 0x3000, 0] 63 0x1008, s) (echo_ctx [0, 0x3000, 2] 63 0x100C, s)"
  "echo_step (echo_ctx [2, 0x3000, 2] 63 0x1010, s) (echo_ctx [2, 0x3000, 2] 64 0x1014, s)"
  "echo_step (echo_ctx [2, 0x3000, 2] 64 0x1014, s) (echo_ctx [1, 0x3000, 2] 64 0x1018, s)"
  "echo_step (echo_ctx [2, 0x3000, 2] 64 0x101C, s) (echo_ctx [2, 0x3000, 2] 93 0x1020, s)"
  "echo_step (echo_ctx [2, 0x3000, 2] 93 0x1020, s) (echo_ctx [7, 0x3000, 2] 93 0x1024, s)"
proof -
  have step: "echo_step (c, s) (c', s)"
    if "ctx_pc c = 0x1000 + of_nat (4 * i)" "i < 10" "arm_word (echo_code ! i)" "arm_exec (echo_code ! i) c = c'" for i c c'
    using arm_step.word [of echo_host echo_data c "echo_code ! i"] echo_fetches [of i] that by (intro prog_step.instr) simp
  note s = step [where i = 0] step [where i = 1] step [where i = 2] step [where i = 4] step [where i = 5] step [where i = 7]
    step [where i = 8]
  show "echo_step (echo_ctx [0, 0, 0] 0 0x1000, s) (echo_ctx [0, 0, 0] 63 0x1004, s)"
    "echo_step (echo_ctx [0, 0, 0] 63 0x1004, s) (echo_ctx [0, 0x3000, 0] 63 0x1008, s)"
    "echo_step (echo_ctx [0, 0x3000, 0] 63 0x1008, s) (echo_ctx [0, 0x3000, 2] 63 0x100C, s)"
    "echo_step (echo_ctx [2, 0x3000, 2] 63 0x1010, s) (echo_ctx [2, 0x3000, 2] 64 0x1014, s)"
    "echo_step (echo_ctx [2, 0x3000, 2] 64 0x1014, s) (echo_ctx [1, 0x3000, 2] 64 0x1018, s)"
    "echo_step (echo_ctx [2, 0x3000, 2] 64 0x101C, s) (echo_ctx [2, 0x3000, 2] 93 0x1020, s)"
    "echo_step (echo_ctx [2, 0x3000, 2] 93 0x1020, s) (echo_ctx [7, 0x3000, 2] 93 0x1024, s)"
    by (rule s; simp add: echo_code_def echo_ctx_def arm_word_def arm_exec_def bits_def)+
qed

definition echo_read :: "u8 list sys" where
  "echo_read = (en_sys echo_engine)\<lparr>s_host := poke 0x3000 [0x68, 0x69] echo_host\<rparr>"

lemma echo_calls:
  "echo_step (echo_ctx [0, 0x3000, 2] 63 0x100C, en_sys echo_engine) (echo_ctx [2, 0x3000, 2] 63 0x1010, echo_read)"
  "echo_step (echo_ctx [1, 0x3000, 2] 64 0x1018, echo_read) (echo_ctx [2, 0x3000, 2] 64 0x101C, echo_read\<lparr>s_k := [0x68, 0x69]\<rparr>)"
  "at_svc echo_host echo_data (echo_ctx xs x8 0x1024)"
proof -
  have svc: "at_svc echo_host echo_data (echo_ctx xs x8 pc)"
    if "pc = 0x1000 + of_nat (4 * i)" "i < 10" "echo_code ! i = 0xD4000001" for xs x8 pc i
    using echo_fetches [of i] that by (auto simp: at_svc_def is_svc_def echo_ctx_def)
  show "at_svc echo_host echo_data (echo_ctx xs x8 0x1024)"
    by (rule svc [where i = 9]) (simp_all add: echo_code_def)
  have priv: "set (addrs 0x3000 2) \<inter> guest_private = {}" by (rule guest_apart) simp
  have perms: "check_perms echo_mem 0x3000 2 PROT_READ" "check_perms echo_mem 0x3000 2 PROT_WRITE"
    by (simp_all add: check_perms_def echo_mem_def prot_defs)
  have x: "ctx_x (echo_ctx [a, b, c] x8 pc) = [a, b, c, 0, 0, 0, 0, 0, x8] @ replicate 22 0" for a b c x8 pc
    by (simp add: echo_ctx_def)
  have prot: "h_prot echo_host a = Some 7" "h_prot (poke 0x3000 bs echo_host) a = Some 7" for a bs
    by (simp_all add: echo_host_def poke_def)
  have "peek 0x3000 2 (poke 0x3000 [0x68, 0x69] echo_host) = [0x68, 0x69]"
    using peek_poke_same [of "[0x68, 0x69]" "0x3000" echo_host] by simp (simp add: numeral_2_eq_2)
  then have "map (h_byte (poke 0x3000 [0x68, 0x69] echo_host)) (addrs 0x3000 2) = [0x68, 0x69]" by (simp only: peek_def)
  then have rw: "host_read (poke 0x3000 [0x68, 0x69] echo_host) 0x3000 2 = Some [0x68, 0x69]"
    by (simp add: host_read_def list_all_iff can_read_def prot)
  have wr: "host_write echo_host 0x3000 [0x68, 0x69] = Some (poke 0x3000 [0x68, 0x69] echo_host)"
    by (simp add: host_write_def list_all_iff can_write_def prot PROT_WRITE_def poke_def)
  show "echo_step (echo_ctx [0, 0x3000, 2] 63 0x100C, en_sys echo_engine) (echo_ctx [2, 0x3000, 2] 63 0x1010, echo_read)"
  proof -
    let ?c = "echo_ctx [0, 0x3000, 2] 63 0x100C"
    have "at_svc echo_host echo_data ?c" by (rule svc [where i = 3]) (simp_all add: echo_code_def)
    moreover have "local_call echo_data guest_private echo_kernel ?c (en_sys echo_engine)"
      using priv by (auto simp: local_call_def Let_def x echo_kernel_def)
    moreover have "handle_syscall echo_kernel (next_pc ?c) (en_sys echo_engine) = Some (2, next_pc ?c, echo_read)"
      by (simp add: handle_syscall_def execute_dispatch xr_def next_pc_def x handle_read_def echo_kernel_def echo_read_def
        echo_engine_def write_bytes_def perms wr Let_def)
    ultimately have "echo_step (?c, en_sys echo_engine) (finish_syscall 2 (next_pc ?c), echo_read)" by (rule prog_step.call)
    then show ?thesis by (simp add: finish_next_pc echo_ctx_def)
  qed
  show "echo_step (echo_ctx [1, 0x3000, 2] 64 0x1018, echo_read) (echo_ctx [2, 0x3000, 2] 64 0x101C, echo_read\<lparr>s_k := [0x68, 0x69]\<rparr>)"
  proof -
    let ?c = "echo_ctx [1, 0x3000, 2] 64 0x1018"
    have "at_svc echo_host echo_data ?c" by (rule svc [where i = 6]) (simp_all add: echo_code_def)
    moreover have "local_call echo_data guest_private echo_kernel ?c echo_read"
      using priv by (simp add: local_call_def Let_def x)
    moreover have "handle_syscall echo_kernel (next_pc ?c) echo_read = Some (2, next_pc ?c, echo_read\<lparr>s_k := [0x68, 0x69]\<rparr>)"
      by (simp add: handle_syscall_def execute_dispatch xr_def next_pc_def x handle_write_def echo_kernel_def echo_read_def
        echo_engine_def read_bytes_def perms rw Let_def)
    ultimately have "echo_step (?c, echo_read) (finish_syscall 2 (next_pc ?c), echo_read\<lparr>s_k := [0x68, 0x69]\<rparr>)"
      by (rule prog_step.call)
    then show ?thesis by (simp add: finish_next_pc echo_ctx_def)
  qed
qed

lemma echo_runs:
  "(echo_step ^^ 9) (CPUContext_init\<lparr>ctx_pc := 0x1000\<rparr>, en_sys echo_engine)
     (echo_ctx [7, 0x3000, 2] 93 0x1024, echo_read\<lparr>s_k := [0x68, 0x69]\<rparr>)"
proof -
  have start: "CPUContext_init\<lparr>ctx_pc := 0x1000\<rparr> = echo_ctx [0, 0, 0] 0 0x1000"
    by (simp add: echo_ctx_def CPUContext_init_def numeral_eq_Suc)
  have "(echo_step ^^ Suc (Suc (Suc (Suc (Suc (Suc (Suc (Suc (Suc 0)))))))))
      (echo_ctx [0, 0, 0] 0 0x1000, en_sys echo_engine) (echo_ctx [7, 0x3000, 2] 93 0x1024, echo_read\<lparr>s_k := [0x68, 0x69]\<rparr>)"
    by (rule relpowp_Suc_I2, rule echo_movs echo_calls)+ simp
  moreover have "9 = Suc (Suc (Suc (Suc (Suc (Suc (Suc (Suc (Suc 0))))))))" by simp
  ultimately show ?thesis unfolding start by (simp only:)
qed

lemma echo_start: "jit_start demo_x86 echo_engine"
proof -
  have "tc_code_pool_size (en_cache echo_engine) = tc_code_pool_size (en_cache guest_engine)"
    "en_cache echo_engine = en_cache guest_engine" "en_ctx echo_engine = en_ctx guest_engine"
    by (simp_all add: echo_engine_def guest_engine_def)
  moreover have "h_prot echo_host = h_prot guest_host_mem"
    by (simp add: echo_host_def guest_host_mem_def poke_def)
  then have "writable a n echo_host = writable a n guest_host_mem" "can_read echo_host = can_read guest_host_mem" for a n
    by (simp_all add: writable_def list_all_iff can_write_def can_read_def fun_eq_iff)
  moreover have "s_host (en_sys echo_engine) = echo_host" "s_host (en_sys guest_engine) = guest_host_mem"
    by (simp_all add: echo_engine_def guest_engine_def)
  ultimately show ?thesis using guest_start by (simp add: jit_start_def host_ready_def pool_ready_def)
qed

section \<open>Properties\<close>

text \<open>C1: The engine executes ARM code as the architecture prescribes, from its start to the exit.  If the
  guest's words are of the class of \<open>arm_word\<close>, the calls on its way are those of \<open>local_call\<close>, and its
  architectural execution comes in \<open>n\<close> steps, fewer than the iteration limit, to a call of \<open>exit\<close> or
  \<open>exit_group\<close>, then \<open>run\<close>, executing translated code on the reference processor, returns after at most
  \<open>n + 1\<close> passes in the state \<open>STATE_EXITED\<close> with the status that the guest passed in \<open>x0\<close>, with the kernel
  state that the guest's calls lead to (its output), and with the guest's memory: only the translator's own
  bytes \<open>P\<close> differ.\<close>

theorem run_follows_architecture:
  assumes "jit_start st0 en" and "h0 = s_host (en_sys en)" and "P = private_bytes st0 (en_cache en)" and "P \<subseteq> A"
    and "(prog_step (arm_step h0 A) h0 A P K ^^ n) ((en_ctx en)\<lparr>ctx_pc := pc\<rparr>, en_sys en) (c, s)"
    and "at_svc h0 A c" and "ctx_x c ! 8 \<in> {93, 94}" and "n < max_iter"
  shows "\<exists>k en'. run (x86_host fl st0) K pc en = Some (k, en') \<and> k \<le> n + 1 \<and>
    \<not> running (en_ctx en') \<and> ctx_exit_status (en_ctx en') = as_int (ctx_x c ! 0) \<and>
    s_k (en_sys en') = s_k s \<and> same_but P (s_host s) (s_host (en_sys en'))"
proof -
  have "(prog_step (guest_step h0 A) h0 A P K ^^ n) ((en_ctx en)\<lparr>ctx_pc := pc\<rparr>, en_sys en) (c, s)"
    using prog_steps_mono [OF arm_step_guest assms(5)] .
  from prog_exits [OF assms(1-4) this assms(6-8)] show ?thesis unfolding sys_agree_def by blast
qed

text \<open>The witness reads "hi", writes it and exits with status 7.\<close>

theorem run_follows_architecture_witness:
  "\<exists>k en'. run (x86_host (\<lambda>_ _. 2) demo_x86) echo_kernel 0x1000 echo_engine = Some (k, en') \<and> k \<le> 10 \<and>
     \<not> running (en_ctx en') \<and> ctx_exit_status (en_ctx en') = 7 \<and> s_k (en_sys en') = [0x68, 0x69]"
proof -
  have "echo_host = s_host (en_sys echo_engine)" "guest_private = private_bytes demo_x86 (en_cache echo_engine)"
    "(echo_step ^^ 9) ((en_ctx echo_engine)\<lparr>ctx_pc := 0x1000\<rparr>, en_sys echo_engine)
       (echo_ctx [7, 0x3000, 2] 93 0x1024, echo_read\<lparr>s_k := [0x68, 0x69]\<rparr>)"
    using echo_runs by (simp_all add: echo_engine_def guest_engine_def)
  from run_follows_architecture [OF echo_start this(1,2) Un_upper1 this(3) echo_calls(3), of "\<lambda>_ _. 2"]
  show ?thesis by (auto simp: echo_ctx_def as_int_def max_iter_def)
qed

text \<open>C3: A guest that never comes to its exit is cut off: if it can make 64 steps, instructions or calls, for
  every counted pass, \<open>run\<close> returns after exactly \<open>max_iter\<close> passes with the guest still running, in a
  state that the reference program reaches after at least as many steps.\<close>

theorem run_stops_spinning:
  assumes "jit_start st0 en" and "h0 = s_host (en_sys en)" and "P = private_bytes st0 (en_cache en)" and "P \<subseteq> A"
    and "(prog_step (guest_step h0 A) h0 A P K ^^ (max_instr * max_iter)) ((en_ctx en)\<lparr>ctx_pc := pc\<rparr>, en_sys en) b"
  shows "\<exists>m c s en'. run (x86_host fl st0) K pc en = Some (max_iter, en') \<and> running (en_ctx en') \<and> max_iter \<le> m \<and>
    (prog_step (guest_step h0 A) h0 A P K ^^ m) ((en_ctx en)\<lparr>ctx_pc := pc\<rparr>, en_sys en) (c, s) \<and>
    int_words (en_ctx en') = int_words c \<and> s_k (en_sys en') = s_k s"
proof -
  obtain m a' en' where k: "max_iter \<le> m"
      "(prog_step (guest_step h0 A) h0 A P K ^^ m) ((en_ctx en)\<lparr>ctx_pc := pc\<rparr>, en_sys en) a'"
      "(engine_pass (x86_host fl st0) K ^^ max_iter) (start_at pc en) en'" "prog_rel h0 A P st0 en' a'"
    using prog.keeps_going [OF prog_start [OF assms(1-4)] assms(5), of fl] by (auto simp: max_instr_def)
  note rel = k(4) [unfolded prog_rel_def, THEN conjunct1, THEN jit_relD(1)] k(4) [unfolded prog_rel_def, THEN conjunct1, THEN jit_relD(8)]
  have "running (en_ctx en')" using k(4) agree_fields(6) [OF rel(1)] by (simp add: prog_rel_def)
  moreover have "run (x86_host fl st0) K pc en = Some (max_iter, en')"
    using run_loop_passes [OF k(3), of 0] by (simp add: run_start_at run_loop.simps [of _ _ max_iter en'])
  ultimately show ?thesis using k(1,2) rel
    by (intro exI [of _ m] exI [of _ "fst a'"] exI [of _ "snd a'"] exI [of _ en']) (simp add: agree_def sys_agree_def)
qed

theorem run_stops_spinning_witness:
  "\<exists>en'. run (x86_host (\<lambda>_ _. 2) demo_x86) demo_kernel 0x2000 guest_engine = Some (max_iter, en') \<and> running (en_ctx en')"
proof -
  let ?R = "prog_step (guest_step guest_host_mem guest_private) guest_host_mem guest_private guest_private demo_kernel"
  have "guest_host_mem = s_host (en_sys guest_engine)"
    "(?R ^^ (max_instr * max_iter)) ((en_ctx guest_engine)\<lparr>ctx_pc := 0x2000\<rparr>, en_sys guest_engine)
       (CPUContext_init\<lparr>ctx_pc := 0x2000\<rparr>, en_sys guest_engine)"
    using prog_steps_instr [OF guest_spins] by (simp_all add: guest_engine_def)
  from run_stops_spinning [OF guest_start this(1) HOL.refl order_refl this(2), of "\<lambda>_ _. 2"] show ?thesis by blast
qed

end
