(* ===== verification/Jit_Branch.thy ===== *)
theory Jit_Branch
  imports X86_Host Engine_Run
begin

text \<open>
  What translated code does with CBZ, CBNZ and RET.  The builder makes a compare with zero and a
  conditional jump of them, and the compare saves the flags; the code of \<open>save_nzcv\<close> between the
  compare and the jump changes the flags itself, and its last arithmetic instruction shifts a
  register that no earlier instruction has set.  The code of RET loads the field \<open>lr\<close> of the context, where the
  interpreter takes register 30; nothing keeps the two equal.
\<close>

section \<open>Running up to a jump\<close>

lemma x86_run_prefix:
  "decodes_to bs is \<Longrightarrow> x86_exec fl is st = Some (False, st') \<Longrightarrow>
   x86_run fl (length is + n) (bs @ rest) st = x86_run fl n rest st'"
proof (induction "is" arbitrary: bs st)
  case (Cons i "is")
  then obtain bs' where bs': "x86_decode (bs @ rest) = Some (i, bs' @ rest)" "decodes_to bs' is" by auto
  from Cons.prems(2) obtain st1 where st1: "i \<noteq> Ret" "x86_step fl i st = Some st1" "x86_exec fl is st1 = Some (False, st')"
    by (auto split: if_splits option.splits)
  have "x86_run fl (length is + n) (bs' @ rest) st1 = x86_run fl n rest st'" using Cons.IH [OF bs'(2) st1(3)] .
  with bs'(1) st1 show ?case by (cases i) simp_all
qed simp

lemma decodes_to_length: "decodes_to bs is \<Longrightarrow> length is \<le> length bs"
proof (induction "is" arbitrary: bs)
  case (Cons i "is")
  then show ?case by fastforce
qed simp

lemma jmp_cond_decode:
  "x86_decode (jmp_cond_bytes fall instr @ rest) =
     Some (Jcc (arm_cond_to_x86 (i_cond instr) XOR 1) 19, block_ret_bytes (i_imm instr) @ block_ret_bytes fall @ rest)"
  using jcc_decodes [OF inv_cc_less, of "i_cond instr" 19] by (simp add: jmp_cond_bytes_def)

text \<open>The code of a conditional jump, run in a state from which a block could be executed.\<close>

lemma jmp_cond_runs:
  assumes "jit_ready p st" "44 \<le> n"
  shows "\<exists>st'. x86_run fl n (jmp_cond_bytes fall instr @ rest) st = Some st' \<and>
    int_slots p (xs_host st') = (int_slots p (xs_host st))[32 :=
      (if cc_holds (arm_cond_to_x86 (i_cond instr) XOR 1) (xs_flags st) then fall else i_imm instr)]"
proof -
  obtain m where n: "n = Suc m" "43 \<le> m" using assms(2) by (cases n) auto
  have ret: "\<exists>st'. x86_run fl m (block_ret_bytes t @ more) st = Some st' \<and>
      int_slots p (xs_host st') = (int_slots p (xs_host st))[32 := t]" for t more
  proof -
    obtain st' where "x86_exec fl (block_ret_asm t) st = Some (True, st')" "acc_slots p st' = (t, (snd (acc_slots p st))[32 := t])"
      using jit_runs_block_ret [of fl t] assms(1) unfolding jit_runs_def by (fastforce simp: case_prod_beta)
    with x86_run_exec [OF decodes_block_ret, of fl t st st' m more] n show ?thesis by (auto simp: acc_slots_def)
  qed
  have s: "sint (19 :: i32) = 19" by simp
  have d: "drop 19 (block_ret_bytes t @ more) = more" for t more by simp
  show ?thesis
    using ret [of "i_imm instr"] ret [of fall] by (auto simp: n jmp_cond_decode s d simp del: drop_append)
qed

section \<open>The flags after \<open>save_nzcv\<close>\<close>

definition spares :: "u8 \<Rightarrow> x86 \<Rightarrow> bool" where
  "spares r i = (case i of MovRR d s \<Rightarrow> d \<noteq> r | AluImm op d k \<Rightarrow> d \<noteq> r | AluRR op d s \<Rightarrow> d \<noteq> r
     | ShiftImm op d k \<Rightarrow> d \<noteq> r | Load d b k \<Rightarrow> d \<noteq> r | Store b k s \<Rightarrow> True
     | Pushfq \<Rightarrow> r \<noteq> RSP | Pop d \<Rightarrow> d \<noteq> r \<and> r \<noteq> RSP | _ \<Rightarrow> False)"

lemma step_spares: "spares r i \<Longrightarrow> x86_step fl i st = Some st' \<Longrightarrow> xs_reg st' r = xs_reg st r"
  by (cases i) (auto simp: spares_def x86_step_def Let_def)

lemma exec_spares: "list_all (spares r) is \<Longrightarrow> x86_exec fl is st = Some (e, st') \<Longrightarrow> xs_reg st' r = xs_reg st r"
  by (induction "is" arbitrary: st) (auto split: option.splits if_splits dest: step_spares)

definition moves_only :: "x86 \<Rightarrow> bool" where
  "moves_only i = (case i of MovRR d s \<Rightarrow> True | Load d b k \<Rightarrow> True | Store b k s \<Rightarrow> True | _ \<Rightarrow> False)"

lemma exec_moves_flags: "list_all moves_only is \<Longrightarrow> x86_exec fl is st = Some (e, st') \<Longrightarrow> xs_flags st' = xs_flags st"
proof (induction "is" arbitrary: st)
  case (Cons i "is")
  then show ?case
    by (cases i) (auto simp: moves_only_def x86_step_def Let_def split: option.splits if_splits)
qed simp

lemma exec_append_parts:
  assumes "x86_exec fl (is @ js) st = Some (False, st')"
  obtains st1 where "x86_exec fl is st = Some (False, st1)" "x86_exec fl js st1 = Some (False, st')"
  using assms by (auto simp: x86_exec_append split: option.splits if_splits)

lemma nzcv_flags:
  assumes "x86_exec fl nzcv_asm st = Some (False, st')"
  shows "\<exists>st1. xs_flags st' = fl (ShiftImm X_SHL R9 28) st1 \<and> xs_reg st1 R9 = drop_bit 7 (xs_reg st R9) AND 1"
proof -
  define mid where "mid = butlast (drop 3 nzcv_compute)"
  have parts: "nzcv_asm = (nzcv_save @ [MovRR RCX RAX]) @ [ShiftImm X_SHR R9 7, AluImm X_AND R9 1] @ mid @
      [ShiftImm X_SHL R9 28] @ nzcv_restore"
    by (simp add: nzcv_asm_parts nzcv_compute_def mid_def)
  obtain a where a: "x86_exec fl (nzcv_save @ [MovRR RCX RAX]) st = Some (False, a)"
    and ra: "x86_exec fl ([ShiftImm X_SHR R9 7, AluImm X_AND R9 1] @ mid @ [ShiftImm X_SHL R9 28] @ nzcv_restore) a = Some (False, st')"
    using assms unfolding parts by (rule exec_append_parts)
  obtain b where b: "x86_exec fl [ShiftImm X_SHR R9 7, AluImm X_AND R9 1] a = Some (False, b)"
    and rb: "x86_exec fl (mid @ [ShiftImm X_SHL R9 28] @ nzcv_restore) b = Some (False, st')"
    using ra by (rule exec_append_parts)
  obtain c where c: "x86_exec fl mid b = Some (False, c)"
    and rc: "x86_exec fl ([ShiftImm X_SHL R9 28] @ nzcv_restore) c = Some (False, st')"
    using rb by (rule exec_append_parts)
  obtain d where d: "x86_exec fl [ShiftImm X_SHL R9 28] c = Some (False, d)" "x86_exec fl nzcv_restore d = Some (False, st')"
    using rc by (rule exec_append_parts)
  have "xs_reg a R9 = xs_reg st R9"
    by (rule exec_spares [OF _ a]) (simp add: nzcv_save_def spares_def)
  moreover have "xs_reg b R9 = drop_bit 7 (xs_reg a R9) AND 1"
    using b by (auto simp: x86_shift_def x86_alu_def)
  moreover have "xs_reg c R9 = xs_reg b R9"
    by (rule exec_spares [OF _ c]) (simp add: mid_def nzcv_compute_def spares_def)
  moreover have "xs_flags d = fl (ShiftImm X_SHL R9 28) c" using d(1) by auto
  moreover have "xs_flags st' = xs_flags d"
    by (rule exec_moves_flags [OF _ d(2)]) (simp add: nzcv_restore_def moves_only_def)
  ultimately show ?thesis by auto
qed

text \<open>The code up to the jump, from the entry of the block.\<close>

lemma compare_code_runs:
  assumes "jit_entry p ctx st" "r < 32"
  shows "\<exists>st1 st2. x86_exec fl (MovRR R12 RDI # [ld_asm r RAX, AluImm X_CMP RAX k] @ nzcv_asm) st = Some (False, st1) \<and>
    jit_ready p st1 \<and> int_slots p (xs_host st1) = int_words ctx \<and>
    xs_flags st1 = fl (ShiftImm X_SHL R9 28) st2 \<and> xs_reg st2 R9 = drop_bit 7 (xs_reg st R9) AND 1"
proof -
  let ?cmp = "[ld_asm r RAX, AluImm X_CMP RAX k]" let ?st = "set_reg R12 p st"
  have ready: "jit_ready p ?st" and ws: "int_slots p (xs_host ?st) = int_words ctx"
    using assms(1) by (simp_all add: jit_entry_def jit_ready_def)
  have "jit_runs fl (?cmp @ nzcv_asm) False (\<lambda>(y, ws). (ws ! unat r, ws))"
    using jit_runs_append [OF jit_runs_append [OF jit_runs_ld [OF assms(2)] jit_runs_cmp(1)] jit_runs_nzcv, of fl k] by simp
  with ready obtain st1 where st1: "x86_exec fl (?cmp @ nzcv_asm) ?st = Some (False, st1)" "jit_ready p st1"
      "snd (acc_slots p st1) = snd (acc_slots p ?st)"
    unfolding jit_runs_def by (fastforce simp: case_prod_beta)
  obtain sta where a: "x86_exec fl ?cmp ?st = Some (False, sta)" "x86_exec fl nzcv_asm sta = Some (False, st1)"
    using st1(1) by (rule exec_append_parts)
  have "xs_reg sta R9 = xs_reg ?st R9"
    by (rule exec_spares [OF _ a(1)]) (simp add: spares_def ld_asm_def)
  then have "xs_reg sta R9 = xs_reg st R9" by simp
  with nzcv_flags [OF a(2)] obtain st2 where "xs_flags st1 = fl (ShiftImm X_SHL R9 28) st2"
      "xs_reg st2 R9 = drop_bit 7 (xs_reg st R9) AND 1" by auto
  moreover have "x86_exec fl (MovRR R12 RDI # ?cmp @ nzcv_asm) st = Some (False, st1)"
    using st1(1) assms(1) by (simp add: jit_entry_def)
  ultimately show ?thesis using st1(2,3) ws by (intro exI [of _ st1] exI [of _ st2]) (simp add: acc_slots_def)
qed

lemma compare_block_emits:
  assumes "b_instructions block = [c, j]" "encodable c" "i_op j = Op_JMP_COND" "emitter_wf e" "266 \<le> emit_room e"
  shows "\<exists>e' pre. lower_block block fall e = Some (True, e') \<and> decodes_to pre (MovRR R12 RDI # lower_asm fall c) \<and>
    emitted e' = emitted e @ pre @ jmp_cond_bytes fall j @ block_ret_bytes fall"
proof -
  obtain f where f: "assembles f 200 (lower_asm fall c)" "\<And>e. lower_instr fall c e = Some (True, f e)"
    using lower_instr_assembles [OF assms(2)] unfolding assembles_opt_def by blast
  have "assembles (emit_mov_reg_reg R12 RDI) 3 [MovRR R12 RDI]" by (rule assembles_rr) simp_all
  from assembles_seq [OF this assembles_seq [OF f(1) assembles_seq_Nil]]
  obtain pre where pre: "length pre \<le> 203" "decodes_to pre (MovRR R12 RDI # lower_asm fall c)"
      "\<And>e. emitter_wf e \<Longrightarrow> length pre \<le> emit_room e \<Longrightarrow> f (emit_mov_reg_reg R12 RDI e) = fold emit_byte pre e"
    unfolding assembles_def by auto
  define e1 where "e1 = fold emit_byte pre e"
  define e2 where "e2 = fold emit_byte (jmp_cond_bytes fall j) e1"
  have w: "emitter_wf e1" "emitter_wf e2" unfolding e1_def e2_def using assms(4) by (simp_all add: em.puts_invar)
  have r1: "emit_room e1 = emit_room e - length pre" unfolding e1_def by (rule em.puts_room [OF assms(4)])
  have r2: "emit_room e2 = emit_room e1 - 44" unfolding e2_def em.puts_room [OF w(1)] by simp
  have room: "63 \<le> emit_room e1" "19 \<le> emit_room e2" using assms(5) pre(1) by (simp_all add: r1 r2)
  have j: "lower_instr fall j e1 = Some (True, e2)"
    using emits_jmp_cond [OF w(1), of fall j] room by (simp add: lower_instr_def assms(3) e2_def)
  have "lower_block block fall e = Some (True, emit_block_ret fall e2)"
    using pre(3) [OF assms(4)] pre(1) assms(5) by (simp add: lower_block_def assms(1) f(2) j e1_def [symmetric])
  moreover have "emit_block_ret fall e2 = fold emit_byte (block_ret_bytes fall) e2"
    using emits_block_ret [of fall] w room by (simp add: emits_def)
  moreover have "emitted (fold emit_byte (block_ret_bytes fall) e2) = emitted e @ pre @ jmp_cond_bytes fall j @ block_ret_bytes fall"
    using em.puts_contents [OF w(2), of "block_ret_bytes fall"] em.puts_contents [OF w(1), of "jmp_cond_bytes fall j"]
      em.puts_contents [OF assms(4), of pre] room pre(1) assms(5)
    by (simp add: e1_def [symmetric] e2_def [symmetric])
  ultimately show ?thesis using pre(2) by auto
qed

text \<open>What CBZ and CBNZ are built into.\<close>

lemma build_single: "b_instructions (optimize (snd (build [d] 1 pc IRBlock_init))) = merge_reference (instr_ir d pc)"
proof -
  have "b_instructions (snd (build [d] 1 pc IRBlock_init)) = instr_ir d pc"
    using build_loop_result(2) [of "[d]" 0 pc "IRBlock_init\<lparr>b_arm_pc_start := pc, b_arm_instr_count := 1, b_is_conditional := False\<rparr>"]
    by (simp add: build_def Let_def case_prod_beta IRBlock_init_def)
  then show ?thesis
    by (simp add: optimize_def constant_propagation_def dead_code_elimination_def flag_merging_reference)
qed

lemma build_compare_branch:
  assumes "d_opcode d \<in> {0x55, 0x56}"
  shows "b_instructions (optimize (snd (build [d] 1 pc IRBlock_init))) =
    [IRInst_init\<lparr>i_size := (if d_size d \<noteq> 0 then 8 else 4), i_op := Op_CMP, i_src1 := ucast (d_rn d), i_src2 := IR_NONE,
        i_imm := 0, i_flags_set := True\<rparr>,
     IRInst_init\<lparr>i_op := Op_JMP_COND, i_flags_used := True, i_imm := pc + ucast (d_branch_offset d),
        i_cond := (if d_opcode d = 0x55 then 0 else 1)\<rparr>]"
proof -
  note o = build_single [of d pc]
  let ?c = "IRInst_init\<lparr>i_size := (if d_size d \<noteq> 0 then 8 else 4), i_op := Op_CMP, i_src1 := ucast (d_rn d), i_src2 := IR_NONE,
        i_imm := 0, i_flags_set := True\<rparr>"
  let ?j = "IRInst_init\<lparr>i_op := Op_JMP_COND, i_flags_used := True, i_imm := pc + ucast (d_branch_offset d),
        i_cond := (if d_opcode d = 0x55 then 0 else 1)\<rparr>"
  have i: "instr_ir d pc = [?c, ?j]"
    using assms by (elim insertE emptyE) (simp_all add: instr_ir_eval compare_and_branch_def IRBlock_init_def)
  have m: "merge_reference [x, y] = [x, y]" if "\<not> i_flags_set y" for x y
    using that by (intro nth_equalityI) (auto simp: merge_reference_def merged_flags_def less_Suc_eq)
  show ?thesis unfolding o i by (rule m) (simp add: IRInst_init_def)
qed

text \<open>The documented effect of SHL on the zero flag: with a count that is not zero, the flag says
  whether the result is zero.\<close>

definition shl_sets_zero :: "flag_sem \<Rightarrow> bool" where
  "shl_sets_zero fl \<longleftrightarrow> (\<forall>r k st. k AND 63 \<noteq> 0 \<longrightarrow>
     bit (fl (ShiftImm X_SHL r k) st) 6 = (x86_shift X_SHL (xs_reg st r) k = 0))"

section \<open>Returns\<close>

text \<open>Nothing sets the field that translated code returns to: not the interpreter, not the supported
  intermediate code.\<close>

lemma lr_helpers:
  "ctx_lr (next_pc c) = ctx_lr c" "ctx_lr (crash c) = ctx_lr c" "ctx_lr (branch_by d c) = ctx_lr c"
  "ctx_lr (set_nzcv n z cc v c) = ctx_lr c" "ctx_lr (ir_set r x c) = ctx_lr c"
  by (simp_all add: next_pc_def crash_def branch_by_def set_nzcv_def ir_set_def cpu_context_set_reg_def)

lemma lr_set_x: "set_x c r v = Some c' \<Longrightarrow> ctx_lr c' = ctx_lr c"
  by (auto simp: set_x_def split: if_splits)

lemma lr_load_into: "load_into v rt c = Some c' \<Longrightarrow> ctx_lr c' = ctx_lr c"
  by (auto simp: load_into_def lr_helpers lr_set_x split: option.splits)

lemma lr_exec_parts:
  "exec_data d c = Some (Some c') \<Longrightarrow> ctx_lr c' = ctx_lr c"
  "exec_branch d c = Some (Some c') \<Longrightarrow> ctx_lr c' = ctx_lr c"
  "exec_compare d c = Some (Some c') \<Longrightarrow> ctx_lr c' = ctx_lr c"
  "exec_memory d mm c h = Some (Some (c', h')) \<Longrightarrow> ctx_lr c' = ctx_lr c"
  unfolding exec_data_def exec_branch_def exec_compare_def exec_memory_def Let_def
  by (auto simp: lr_helpers lr_set_x lr_load_into split: if_splits Option.bind_splits option.splits)

lemma interpreter_keeps_lr: "execute_decoded d mm c h = Some (c', h') \<Longrightarrow> ctx_lr c' = ctx_lr c"
  by (auto simp: execute_decoded_def lr_helpers split: Option.bind_splits option.splits dest: lr_exec_parts)

lemma ir_keeps_lr: "ctx_lr (snd (ir_exec i c)) = ctx_lr c"
  by (simp add: ir_exec_def Let_def lr_helpers split: IROpcode.splits)

lemma decode_ret:
  "decode 0xD65F03C0 = (True, DecodedInstr_zero\<lparr>d_raw := 0xD65F03C0, d_category := BRANCH, d_opcode := 0x53, d_rn := 30\<rparr>)"
  by code_simp

lemma ret_block_runs:
  assumes "jit_entry p ctx st" "i_op r = Op_RET"
  shows "\<exists>st'. x86_exec fl (block_asm fall [r]) st = Some (True, st') \<and> jit_exit p (ctx\<lparr>ctx_pc := ctx_lr ctx\<rparr>) st st'"
proof -
  have "lower_asm fall r = [Load RAX R12 264, Store R12 CTX_PC_OFFSET RAX, Ret]" using assms(2) by (simp add: lower_asm_def)
  then have "jit_runs fl (concat (map (lower_asm fall) [r]) @ block_ret_asm fall) True (\<lambda>(x, ws). (ws ! 33, ws[32 := ws ! 33]))"
    using jit_runs_returned [OF jit_runs_ret_lr, of fl "block_ret_asm fall"] by simp
  moreover have "ctx_wf ctx" using assms(1) by (simp add: jit_entry_def)
  ultimately show ?thesis using assms(1) by (rule_tac block_asm_runs) (auto simp: int_words_simps)
qed

section \<open>Properties\<close>

text \<open>C6: Translated CBZ and CBNZ do not look at their register.  On a processor with the documented
  zero flag of SHL, the code of such a block branches exactly when bit 7 of the host register \<open>R9\<close>, which
  the translated code never sets, is 0 (CBZ) or 1 (CBNZ) on entry; all other integer registers
  of the guest are kept.\<close>

theorem compare_branch_follows_r9:
  assumes "d_opcode d \<in> {0x55, 0x56}" and "d_rn d < 32" and "shl_sets_zero fl" and "jit_entry p ctx st"
    and "emitter_wf e" and "266 \<le> emit_room e"
  shows "\<exists>e' code st'. lower_block (optimize (snd (build [d] 1 pc IRBlock_init))) fall e = Some (True, e') \<and>
    emitted e' = emitted e @ code \<and> x86_run fl (length code) code st = Some st' \<and>
    int_slots p (xs_host st') = (int_words ctx)[32 :=
      (if bit (xs_reg st R9) 7 = (d_opcode d = 0x56) then pc + ucast (d_branch_offset d) else fall)]"
proof -
  let ?block = "optimize (snd (build [d] 1 pc IRBlock_init))" let ?r = "ucast (d_rn d) :: IRReg"
  define c where "c = IRInst_init\<lparr>i_size := (if d_size d \<noteq> 0 then 8 else 4), i_op := Op_CMP, i_src1 := ?r, i_src2 := IR_NONE,
    i_imm := 0, i_flags_set := True\<rparr>"
  define j where "j = IRInst_init\<lparr>i_op := Op_JMP_COND, i_flags_used := True, i_imm := pc + ucast (d_branch_offset d),
    i_cond := (if d_opcode d = 0x55 then 0 else 1)\<rparr>"
  have r: "?r < 32" using assms(2) by (simp add: word_less_nat_alt unsigned_ucast_eq take_bit_nat_eq_self)
  have cj: "b_instructions ?block = [c, j]" using build_compare_branch [OF assms(1)] by (simp add: c_def j_def)
  have enc: "encodable c" "i_op j = Op_JMP_COND" by (simp_all add: c_def j_def encodable_def)
  obtain e' pre where e': "lower_block ?block fall e = Some (True, e')"
      "decodes_to pre (MovRR R12 RDI # lower_asm fall c)"
      "emitted e' = emitted e @ pre @ jmp_cond_bytes fall j @ block_ret_bytes fall"
    using compare_block_emits [OF cj enc assms(5,6)] by blast
  have asm: "lower_asm fall c = [ld_asm ?r RAX, AluImm X_CMP RAX 0] @ nzcv_asm"
    by (simp add: lower_asm_def c_def)
  obtain st1 st2 where s: "x86_exec fl (MovRR R12 RDI # lower_asm fall c) st = Some (False, st1)" "jit_ready p st1"
      "int_slots p (xs_host st1) = int_words ctx" "xs_flags st1 = fl (ShiftImm X_SHL R9 28) st2"
      "xs_reg st2 R9 = drop_bit 7 (xs_reg st R9) AND 1"
    using compare_code_runs [OF assms(4) r, of fl 0] unfolding asm by blast
  have z: "bit (xs_flags st1) 6 \<longleftrightarrow> \<not> bit (xs_reg st R9) 7"
  proof -
    have "bit (xs_flags st1) 6 \<longleftrightarrow> x86_shift X_SHL (drop_bit 7 (xs_reg st R9) AND 1) 28 = 0"
      using assms(3) by (simp add: shl_sets_zero_def s(4,5))
    moreover have "drop_bit 7 (xs_reg st R9) AND 1 = of_bool (bit (xs_reg st R9) 7)"
      by (simp add: bit_iff_odd_drop_bit and_one_eq odd_iff_mod_2_eq_one)
    ultimately show ?thesis by (simp add: x86_shift_def)
  qed
  let ?code = "pre @ jmp_cond_bytes fall j @ block_ret_bytes fall"
  have "length (MovRR R12 RDI # lower_asm fall c) \<le> length pre" by (rule decodes_to_length [OF e'(2)])
  then obtain n where n: "length ?code = length (MovRR R12 RDI # lower_asm fall c) + n" "44 \<le> n"
    by (intro that [of "length ?code - length (MovRR R12 RDI # lower_asm fall c)"]) simp_all
  obtain st' where run: "x86_run fl n (jmp_cond_bytes fall j @ block_ret_bytes fall) st1 = Some st'"
      "int_slots p (xs_host st') = (int_words ctx)[32 :=
        (if cc_holds (arm_cond_to_x86 (i_cond j) XOR 1) (xs_flags st1) then fall else i_imm j)]"
    using jmp_cond_runs [OF s(2) n(2), of fl fall j "block_ret_bytes fall"] s(3) by auto
  have "x86_run fl (length ?code) ?code st = Some st'"
    unfolding n(1) using x86_run_prefix [OF e'(2) s(1)] run(1) by simp
  moreover have "cc_holds (arm_cond_to_x86 (i_cond j) XOR 1) (xs_flags st1) \<longleftrightarrow> bit (xs_reg st R9) 7 \<noteq> (d_opcode d = 0x56)"
    using z assms(1) by (auto simp: cc_holds_def j_def arm_cond_to_x86_def cc_defs)
  moreover have "i_imm j = pc + ucast (d_branch_offset d)" by (simp add: j_def)
  ultimately show ?thesis using e'(1,3) run(2) by (intro exI [of _ e'] exI [of _ ?code] exI [of _ st']) auto
qed

text \<open>The witness: \<open>x2\<close> is 0, so CBZ x2 has to branch to 0x1008, but \<open>R9\<close> is 128 and the code
  falls through to 0x1004.\<close>

definition zero_flag_only :: flag_sem where
  "zero_flag_only i st = (case i of ShiftImm op r k \<Rightarrow> if x86_shift op (xs_reg st r) k = 0 then 64 else 0 | _ \<Rightarrow> 0)"

theorem compare_branch_follows_r9_witness:
  "\<exists>e' st'. lower_block (optimize (snd (build [DecodedInstr_zero\<lparr>d_opcode := 0x55, d_rn := 2, d_branch_offset := 8\<rparr>] 1 0x1000
       IRBlock_init))) 0x1004 (set_buffer (Some (replicate 1000 0)) 1000 X86_64Emitter_init) = Some (True, e') \<and>
     x86_run zero_flag_only (length (emitted e')) (emitted e') (demo_x86\<lparr>xs_reg := (xs_reg demo_x86)(R9 := 128)\<rparr>) = Some st' \<and>
     get_slot 0x10000 2 (xs_host st') = 0 \<and> get_slot 0x10000 32 (xs_host st') = 0x1004"
proof -
  let ?d = "DecodedInstr_zero\<lparr>d_opcode := 0x55, d_rn := 2, d_branch_offset := 8\<rparr>"
  let ?e = "set_buffer (Some (replicate 1000 0)) 1000 X86_64Emitter_init"
  let ?st = "demo_x86\<lparr>xs_reg := (xs_reg demo_x86)(R9 := 128)\<rparr>"
  have "R9 \<noteq> RDI" "R9 \<noteq> RSP" by (simp_all add: reg_defs)
  then have entry: "jit_entry 0x10000 CPUContext_init ?st" using demo_jit_entry by (simp add: jit_entry_def)
  have flag: "shl_sets_zero zero_flag_only" by (simp add: shl_sets_zero_def zero_flag_only_def)
  have e: "emitter_wf ?e" "266 \<le> emit_room ?e" "emitted ?e = []"
    by (simp_all add: emitter_view set_buffer_def X86_64Emitter_init_def)
  obtain e' st' where r: "lower_block (optimize (snd (build [?d] 1 0x1000 IRBlock_init))) 0x1004 ?e = Some (True, e')"
      "x86_run zero_flag_only (length (emitted e')) (emitted e') ?st = Some st'"
      "int_slots 0x10000 (xs_host st') = (int_words CPUContext_init)[32 := 0x1004]"
    using compare_branch_follows_r9 [OF _ _ flag entry e(1,2), of ?d "0x1000" "0x1004"] e(3) by (auto simp: bit_numeral_rec)
  have "int_slots 0x10000 (xs_host st') ! 2 = 0" "int_slots 0x10000 (xs_host st') ! 32 = 0x1004"
    unfolding r(3) by (simp_all add: int_words_def CPUContext_init_def nth_append)
  with r(1,2) show ?thesis by (auto simp: int_slots_nth)
qed

text \<open>C7: A translated RET does not return to register 30.  The word RET is executed by the interpreter as the
  architecture has it, a jump to register 30; its machine code jumps to the field \<open>lr\<close> of the context and
  leaves all else as it is.  The two agree only where \<open>lr\<close> and register 30 are equal, and no instruction sets
  \<open>lr\<close>: a call stores the return address in register 30 alone.\<close>

theorem ret_follows_lr:
  assumes "d = snd (decode 0xD65F03C0)" and "jit_entry p ctx st" and "emitter_wf e" and "222 \<le> emit_room e"
  shows "execute_decoded d mm ctx h = Some (ctx\<lparr>ctx_pc := ctx_x ctx ! 30\<rparr>, h) \<and>
    (\<exists>e' code st'. lower_block (optimize (snd (build [d] 1 pc IRBlock_init))) fall e = Some (True, e') \<and>
       emitted e' = emitted e @ code \<and> x86_run fl (length code) code st = Some st' \<and>
       jit_exit p (ctx\<lparr>ctx_pc := ctx_lr ctx\<rparr>) st st')"
proof -
  have d: "d = DecodedInstr_zero\<lparr>d_raw := 0xD65F03C0, d_category := BRANCH, d_opcode := 0x53, d_rn := 30\<rparr>"
    using assms(1) by (simp add: decode_ret)
  have i: "execute_decoded d mm ctx h = Some (ctx\<lparr>ctx_pc := ctx_x ctx ! 30\<rparr>, h)"
    by (simp add: d execute_decoded_def exec_data_def exec_memory_def exec_branch_def get_x_def Let_def)
  let ?block = "optimize (snd (build [d] 1 pc IRBlock_init))"
  have "\<exists>r. b_instructions ?block = [r] \<and> i_op r = Op_RET"
    unfolding build_single by (simp add: d instr_ir_eval IRBlock_init_def merge_reference_def merged_flags_def)
  then obtain r where r: "b_instructions ?block = [r]" "i_op r = Op_RET" by blast
  then have "\<forall>j\<in>set (b_instructions ?block). encodable j" by (simp add: encodable_def)
  then obtain f where f: "assembles f 222 (block_asm fall [r])" "\<And>e. lower_block ?block fall e = Some (True, f e)"
    using lower_block_assembles [of ?block fall] r(1) unfolding assembles_opt_def by auto
  obtain code where code: "emitted (f e) = emitted e @ code" "decodes_to code (block_asm fall [r])"
    using assembles_emitted [OF f(1) assms(3,4)] by blast
  obtain st' where "x86_exec fl (block_asm fall [r]) st = Some (True, st')" "jit_exit p (ctx\<lparr>ctx_pc := ctx_lr ctx\<rparr>) st st'"
    using ret_block_runs [OF assms(2) r(2)] by blast
  with x86_run_exec [OF code(2) this(1) order_refl, of "[]"] i f(2) code(1) show ?thesis by auto
qed

text \<open>The witness: after a call, register 30 is 0x1004 and \<open>lr\<close> is still 0.  The interpreter returns to
  0x1004, the translated code to 0.\<close>

theorem ret_follows_lr_witness:
  "\<exists>ctx ctx' e' st'.
     execute_decoded (snd (decode 0x94000400)) MemoryManager_init (CPUContext_init\<lparr>ctx_pc := 0x1000\<rparr>) demo_host = Some (ctx, demo_host) \<and>
     execute_decoded (snd (decode 0xD65F03C0)) MemoryManager_init ctx demo_host = Some (ctx', demo_host) \<and> ctx_pc ctx' = 0x1004 \<and>
     lower_block (optimize (snd (build [snd (decode 0xD65F03C0)] 1 0x2000 IRBlock_init))) 0x2004
       (set_buffer (Some (replicate 1000 0)) 1000 X86_64Emitter_init) = Some (True, e') \<and>
     x86_run (\<lambda>_ _. 2) (length (emitted e')) (emitted e') (demo_x86\<lparr>xs_host := store_ctx 0x10000 ctx demo_host\<rparr>) = Some st' \<and>
     get_slot 0x10000 32 (xs_host st') = 0"
proof -
  let ?ctx = "CPUContext_init\<lparr>ctx_x := (replicate 31 0)[30 := 0x1004], ctx_pc := 0x2000\<rparr>"
  let ?st = "demo_x86\<lparr>xs_host := store_ctx 0x10000 ?ctx demo_host\<rparr>"
  let ?e = "set_buffer (Some (replicate 1000 0)) 1000 X86_64Emitter_init"
  have "decode 0x94000400 = (True, DecodedInstr_zero\<lparr>d_raw := 0x94000400, d_category := BRANCH, d_opcode := 0x51, d_branch_offset := 0x1000\<rparr>)"
    by code_simp
  then have bl: "execute_decoded (snd (decode 0x94000400)) MemoryManager_init (CPUContext_init\<lparr>ctx_pc := 0x1000\<rparr>) demo_host = Some (?ctx, demo_host)"
    by (simp add: execute_decoded_def exec_data_def exec_memory_def exec_branch_def set_x_def branch_by_def CPUContext_init_def
      DecodedInstr_zero_def Let_def)
  have "disjoint_ranges 0x7FF8 8 0x10000 832" by (rule disjoint_rangesI) simp_all
  then have "host_ready demo_x86 demo_host"
    by (simp add: host_ready_def demo_writable) (simp add: demo_x86_def reg_defs)
  moreover have wf: "ctx_wf ?ctx" by (simp add: ctx_wf_def CPUContext_init_def)
  ultimately have entry: "jit_entry 0x10000 ?ctx ?st"
    using x86_host_entry [of demo_x86 demo_host ?ctx] by (simp add: demo_x86_def reg_defs)
  have e: "emitter_wf ?e" "222 \<le> emit_room ?e" "emitted ?e = []"
    by (simp_all add: emitter_view set_buffer_def X86_64Emitter_init_def)
  obtain e' st' where r: "execute_decoded (snd (decode 0xD65F03C0)) MemoryManager_init ?ctx demo_host = Some (?ctx\<lparr>ctx_pc := ctx_x ?ctx ! 30\<rparr>, demo_host)"
      "lower_block (optimize (snd (build [snd (decode 0xD65F03C0)] 1 0x2000 IRBlock_init))) 0x2004 ?e = Some (True, e')"
      "x86_run (\<lambda>_ _. 2) (length (emitted e')) (emitted e') ?st = Some st'" "jit_exit 0x10000 (?ctx\<lparr>ctx_pc := ctx_lr ?ctx\<rparr>) ?st st'"
    using ret_follows_lr [OF HOL.refl entry e(1,2), of MemoryManager_init demo_host "0x2000" "0x2004" "\<lambda>_ _. 2"] e(3) by auto
  have "int_words (?ctx\<lparr>ctx_pc := ctx_lr ?ctx\<rparr>) ! 32 = 0" by (simp add: int_words_def CPUContext_init_def nth_append)
  with r(4) have "get_slot 0x10000 32 (xs_host st') = 0" by (simp add: jit_exit_def int_slots_nth)
  moreover have "ctx_pc (?ctx\<lparr>ctx_pc := ctx_x ?ctx ! 30\<rparr>) = 0x1004" by simp
  ultimately show ?thesis using bl r(1-3) by blast
qed

end
