(* ===== verification/Elf_Loader.thy ===== *)
theory Elf_Loader
  imports Memory_Manager
begin

text \<open>
  The ELF loader (\<^verbatim>\<open>src/src/elf/elf_loader.hpp\<close>, \<^verbatim>\<open>elf_loader.cpp\<close>): parsing of the file header
  and the program headers, and the mapping of the loadable segments into the guest.  The file is
  the list of its bytes; a read outside it is undefined behaviour, \<^const>\<open>None\<close>.  The offsets and
  constants are those of the system header \<^verbatim>\<open>elf.h\<close>.  What opening and mapping a file gives is a
  parameter; messages are left out.
\<close>

section \<open>The file format\<close>

definition PT_LOAD :: u32 where "PT_LOAD = 1"
definition PT_DYNAMIC :: u32 where "PT_DYNAMIC = 2"
definition PT_INTERP :: u32 where "PT_INTERP = 3"
definition PF_X :: u32 where "PF_X = 1"
definition PF_W :: u32 where "PF_W = 2"
definition PF_R :: u32 where "PF_R = 4"
definition EM_AARCH64 :: u16 where "EM_AARCH64 = 183"
definition ELFCLASS64 :: u8 where "ELFCLASS64 = 2"
definition sizeof_Ehdr :: nat where "sizeof_Ehdr = 64"

lemmas elf_defs = PT_LOAD_def PT_DYNAMIC_def PT_INTERP_def PF_X_def PF_W_def PF_R_def EM_AARCH64_def
  ELFCLASS64_def sizeof_Ehdr_def

definition field :: "u8 list \<Rightarrow> nat \<Rightarrow> nat \<Rightarrow> 'a::len word option" where
  "field data off n = (if off + n \<le> length data then Some (le_word (take n (drop off data))) else None)"

section \<open>Data\<close>

record ELFInfo =
  ei_entry_point :: u64
  ei_phdr_addr :: u64
  ei_phdr_offset :: u64
  ei_phnum :: u16
  ei_phentsize :: u16
  ei_base_addr :: u64
  ei_is_dynamic :: bool
  ei_dynamic_addr :: u64
  ei_interp :: "u8 list"

record ELFProgramHeader =
  ph_type :: u32
  ph_flags :: u32
  ph_offset :: u64
  ph_vaddr :: u64
  ph_paddr :: u64
  ph_filesz :: u64
  ph_memsz :: u64
  ph_align :: u64

section \<open>Parsing\<close>

definition read_phdr :: "u8 list \<Rightarrow> nat \<Rightarrow> ELFProgramHeader option" where
  "read_phdr data off = do {
     t \<leftarrow> field data off 4; fl \<leftarrow> field data (off + 4) 4; o' \<leftarrow> field data (off + 8) 8;
     va \<leftarrow> field data (off + 16) 8; pa \<leftarrow> field data (off + 24) 8; fs \<leftarrow> field data (off + 32) 8;
     ms \<leftarrow> field data (off + 40) 8; al \<leftarrow> field data (off + 48) 8;
     Some \<lparr>ph_type = t, ph_flags = fl, ph_offset = o', ph_vaddr = va, ph_paddr = pa,
           ph_filesz = fs, ph_memsz = ms, ph_align = al\<rparr> }"

text \<open>Header \<open>i\<close> is read at \<open>e_phoff + i * e_phentsize\<close>; the product is an \<open>int\<close>.\<close>

fun read_phdrs :: "u8 list \<Rightarrow> nat \<Rightarrow> nat \<Rightarrow> nat \<Rightarrow> nat \<Rightarrow> ELFProgramHeader list option" where
  "read_phdrs data phoff entsize i 0 = Some []"
| "read_phdrs data phoff entsize i (Suc n) =
     (if i * entsize \<ge> 2 ^ 31 then None
      else do {
        ph \<leftarrow> read_phdr data (phoff + i * entsize);
        phs \<leftarrow> read_phdrs data phoff entsize (Suc i) n;
        Some (ph # phs) })"

text \<open>The first loop: the lowest address of a loadable segment.\<close>

fun min_load_vaddr :: "ELFProgramHeader list \<Rightarrow> u64 \<Rightarrow> u64" where
  "min_load_vaddr [] m = m"
| "min_load_vaddr (ph # phs) m =
     min_load_vaddr phs (if ph_type ph = PT_LOAD \<and> ph_vaddr ph < m then ph_vaddr ph else m)"

text \<open>A C string in the file: the bytes up to the first zero.\<close>

definition c_string :: "u8 list \<Rightarrow> nat \<Rightarrow> u8 list option" where
  "c_string data off = (let rest = drop off data in
     if 0 \<in> set rest then Some (takeWhile (\<lambda>b. b \<noteq> 0) rest) else None)"

text \<open>The second loop: what the headers record in the result.\<close>

fun scan_phdrs :: "u8 list \<Rightarrow> ELFProgramHeader list \<Rightarrow> ELFInfo \<Rightarrow> ELFInfo option" where
  "scan_phdrs data [] info = Some info"
| "scan_phdrs data (ph # phs) info = do {
     let info = (if ph_type ph = PT_DYNAMIC
                 then info\<lparr>ei_is_dynamic := True, ei_dynamic_addr := ph_vaddr ph\<rparr> else info);
     info \<leftarrow> (if ph_type ph = PT_INTERP
             then map_option (\<lambda>s. info\<lparr>ei_interp := s\<rparr>) (c_string data (unat (ph_offset ph))) else Some info);
     scan_phdrs data phs info }"

definition elf_magic :: "u8 list \<Rightarrow> bool" where
  "elf_magic data \<longleftrightarrow> take 4 data = [0x7F, 0x45, 0x4C, 0x46]"

text \<open>\<open>parse\<close>: the result, the filled-in information and the loader's list of headers.\<close>

definition parse :: "u8 list \<Rightarrow> ELFInfo \<Rightarrow> ELFProgramHeader list \<Rightarrow> (bool \<times> ELFInfo \<times> ELFProgramHeader list) option" where
  "parse data info phdrs =
     (if length data < sizeof_Ehdr then Some (False, info, phdrs)
      else if \<not> elf_magic data then Some (False, info, phdrs)
      else do {
        machine \<leftarrow> field data 18 2;
        if machine \<noteq> EM_AARCH64 then Some (False, info, phdrs)
        else if data ! 4 \<noteq> ELFCLASS64 then Some (False, info, phdrs)
        else do {
          entry \<leftarrow> field data 24 8; phoff \<leftarrow> field data 32 8; phentsize \<leftarrow> field data 54 2; phnum \<leftarrow> field data 56 2;
          phs \<leftarrow> read_phdrs data (unat (phoff :: u64)) (unat (phentsize :: u16)) 0 (unat (phnum :: u16));
          info \<leftarrow> scan_phdrs data phs (info\<lparr>ei_entry_point := entry, ei_phdr_offset := phoff, ei_phnum := phnum,
             ei_phentsize := phentsize, ei_is_dynamic := False, ei_dynamic_addr := 0,
             ei_base_addr := min_load_vaddr phs (- 1)\<rparr>);
          Some (True, info, phs) } })"

section \<open>Loading\<close>

definition segment_prot :: "ELFProgramHeader \<Rightarrow> u32" where
  "segment_prot ph =
     (if ph_flags ph AND PF_R \<noteq> 0 then PROT_READ else 0) OR
     (if ph_flags ph AND PF_W \<noteq> 0 then PROT_WRITE else 0) OR
     (if ph_flags ph AND PF_X \<noteq> 0 then PROT_EXEC else 0)"

definition seg_page :: "ELFProgramHeader \<Rightarrow> u64" where
  "seg_page ph = ph_vaddr ph AND NOT 4095"

definition seg_offset :: "ELFProgramHeader \<Rightarrow> u64" where
  "seg_offset ph = ph_vaddr ph AND 4095"

definition seg_map_size :: "ELFProgramHeader \<Rightarrow> u64" where
  "seg_map_size ph = (seg_offset ph + ph_memsz ph + 4095) AND NOT 4095"

text \<open>\<open>memcpy\<close> from the file and \<open>memset\<close> to zero.\<close>

definition copy_from_file :: "u8 list \<Rightarrow> u64 \<Rightarrow> u64 \<Rightarrow> u64 \<Rightarrow> host \<Rightarrow> host option" where
  "copy_from_file data dst off n h =
     (if unat off + unat n \<le> length data then host_write h dst (take (unat n) (drop (unat off) data)) else None)"

definition host_zero :: "u64 \<Rightarrow> u64 \<Rightarrow> host \<Rightarrow> host option" where
  "host_zero dst n h = host_write h dst (replicate (unat n) 0)"

definition load_segment :: "os \<Rightarrow> u8 list \<Rightarrow> ELFProgramHeader \<Rightarrow> MemoryManager \<Rightarrow> host \<Rightarrow> (bool \<times> MemoryManager \<times> host) option" where
  "load_segment os data ph mm h =
    (let prot = segment_prot ph; page = seg_page ph; offset = seg_offset ph; map_size = seg_map_size ph;
         load_prot = prot OR PROT_WRITE;
         (mapped, mm, h) = mm_mmap os map_size load_prot page mm h
     in if mapped = 0 then Some (False, mm, h)
        else do {
          h \<leftarrow> (if ph_filesz ph > 0 then copy_from_file data (page + offset) (ph_offset ph) (ph_filesz ph) h else Some h);
          h \<leftarrow> (if ph_memsz ph > ph_filesz ph
               then host_zero (page + offset + ph_filesz ph) (ph_memsz ph - ph_filesz ph) h else Some h);
          h \<leftarrow> (if offset > 0 then host_zero page offset h else Some h);
          if prot \<noteq> load_prot
          then let (_, mm, h) = mm_mprotect os page map_size prot mm h in Some (True, mm, h)
          else Some (True, mm, h) })"

fun load_segments :: "os \<Rightarrow> u8 list \<Rightarrow> ELFProgramHeader list \<Rightarrow> MemoryManager \<Rightarrow> host \<Rightarrow> (bool \<times> MemoryManager \<times> host) option" where
  "load_segments os data [] mm h = Some (True, mm, h)"
| "load_segments os data (ph # phs) mm h =
     (if ph_type ph \<noteq> PT_LOAD then load_segments os data phs mm h
      else do {
        (ok, mm, h) \<leftarrow> load_segment os data ph mm h;
        if \<not> ok then Some (False, mm, h) else load_segments os data phs mm h })"

text \<open>\<open>map_file\<close>: the bytes of the file, \<^const>\<open>None\<close> when it cannot be opened or mapped.\<close>

definition elf_load :: "os \<Rightarrow> (string \<Rightarrow> u8 list option) \<Rightarrow> string \<Rightarrow> ELFInfo \<Rightarrow> ELFProgramHeader list \<Rightarrow>
    MemoryManager \<Rightarrow> host \<Rightarrow> (bool \<times> ELFInfo \<times> ELFProgramHeader list \<times> MemoryManager \<times> host) option" where
  "elf_load os map_file path info phdrs mm h = (case map_file path of
      None \<Rightarrow> Some (False, info, phdrs, mm, h)
    | Some data \<Rightarrow> do {
        (ok, info, phdrs) \<leftarrow> parse data info phdrs;
        if \<not> ok then Some (False, info, phdrs, mm, h)
        else do {
          (ok, mm, h) \<leftarrow> load_segments os data phdrs mm h;
          Some (ok, info, phdrs, mm, h) } })"

definition elf_load_library :: "os \<Rightarrow> (string \<Rightarrow> u8 list option) \<Rightarrow> string \<Rightarrow> ELFInfo \<Rightarrow> u64 \<Rightarrow> ELFProgramHeader list \<Rightarrow>
    MemoryManager \<Rightarrow> host \<Rightarrow> (bool \<times> ELFInfo \<times> ELFProgramHeader list \<times> MemoryManager \<times> host) option" where
  "elf_load_library os map_file path info base_hint phdrs mm h = elf_load os map_file path info phdrs mm h"

definition load_interp :: "string \<Rightarrow> string \<Rightarrow> bool \<times> string" where
  "load_interp path out = (False, out)"

section \<open>What parsing finds\<close>

lemma read_phdrs_result:
  "read_phdrs data phoff entsize i n = Some phs \<Longrightarrow>
   length phs = n \<and> (\<forall>k<n. read_phdr data (phoff + (i + k) * entsize) = Some (phs ! k))"
proof (induction n arbitrary: i phs)
  case (Suc n)
  then obtain ph phs' where r: "read_phdr data (phoff + i * entsize) = Some ph" "phs = ph # phs'"
      "read_phdrs data phoff entsize (Suc i) n = Some phs'"
    by (auto split: if_splits Option.bind_splits)
  from Suc.IH [OF r(3)] have "length phs' = n"
      "\<And>k. k < n \<Longrightarrow> read_phdr data (phoff + (i + Suc k) * entsize) = Some (phs' ! k)" by auto
  with r show ?case by (auto simp: less_Suc_eq_0_disj)
qed simp

lemma min_load_vaddr_result:
  "min_load_vaddr phs m \<le> m \<and> (\<forall>ph\<in>set phs. ph_type ph = PT_LOAD \<longrightarrow> min_load_vaddr phs m \<le> ph_vaddr ph) \<and>
   (min_load_vaddr phs m = m \<or> (\<exists>ph\<in>set phs. ph_type ph = PT_LOAD \<and> ph_vaddr ph = min_load_vaddr phs m))"
proof (induction phs arbitrary: m)
  case (Cons ph phs)
  show ?case
    using Cons.IH [of "if ph_type ph = PT_LOAD \<and> ph_vaddr ph < m then ph_vaddr ph else m"]
    by (auto split: if_splits)
qed simp

lemma scan_phdrs_result:
  "scan_phdrs data phs info = Some info' \<Longrightarrow>
   ei_entry_point info' = ei_entry_point info \<and> ei_phdr_offset info' = ei_phdr_offset info \<and>
   ei_phnum info' = ei_phnum info \<and> ei_phentsize info' = ei_phentsize info \<and> ei_base_addr info' = ei_base_addr info \<and>
   (ei_is_dynamic info' \<longleftrightarrow> ei_is_dynamic info \<or> (\<exists>ph\<in>set phs. ph_type ph = PT_DYNAMIC))"
proof (induction phs arbitrary: info)
  case (Cons ph phs)
  then show ?case by (fastforce simp: elf_defs split: if_splits Option.bind_splits)
qed simp

section \<open>What loading leaves in memory\<close>

lemma page_split: "(v AND NOT 4095) + (v AND 4095) = v" for v :: u64
proof -
  have "(v AND NOT 4095) + (v AND 4095) = (v AND NOT 4095) OR (v AND 4095)"
    by (rule disjunctive_add) (auto simp: bit_simps)
  also have "\<dots> = v" by (rule bit_word_eqI) (auto simp: bit_simps)
  finally show ?thesis .
qed

lemma seg_parts: "seg_page ph + seg_offset ph = ph_vaddr ph"
  unfolding seg_page_def seg_offset_def by (rule page_split)

lemma seg_page_eq: "ph_vaddr ph - seg_offset ph = seg_page ph"
  using seg_parts [of ph] by (simp add: algebra_simps)

lemma seg_offset_small: "unat (seg_offset ph) < 4096"
  using word_and_le1 [of "ph_vaddr ph" 4095] by (simp add: seg_offset_def word_le_nat_alt)

lemma seg_offset_le: "unat (seg_offset ph) \<le> unat (ph_vaddr ph)"
  using word_and_le2 [of "ph_vaddr ph" 4095] by (simp add: seg_offset_def word_le_nat_alt and.commute)

lemma seg_map_size_align: "seg_map_size ph = page_align (seg_offset ph + ph_memsz ph)"
  by (simp add: seg_map_size_def page_align_def PAGE_SIZE_def add.commute)

text \<open>A segment the loader can place: not on page 0 (a zero hint asks for any place), inside the
  address space, and with its file part inside the file.\<close>

definition seg_ok :: "u8 list \<Rightarrow> ELFProgramHeader \<Rightarrow> bool" where
  "seg_ok data ph \<longleftrightarrow> seg_page ph \<noteq> 0 \<and> unat (ph_vaddr ph) + unat (ph_memsz ph) + 8192 \<le> 2 ^ 64 \<and>
     ph_filesz ph \<le> ph_memsz ph \<and> unat (ph_offset ph) + unat (ph_filesz ph) \<le> length data"

definition in_seg :: "ELFProgramHeader \<Rightarrow> u64 \<Rightarrow> bool" where
  "in_seg ph a \<longleftrightarrow> in_range a (seg_page ph) (seg_map_size ph)"

lemma unat_seg_map_size:
  assumes "seg_ok data ph"
  shows "unat (seg_map_size ph) = (unat (seg_offset ph) + unat (ph_memsz ph) + 4095) div 4096 * 4096"
proof -
  have le: "unat (seg_offset ph) + unat (ph_memsz ph) + 4095 < 2 ^ 64"
    using assms seg_offset_small [of ph] by (simp add: seg_ok_def)
  then have "unat (seg_offset ph + ph_memsz ph) = unat (seg_offset ph) + unat (ph_memsz ph)"
    by (subst unat_plus_if') simp
  then show ?thesis unfolding seg_map_size_align using le by (subst unat_page_align) simp_all
qed

lemma page_align_seg:
  assumes "seg_ok data ph"
  shows "page_align (seg_map_size ph) = seg_map_size ph"
proof -
  let ?n = "(unat (seg_offset ph) + unat (ph_memsz ph) + 4095) div 4096"
  have "?n * 4096 \<le> unat (seg_offset ph) + unat (ph_memsz ph) + 4095" by (rule div_times_less_eq_dividend)
  moreover have "unat (seg_offset ph) + unat (ph_memsz ph) + 4095 + 4095 < 2 ^ 64"
    using assms seg_offset_le [of ph] by (simp add: seg_ok_def)
  ultimately have "?n * 4096 + 4095 < 2 ^ 64" by linarith
  then have "unat (page_align (seg_map_size ph)) = (?n * 4096 + 4095) div 4096 * 4096"
    using unat_page_align [of "seg_map_size ph"] by (simp only: unat_seg_map_size [OF assms])
  moreover have "(m * 4096 + 4095) div 4096 = m" for m :: nat by presburger
  ultimately have "unat (page_align (seg_map_size ph)) = unat (seg_map_size ph)"
    by (simp only: unat_seg_map_size [OF assms])
  then show ?thesis by (rule unsigned_word_eqI)
qed

text \<open>A write seen from a base address.\<close>

lemma host_write_at:
  assumes "host_write h (p + of_nat i) bs = Some h'" "i + length bs \<le> n" "k < n" "n < 2 ^ 64"
  shows "h_byte h' (p + of_nat k) =
    (if i \<le> k \<and> k < i + length bs then bs ! (k - i) else h_byte h (p + of_nat k))"
proof -
  let ?as = "addrs (p + of_nat i) (length bs)"
  have h': "h_byte h' = upd_all ?as bs (h_byte h)" using assms(1) by (auto simp: host_write_def split: if_splits)
  have inj: "(of_nat a :: u64) = of_nat b \<longleftrightarrow> a = b" if "a < n" "b < n" for a b
    using that assms(4) by (simp add: word_of_nat_eq_iff take_bit_nat_eq_self)
  show ?thesis
  proof (cases "i \<le> k \<and> k < i + length bs")
    case True
    then have "k - i < length bs" by auto
    with True have nth: "?as ! (k - i) = p + of_nat k" by (simp add: addrs_def of_nat_diff)
    have "map (upd_all ?as bs (h_byte h)) ?as = bs"
      using assms(2,4) by (intro upd_all_same distinct_addrs) simp_all
    then have "map (upd_all ?as bs (h_byte h)) ?as ! (k - i) = bs ! (k - i)" by simp
    moreover have "k - i < length ?as" using True by auto
    ultimately show ?thesis using True nth by (simp add: h')
  next
    case False
    have "p + of_nat k \<notin> set ?as"
    proof
      assume "p + of_nat k \<in> set ?as"
      then obtain j where j: "j < length bs" "p + of_nat k = p + of_nat i + of_nat j" by (auto simp: addrs_def)
      from j(2) have "(of_nat k :: u64) = of_nat (i + j)" by (simp add: add.assoc)
      then have "k = i + j" using inj [of k "i + j"] assms(2,3) j(1) by simp
      with j(1) False show False by simp
    qed
    then show ?thesis using False by (auto simp: h' upd_all_other)
  qed
qed

lemma host_write_grants:
  assumes "\<And>a. a \<in> set (addrs p (length bs)) \<Longrightarrow> can_write h a"
  shows "\<exists>h'. host_write h p bs = Some h' \<and> h_prot h' = h_prot h \<and>
    (\<forall>a. a \<notin> set (addrs p (length bs)) \<longrightarrow> h_byte h' a = h_byte h a)"
  using assms by (simp add: host_write_def list_all_iff upd_all_other)

definition os_grants :: "os \<Rightarrow> bool" where
  "os_grants os \<longleftrightarrow> (\<forall>a n p. os_mmap os a n p) \<and> (\<forall>a n p. os_mprotect os a n p = 0)"

text \<open>The bytes a segment should have, by their offset from its first page: the file part in
  place, zero around it.\<close>

definition seg_byte :: "u8 list \<Rightarrow> ELFProgramHeader \<Rightarrow> nat \<Rightarrow> u8" where
  "seg_byte data ph k =
     (let off = unat (seg_offset ph)
      in if off \<le> k \<and> k < off + unat (ph_filesz ph) then data ! (unat (ph_offset ph) + (k - off)) else 0)"

definition seg_image :: "u8 list \<Rightarrow> ELFProgramHeader \<Rightarrow> host \<Rightarrow> bool" where
  "seg_image data ph h \<longleftrightarrow> (\<forall>k<unat (seg_map_size ph).
     h_byte h (seg_page ph + of_nat k) = seg_byte data ph k \<and>
     h_prot h (seg_page ph + of_nat k) = Some (segment_prot ph))"

text \<open>The state while a segment is filled: its pages writable with bytes \<open>g\<close>, the rest as in \<open>h\<close>.\<close>

definition filling :: "ELFProgramHeader \<Rightarrow> (nat \<Rightarrow> u8) \<Rightarrow> host \<Rightarrow> host \<Rightarrow> bool" where
  "filling ph g h h' \<longleftrightarrow>
     (\<forall>k<unat (seg_map_size ph). h_byte h' (seg_page ph + of_nat k) = g k) \<and>
     (\<forall>a. h_prot h' a = (if in_seg ph a then Some (segment_prot ph OR PROT_WRITE) else h_prot h a)) \<and>
     (\<forall>a. \<not> in_seg ph a \<longrightarrow> h_byte h' a = h_byte h a)"

lemma in_seg_index: "k < unat (seg_map_size ph) \<Longrightarrow> in_seg ph (seg_page ph + of_nat k)"
  using unat_u64_less [of "seg_map_size ph"]
  by (simp add: in_seg_def in_range_def word_less_nat_alt unsigned_of_nat take_bit_nat_eq_self)

lemma or_write_and: "(x OR PROT_WRITE) AND PROT_WRITE \<noteq> 0"
proof -
  have "bit ((x OR PROT_WRITE) AND PROT_WRITE) 1" by (simp add: PROT_WRITE_def bit_simps)
  then show ?thesis by auto
qed

lemma filling_write:
  assumes "filling ph g h h1" "i + length bs \<le> unat (seg_map_size ph)"
  shows "\<exists>h2. host_write h1 (seg_page ph + of_nat i) bs = Some h2 \<and>
    filling ph (\<lambda>k. if i \<le> k \<and> k < i + length bs then bs ! (k - i) else g k) h h2"
proof -
  have seg: "in_seg ph a" if a: "a \<in> set (addrs (seg_page ph + of_nat i) (length bs))" for a
  proof -
    from a obtain k where "k < length bs" "a = seg_page ph + of_nat (i + k)" by (auto simp: addrs_def add.assoc)
    with assms(2) show ?thesis using in_seg_index [of "i + k" ph] by simp
  qed
  then have "can_write h1 a" if "a \<in> set (addrs (seg_page ph + of_nat i) (length bs))" for a
    using that assms(1) or_write_and by (simp add: can_write_def filling_def)
  from host_write_grants [OF this] obtain h2 where h2: "host_write h1 (seg_page ph + of_nat i) bs = Some h2"
      "h_prot h2 = h_prot h1" "\<And>a. a \<notin> set (addrs (seg_page ph + of_nat i) (length bs)) \<Longrightarrow> h_byte h2 a = h_byte h1 a"
    by blast
  have "h_byte h2 a = h_byte h1 a" if "\<not> in_seg ph a" for a using h2(3) seg that by blast
  with h2(1,2) assms host_write_at [OF h2(1) assms(2)] unat_u64_less [of "seg_map_size ph"] show ?thesis
    by (intro exI [of _ h2]) (simp add: filling_def)
qed

lemma filling_zero:
  assumes "filling ph g h h1" "i + n \<le> unat (seg_map_size ph)" "\<And>k. i \<le> k \<Longrightarrow> k < i + n \<Longrightarrow> g k = 0"
  shows "\<exists>h2. host_write h1 (seg_page ph + of_nat i) (replicate n 0) = Some h2 \<and> filling ph g h h2"
proof -
  have "(\<lambda>k. if i \<le> k \<and> k < i + length (replicate n (0 :: u8)) then replicate n 0 ! (k - i) else g k) = g"
    using assms(3) by (auto simp: fun_eq_iff)
  with filling_write [OF assms(1), of i "replicate n 0"] assms(2) show ?thesis by simp
qed

lemma round_up_ge: "m \<le> (m + 4095) div 4096 * 4096" for m :: nat
  using div_mult_mod_eq [of "m + 4095" 4096] mod_less_divisor [of 4096 "m + 4095"] by linarith

text \<open>Mapping a segment, copying its file part and clearing the rest leaves the bytes it should have.\<close>

lemma fill_segment:
  fixes ph :: ELFProgramHeader
  defines "p \<equiv> seg_page ph" and "lp \<equiv> segment_prot ph OR PROT_WRITE"
  assumes os: "os_grants os" and ok: "seg_ok data ph"
  obtains mm0 h0 h1 h2 where "mm_mmap os (seg_map_size ph) lp p mm h = (p, mm0, h0)"
    "(if ph_filesz ph > 0 then copy_from_file data (p + seg_offset ph) (ph_offset ph) (ph_filesz ph) h0 else Some h0) = Some h1"
    "(if ph_memsz ph > ph_filesz ph then host_zero (p + seg_offset ph + ph_filesz ph) (ph_memsz ph - ph_filesz ph) h1
      else Some h1) = Some h2"
    "filling ph (seg_byte data ph) h h2"
proof -
  let ?off = "unat (seg_offset ph)" let ?fs = "unat (ph_filesz ph)" let ?ms = "unat (ph_memsz ph)"
  let ?file = "take ?fs (drop (unat (ph_offset ph)) data)"
  define h0 where "h0 = host_map p (seg_map_size ph) lp h"
  obtain mm0 where m: "mm_mmap os (seg_map_size ph) lp p mm h = (p, mm0, h0)"
    using os ok page_align_seg [OF ok] by (simp add: mm_mmap_def os_grants_def seg_ok_def h0_def p_def Let_def)
  have f0: "filling ph (\<lambda>k. 0) h h0"
    using in_seg_index [of _ ph] by (auto simp: filling_def h0_def host_map_def in_seg_def p_def lp_def)
  have fs: "?fs \<le> ?ms" and fl: "unat (ph_offset ph) + ?fs \<le> length data"
    using ok by (simp_all add: seg_ok_def word_le_nat_alt)
  have n: "?off + ?ms \<le> unat (seg_map_size ph)"
    unfolding unat_seg_map_size [OF ok] by (rule round_up_ge)
  have ms: "unat (ph_memsz ph - ph_filesz ph) = ?ms - ?fs" using ok by (simp add: seg_ok_def unat_sub)
  have len: "length ?file = ?fs" using fl by simp
  have byte: "(\<lambda>k. if ?off \<le> k \<and> k < ?off + length ?file then ?file ! (k - ?off) else 0) = seg_byte data ph"
    using fl by (auto simp: fun_eq_iff seg_byte_def Let_def)
  obtain h1 where h1: "(if ph_filesz ph > 0 then copy_from_file data (p + seg_offset ph) (ph_offset ph) (ph_filesz ph) h0
      else Some h0) = Some h1" "filling ph (seg_byte data ph) h h1"
  proof (cases "ph_filesz ph > 0")
    case True
    with filling_write [OF f0, of ?off ?file] len fs n fl byte that show ?thesis
      by (auto simp: copy_from_file_def p_def)
  next
    case False
    then have "seg_byte data ph = (\<lambda>k. 0)" by (auto simp: seg_byte_def fun_eq_iff Let_def word_gt_0)
    with False f0 that show ?thesis by simp
  qed
  obtain h2 where h2: "(if ph_memsz ph > ph_filesz ph then host_zero (p + seg_offset ph + ph_filesz ph)
      (ph_memsz ph - ph_filesz ph) h1 else Some h1) = Some h2" "filling ph (seg_byte data ph) h h2"
    using filling_zero [OF h1(2), of "?off + ?fs" "?ms - ?fs"] h1(2) n fs ms
    by (cases "ph_memsz ph > ph_filesz ph") (auto simp: host_zero_def seg_byte_def Let_def add.assoc p_def)
  show thesis by (rule that [OF m h1(1) h2])
qed

text \<open>The protection a segment is given at the end.\<close>

lemma protect_segment:
  assumes "os_grants os" "filling ph (seg_byte data ph) h h3"
  obtains mm4 h4 where "(if segment_prot ph \<noteq> segment_prot ph OR PROT_WRITE
      then let (_, mm, h) = mm_mprotect os (seg_page ph) (seg_map_size ph) (segment_prot ph) mm h3 in Some (True, mm, h)
      else Some (True, mm, h3)) = Some (True, mm4, h4)"
    "seg_image data ph h4" "\<forall>a. \<not> in_seg ph a \<longrightarrow> h_byte h4 a = h_byte h a \<and> h_prot h4 a = h_prot h a"
proof -
  let ?lp = "segment_prot ph OR PROT_WRITE"
  obtain mm4 h4 where r: "(if segment_prot ph \<noteq> ?lp
      then let (_, mm, h) = mm_mprotect os (seg_page ph) (seg_map_size ph) (segment_prot ph) mm h3 in Some (True, mm, h)
      else Some (True, mm, h3)) = Some (True, mm4, h4)"
      "h4 = (if segment_prot ph \<noteq> ?lp then host_protect (seg_page ph) (seg_map_size ph) (segment_prot ph) h3 else h3)"
    using assms(1) by (cases "segment_prot ph = ?lp") (simp_all add: mm_mprotect_def os_grants_def Let_def)
  moreover have "seg_image data ph h4" "\<forall>a. \<not> in_seg ph a \<longrightarrow> h_byte h4 a = h_byte h a \<and> h_prot h4 a = h_prot h a"
    using assms(2) in_seg_index [of _ ph]
    by (auto simp: r(2) seg_image_def filling_def host_protect_def in_seg_def)
  ultimately show thesis using that by blast
qed

lemma load_segment_image:
  assumes "os_grants os" "seg_ok data ph"
  shows "\<exists>mm' h'. load_segment os data ph mm h = Some (True, mm', h') \<and> seg_image data ph h' \<and>
    (\<forall>a. \<not> in_seg ph a \<longrightarrow> h_byte h' a = h_byte h a \<and> h_prot h' a = h_prot h a)"
proof -
  let ?p = "seg_page ph" let ?off = "unat (seg_offset ph)"
  from assms obtain mm0 h0 h1 h2 where f: "mm_mmap os (seg_map_size ph) (segment_prot ph OR PROT_WRITE) ?p mm h = (?p, mm0, h0)"
    "(if ph_filesz ph > 0 then copy_from_file data (?p + seg_offset ph) (ph_offset ph) (ph_filesz ph) h0 else Some h0) = Some h1"
    "(if ph_memsz ph > ph_filesz ph then host_zero (?p + seg_offset ph + ph_filesz ph) (ph_memsz ph - ph_filesz ph) h1
      else Some h1) = Some h2"
    "filling ph (seg_byte data ph) h h2" by (rule fill_segment)
  have "?off \<le> unat (seg_map_size ph)"
    using unat_seg_map_size [OF assms(2)] round_up_ge [of "?off + unat (ph_memsz ph)"] by simp
  then obtain h3 where h3: "(if seg_offset ph > 0 then host_zero ?p (seg_offset ph) h2 else Some h2) = Some h3"
      "filling ph (seg_byte data ph) h h3"
    using filling_zero [OF f(4), of 0 ?off] f(4)
    by (cases "seg_offset ph > 0") (auto simp: host_zero_def seg_byte_def Let_def)
  obtain mm4 h4 where r: "(if segment_prot ph \<noteq> segment_prot ph OR PROT_WRITE
      then let (_, mm, h) = mm_mprotect os ?p (seg_map_size ph) (segment_prot ph) mm0 h3 in Some (True, mm, h)
      else Some (True, mm0, h3)) = Some (True, mm4, h4)"
    "seg_image data ph h4" "\<forall>a. \<not> in_seg ph a \<longrightarrow> h_byte h4 a = h_byte h a \<and> h_prot h4 a = h_prot h a"
    by (rule protect_segment [OF assms(1) h3(2)])
  have "load_segment os data ph mm h = Some (True, mm4, h4)"
    using assms(2) by (simp add: load_segment_def seg_ok_def Let_def f(1-3) h3(1) r(1))
  with r(2,3) show ?thesis by blast
qed

lemma in_seg_bounds:
  assumes "seg_ok data ph" "in_seg ph a"
  shows "unat (seg_page ph) \<le> unat a" "unat a < unat (seg_page ph) + unat (seg_map_size ph)"
proof -
  have d: "unat (a - seg_page ph) < unat (seg_map_size ph)"
    using assms(2) by (simp add: in_seg_def in_range_def word_less_nat_alt)
  have "unat (seg_page ph) + unat (seg_offset ph) = unat (ph_vaddr ph)"
    using seg_offset_le [of ph] unat_sub [of "seg_offset ph" "ph_vaddr ph"]
    by (simp add: word_le_nat_alt flip: seg_page_eq)
  then have "unat (seg_page ph) + unat (seg_map_size ph) < 2 ^ 64"
    using assms(1) div_times_less_eq_dividend [of "unat (seg_offset ph) + unat (ph_memsz ph) + 4095" 4096]
    unfolding unat_seg_map_size [OF assms(1)] seg_ok_def by linarith
  with d have "unat (seg_page ph + (a - seg_page ph)) = unat (seg_page ph) + unat (a - seg_page ph)"
    by (subst unat_plus_if') simp
  with d show "unat (seg_page ph) \<le> unat a" "unat a < unat (seg_page ph) + unat (seg_map_size ph)" by simp_all
qed

definition apart :: "ELFProgramHeader \<Rightarrow> ELFProgramHeader \<Rightarrow> bool" where
  "apart p q \<longleftrightarrow> unat (seg_page p) + unat (seg_map_size p) \<le> unat (seg_page q) \<or>
     unat (seg_page q) + unat (seg_map_size q) \<le> unat (seg_page p)"

fun segs_ok :: "u8 list \<Rightarrow> ELFProgramHeader list \<Rightarrow> bool" where
  "segs_ok data [] \<longleftrightarrow> True"
| "segs_ok data (ph # phs) \<longleftrightarrow> segs_ok data phs \<and>
     (ph_type ph = PT_LOAD \<longrightarrow> seg_ok data ph \<and> list_all (\<lambda>q. ph_type q = PT_LOAD \<longrightarrow> apart ph q) phs)"

lemma segs_ok_member: "segs_ok data phs \<Longrightarrow> ph \<in> set phs \<Longrightarrow> ph_type ph = PT_LOAD \<Longrightarrow> seg_ok data ph"
  by (induction phs) auto

lemma apart_disjoint: "apart p q \<Longrightarrow> seg_ok data p \<Longrightarrow> seg_ok data q \<Longrightarrow> in_seg p a \<Longrightarrow> \<not> in_seg q a"
  using in_seg_bounds [of data p a] in_seg_bounds [of data q a] unfolding apart_def by linarith

lemma seg_image_cong:
  assumes "seg_image data ph h" "\<And>a. in_seg ph a \<Longrightarrow> h_byte h' a = h_byte h a \<and> h_prot h' a = h_prot h a"
  shows "seg_image data ph h'"
  using assms in_seg_index by (simp add: seg_image_def)

lemma load_segments_image:
  assumes "os_grants os" "segs_ok data phs"
  shows "\<exists>mm' h'. load_segments os data phs mm h = Some (True, mm', h') \<and>
    (\<forall>ph\<in>set phs. ph_type ph = PT_LOAD \<longrightarrow> seg_image data ph h') \<and>
    (\<forall>a. (\<forall>ph\<in>set phs. ph_type ph = PT_LOAD \<longrightarrow> \<not> in_seg ph a) \<longrightarrow>
       h_byte h' a = h_byte h a \<and> h_prot h' a = h_prot h a)"
  using assms(2)
proof (induction phs arbitrary: mm h)
  case (Cons ph phs)
  show ?case
  proof (cases "ph_type ph = PT_LOAD")
    case True
    with Cons.prems have ok: "seg_ok data ph" "segs_ok data phs"
      and ap: "\<And>q. q \<in> set phs \<Longrightarrow> ph_type q = PT_LOAD \<Longrightarrow> apart ph q" by (auto simp: list_all_iff)
    from load_segment_image [OF assms(1) ok(1)] obtain mm1 h1 where 1: "load_segment os data ph mm h = Some (True, mm1, h1)"
        "seg_image data ph h1" "\<And>a. \<not> in_seg ph a \<Longrightarrow> h_byte h1 a = h_byte h a \<and> h_prot h1 a = h_prot h a" by blast
    from Cons.IH [OF ok(2)] obtain mm2 h2 where 2: "load_segments os data phs mm1 h1 = Some (True, mm2, h2)"
        "\<And>q. q \<in> set phs \<Longrightarrow> ph_type q = PT_LOAD \<Longrightarrow> seg_image data q h2"
        "\<And>a. \<forall>q\<in>set phs. ph_type q = PT_LOAD \<longrightarrow> \<not> in_seg q a \<Longrightarrow> h_byte h2 a = h_byte h1 a \<and> h_prot h2 a = h_prot h1 a"
      by blast
    have "\<forall>q\<in>set phs. ph_type q = PT_LOAD \<longrightarrow> \<not> in_seg q a" if "in_seg ph a" for a
      using apart_disjoint [OF ap ok(1)] segs_ok_member [OF ok(2)] that by blast
    with 2(3) have "seg_image data ph h2" by (intro seg_image_cong [OF 1(2)]) blast
    with 1 2 True show ?thesis by auto
  qed (use Cons in \<open>simp\<close>)
qed simp

section \<open>Files that load\<close>

definition elf_header_ok :: "u8 list \<Rightarrow> bool" where
  "elf_header_ok data \<longleftrightarrow> length data \<ge> sizeof_Ehdr \<and> elf_magic data \<and>
     field data 18 2 = Some EM_AARCH64 \<and> data ! 4 = ELFCLASS64"

definition file_u64 :: "u8 list \<Rightarrow> nat \<Rightarrow> u64" where
  "file_u64 data off = le_word (take 8 (drop off data))"

definition file_u16 :: "u8 list \<Rightarrow> nat \<Rightarrow> u16" where
  "file_u16 data off = le_word (take 2 (drop off data))"

definition phdr_at :: "u8 list \<Rightarrow> nat \<Rightarrow> nat" where
  "phdr_at data i = unat (file_u64 data 32) + i * unat (file_u16 data 54)"

text \<open>A file whose program headers and interpreter name lie inside it.\<close>

definition elf_table_ok :: "u8 list \<Rightarrow> bool" where
  "elf_table_ok data \<longleftrightarrow> (\<forall>i<unat (file_u16 data 56). i * unat (file_u16 data 54) < 2 ^ 31 \<and>
     (case read_phdr data (phdr_at data i) of None \<Rightarrow> False
      | Some ph \<Rightarrow> ph_type ph = PT_INTERP \<longrightarrow> 0 \<in> set (drop (unat (ph_offset ph)) data)))"

definition elf_phdrs :: "u8 list \<Rightarrow> ELFProgramHeader list" where
  "elf_phdrs data = map (\<lambda>i. the (read_phdr data (phdr_at data i))) [0..<unat (file_u16 data 56)]"

lemma read_phdrs_total:
  assumes "\<And>k. k < n \<Longrightarrow> (i + k) * e < 2 ^ 31 \<and> read_phdr data (phoff + (i + k) * e) \<noteq> None"
  shows "read_phdrs data phoff e i n = Some (map (\<lambda>k. the (read_phdr data (phoff + (i + k) * e))) [0..<n])"
  using assms
proof (induction n arbitrary: i)
  case (Suc n)
  have "read_phdrs data phoff e (Suc i) n = Some (map (\<lambda>k. the (read_phdr data (phoff + (Suc i + k) * e))) [0..<n])"
    using Suc.prems [of "Suc k" for k] by (intro Suc.IH) simp
  with Suc.prems [of 0] show ?case by (auto simp: upt_conv_Cons map_Suc_upt [symmetric] o_def simp del: upt_Suc)
qed simp

lemma elf_table_phdrs:
  assumes "elf_table_ok data"
  shows "read_phdrs data (unat (file_u64 data 32)) (unat (file_u16 data 54)) 0 (unat (file_u16 data 56)) = Some (elf_phdrs data)"
  using assms
  by (subst read_phdrs_total) (fastforce simp: elf_table_ok_def phdr_at_def elf_phdrs_def split: option.splits)+

lemma scan_phdrs_total:
  assumes "\<And>ph. ph \<in> set phs \<Longrightarrow> ph_type ph = PT_INTERP \<Longrightarrow> 0 \<in> set (drop (unat (ph_offset ph)) data)"
  shows "\<exists>info'. scan_phdrs data phs info = Some info'"
  using assms by (induction phs arbitrary: info) (simp_all add: c_string_def Let_def)

lemma field_Some: "off + n \<le> length data \<Longrightarrow> field data off n = Some (le_word (take n (drop off data)))"
  by (simp add: field_def)

definition last_phdr :: "u32 \<Rightarrow> ELFProgramHeader list \<Rightarrow> ELFProgramHeader option" where
  "last_phdr t phs = (case rev (filter (\<lambda>ph. ph_type ph = t) phs) of [] \<Rightarrow> None | ph # _ \<Rightarrow> Some ph)"

lemma scan_phdrs_last:
  "scan_phdrs data phs info = Some info' \<Longrightarrow>
   ei_dynamic_addr info' = (case last_phdr PT_DYNAMIC phs of None \<Rightarrow> ei_dynamic_addr info | Some ph \<Rightarrow> ph_vaddr ph) \<and>
   Some (ei_interp info') = (case last_phdr PT_INTERP phs of
      None \<Rightarrow> Some (ei_interp info) | Some ph \<Rightarrow> c_string data (unat (ph_offset ph)))"
proof (induction phs arbitrary: info)
  case (Cons ph phs)
  then show ?case
    by (auto simp: elf_defs last_phdr_def split: if_splits Option.bind_splits list.splits)
qed (simp add: last_phdr_def)

text \<open>What a successful parse records of a file.\<close>

definition parsed :: "u8 list \<Rightarrow> ELFInfo \<Rightarrow> ELFInfo \<Rightarrow> bool" where
  "parsed data info info' \<longleftrightarrow> (let phs = elf_phdrs data in
     ei_entry_point info' = file_u64 data 24 \<and> ei_phdr_offset info' = file_u64 data 32 \<and>
     ei_phentsize info' = file_u16 data 54 \<and> ei_phnum info' = file_u16 data 56 \<and>
     ei_is_dynamic info' = (\<exists>ph\<in>set phs. ph_type ph = PT_DYNAMIC) \<and>
     ei_dynamic_addr info' = (case last_phdr PT_DYNAMIC phs of None \<Rightarrow> 0 | Some ph \<Rightarrow> ph_vaddr ph) \<and>
     Some (ei_interp info') = (case last_phdr PT_INTERP phs of None \<Rightarrow> Some (ei_interp info)
        | Some ph \<Rightarrow> c_string data (unat (ph_offset ph))) \<and>
     (\<forall>ph\<in>set phs. ph_type ph = PT_LOAD \<longrightarrow> ei_base_addr info' \<le> ph_vaddr ph) \<and>
     (ei_base_addr info' = - 1 \<or> (\<exists>ph\<in>set phs. ph_type ph = PT_LOAD \<and> ph_vaddr ph = ei_base_addr info')))"

lemma parse_accepts:
  assumes ok: "elf_header_ok data" "elf_table_ok data"
  shows "\<exists>info'. parse data info phdrs = Some (True, info', elf_phdrs data) \<and> parsed data info info'"
proof -
  let ?phs = "elf_phdrs data"
  let ?info = "info\<lparr>ei_entry_point := file_u64 data 24, ei_phdr_offset := file_u64 data 32, ei_phnum := file_u16 data 56,
    ei_phentsize := file_u16 data 54, ei_is_dynamic := False, ei_dynamic_addr := 0, ei_base_addr := min_load_vaddr ?phs (- 1)\<rparr>"
  note phs = elf_table_phdrs [OF ok(2)]
  have "0 \<in> set (drop (unat (ph_offset ph)) data)" if "ph \<in> set ?phs" "ph_type ph = PT_INTERP" for ph
    using that ok by (fastforce simp: elf_table_ok_def elf_phdrs_def split: option.splits)
  from scan_phdrs_total [OF this] obtain info' where i: "scan_phdrs data ?phs ?info = Some info'" by blast
  have "parse data info phdrs = Some (True, info', ?phs)"
    using ok phs i by (simp add: parse_def elf_header_ok_def field_Some sizeof_Ehdr_def file_u64_def file_u16_def)
  moreover have "parsed data info info'"
    using scan_phdrs_result [OF i] scan_phdrs_last [OF i] min_load_vaddr_result [of ?phs "- 1"]
    by (simp add: parsed_def Let_def split: option.split)
  ultimately show ?thesis by blast
qed

text \<open>A small file: one loadable, executable segment of four bytes (a return) with eight bytes of
  memory, at address \<open>0x400010\<close>.\<close>

definition demo_elf :: "u8 list" where
  "demo_elf =
     [0x7F, 0x45, 0x4C, 0x46, 2, 1, 1, 0] @ [0, 0, 0, 0, 0, 0, 0, 0] @ [2, 0, 183, 0, 1, 0, 0, 0] @
     [0x10, 0, 0x40, 0, 0, 0, 0, 0] @ [64, 0, 0, 0, 0, 0, 0, 0] @ [0, 0, 0, 0, 0, 0, 0, 0, 0, 0, 0, 0] @ [64, 0, 56, 0, 1, 0] @ [0, 0, 0, 0, 0, 0] @
     [1, 0, 0, 0, 5, 0, 0, 0] @ [120, 0, 0, 0, 0, 0, 0, 0] @ [0x10, 0, 0x40, 0, 0, 0, 0, 0] @ [0x10, 0, 0x40, 0, 0, 0, 0, 0] @
     [4, 0, 0, 0, 0, 0, 0, 0] @ [8, 0, 0, 0, 0, 0, 0, 0] @ [0, 0x10, 0, 0, 0, 0, 0, 0] @ [0xC0, 0x03, 0x5F, 0xD6]"

definition demo_phdr :: ELFProgramHeader where
  "demo_phdr = \<lparr>ph_type = 1, ph_flags = 5, ph_offset = 120, ph_vaddr = 0x400010, ph_paddr = 0x400010,
     ph_filesz = 4, ph_memsz = 8, ph_align = 0x1000\<rparr>"

definition demo_info :: ELFInfo where
  "demo_info = \<lparr>ei_entry_point = 0, ei_phdr_addr = 0, ei_phdr_offset = 0, ei_phnum = 0, ei_phentsize = 0,
     ei_base_addr = 0, ei_is_dynamic = False, ei_dynamic_addr = 0, ei_interp = []\<rparr>"

lemma demo_fields: "file_u16 demo_elf 56 = 1" "file_u16 demo_elf 54 = 56" "file_u64 demo_elf 32 = 64"
    "file_u64 demo_elf 24 = 0x400010" "read_phdr demo_elf 64 = Some demo_phdr"
  by (simp_all add: file_u16_def file_u64_def demo_elf_def le_word_def read_phdr_def demo_phdr_def field_def)

lemma demo_elf_ok: "elf_header_ok demo_elf" "elf_table_ok demo_elf" "elf_phdrs demo_elf = [demo_phdr]"
    "segs_ok demo_elf [demo_phdr]"
proof -
  show "elf_header_ok demo_elf" by (simp add: elf_header_ok_def demo_elf_def elf_magic_def field_def elf_defs le_word_def)
  show "elf_table_ok demo_elf" "elf_phdrs demo_elf = [demo_phdr]"
    by (simp_all add: elf_table_ok_def elf_phdrs_def phdr_at_def demo_fields demo_phdr_def elf_defs)
  show "segs_ok demo_elf [demo_phdr]" by (simp add: seg_ok_def demo_phdr_def seg_page_def elf_defs demo_elf_def)
qed

text \<open>C21: Parsing a file.  A file that is too short, has no ELF magic, or is not a 64-bit ARM64 file is
  rejected and changes nothing.  Otherwise, when its program headers and the interpreter's name lie
  inside the file, parsing succeeds: the headers are those at the table's offset and entry size, the
  entry point and the table's shape are the file's, the file is dynamic when it has a dynamic segment
  (whose address is recorded), the interpreter is the named one and the base address is the lowest
  address of a loadable segment.\<close>

theorem parse_result:
  "(\<not> elf_header_ok data \<longrightarrow> parse data info phdrs = Some (False, info, phdrs)) \<and>
   (elf_header_ok data \<and> elf_table_ok data \<longrightarrow>
      (\<exists>info'. parse data info phdrs = Some (True, info', elf_phdrs data) \<and> parsed data info info'))"
  using parse_accepts [of data info phdrs]
  by (auto simp: parse_def elf_header_ok_def field_def sizeof_Ehdr_def)

theorem parse_result_witness:
  "\<exists>info'. parse demo_elf demo_info [] = Some (True, info', [demo_phdr]) \<and> ei_entry_point info' = 0x400010 \<and>
     \<not> ei_is_dynamic info' \<and> ei_base_addr info' \<le> 0x400010"
proof -
  from parse_result [of demo_elf demo_info "[]"] demo_elf_ok obtain info'
    where i: "parse demo_elf demo_info [] = Some (True, info', [demo_phdr])" "parsed demo_elf demo_info info'" by auto
  then show ?thesis
    by (auto simp: parsed_def demo_elf_ok demo_fields demo_phdr_def elf_defs Let_def)
qed

text \<open>C11: Loading a file.  When the file can be mapped and is a well-formed ARM64 file whose loadable
  segments lie in the file, away from page 0 and on pages of their own, and the system grants the
  mappings, loading succeeds and leaves every segment in memory: its file bytes at its address, zeros
  around them up to the page borders, the protection its flags ask for, and nothing else changed.  A
  file that cannot be mapped or is not an ARM64 file fails and changes nothing.\<close>

theorem elf_load_image:
  assumes "os_grants os"
    and "\<And>data. map_file path = Some data \<Longrightarrow> elf_header_ok data \<Longrightarrow> elf_table_ok data \<and> segs_ok data (elf_phdrs data)"
  shows "case map_file path of
      None \<Rightarrow> elf_load os map_file path info phdrs mm h = Some (False, info, phdrs, mm, h)
    | Some data \<Rightarrow>
        if \<not> elf_header_ok data then elf_load os map_file path info phdrs mm h = Some (False, info, phdrs, mm, h)
        else \<exists>info' mm' h'. elf_load os map_file path info phdrs mm h = Some (True, info', elf_phdrs data, mm', h') \<and>
          parsed data info info' \<and>
          (\<forall>ph\<in>set (elf_phdrs data). ph_type ph = PT_LOAD \<longrightarrow> seg_image data ph h') \<and>
          (\<forall>a. (\<forall>ph\<in>set (elf_phdrs data). ph_type ph = PT_LOAD \<longrightarrow> \<not> in_seg ph a) \<longrightarrow>
             h_byte h' a = h_byte h a \<and> h_prot h' a = h_prot h a)"
proof (cases "map_file path")
  case (Some data)
  show ?thesis
  proof (cases "elf_header_ok data")
    case True
    with assms(2) [OF Some] have ok: "elf_table_ok data" "segs_ok data (elf_phdrs data)" by auto
    with parse_accepts [OF True ok(1), of info phdrs] load_segments_image [OF assms(1) ok(2), of mm h] Some True
    show ?thesis by (fastforce simp: elf_load_def)
  next
    case False
    with Some show ?thesis by (auto simp: elf_load_def parse_def elf_header_ok_def field_def sizeof_Ehdr_def)
  qed
qed (simp add: elf_load_def)

theorem elf_load_image_witness:
  "let os = \<lparr>os_mmap = (\<lambda>_ _ _. True), os_munmap = (\<lambda>_ _. 0), os_mprotect = (\<lambda>_ _ _. 0)\<rparr>;
       h = \<lparr>h_byte = (\<lambda>_. 9), h_prot = (\<lambda>_. None)\<rparr>
   in \<exists>info' mm' h'. elf_load os (\<lambda>_. Some demo_elf) ''demo'' demo_info [] MemoryManager_init h =
        Some (True, info', [demo_phdr], mm', h') \<and> h_byte h' 0x400010 = 0xC0 \<and> h_byte h' 0x400014 = 0 \<and>
        h_prot h' 0x400010 = Some (PROT_READ OR PROT_EXEC)"
proof -
  let ?os = "\<lparr>os_mmap = (\<lambda>_ _ _. True), os_munmap = (\<lambda>_ _. 0), os_mprotect = (\<lambda>_ _ _. 0)\<rparr>"
  have "os_grants ?os" by (simp add: os_grants_def)
  from elf_load_image [OF this, of "\<lambda>_. Some demo_elf" "''demo''" demo_info "[]" MemoryManager_init
      "\<lparr>h_byte = (\<lambda>_. 9), h_prot = (\<lambda>_. None)\<rparr>"] demo_elf_ok
  obtain info' mm' h' where l: "elf_load ?os (\<lambda>_. Some demo_elf) ''demo'' demo_info [] MemoryManager_init
      \<lparr>h_byte = (\<lambda>_. 9), h_prot = (\<lambda>_. None)\<rparr> = Some (True, info', [demo_phdr], mm', h')"
      "\<forall>ph\<in>set [demo_phdr]. ph_type ph = PT_LOAD \<longrightarrow> seg_image demo_elf ph h'" by auto
  moreover have "seg_page demo_phdr = 0x400000" "seg_map_size demo_phdr = 4096" "seg_offset demo_phdr = 16"
    by (simp_all add: seg_page_def seg_map_size_def seg_offset_def demo_phdr_def)
  ultimately have "h_byte h' (0x400000 + of_nat k) = seg_byte demo_elf demo_phdr k \<and>
      h_prot h' (0x400000 + of_nat k) = Some (segment_prot demo_phdr)" if "k < 4096" for k
    using that by (simp add: seg_image_def) (simp add: demo_phdr_def PT_LOAD_def)
  from this [of 16] this [of 20] have "h_byte h' 0x400010 = 0xC0 \<and> h_byte h' 0x400014 = 0 \<and>
        h_prot h' 0x400010 = Some (PROT_READ OR PROT_EXEC)"
    by (simp add: seg_byte_def seg_offset_def segment_prot_def demo_phdr_def demo_elf_def elf_defs)
  with l(1) show ?thesis by (simp add: Let_def)
qed

text \<open>C35: A segment on page 0, as position-independent executables have, is mapped elsewhere (a zero
  hint asks for any free place) but copied to its own address: when nothing is mapped there the copy
  faults, although the mapping succeeded.\<close>

theorem load_segment_page0_faults:
  assumes "os_grants os" "seg_page ph = 0" "ph_filesz ph > 0" "h_prot h (ph_vaddr ph) = None"
    and "mm_mmap_base mm = b" "4096 \<le> b" "unat b + unat (page_align (seg_map_size ph)) \<le> 2 ^ 64"
  shows "fst (mm_mmap os (seg_map_size ph) (segment_prot ph OR PROT_WRITE) (seg_page ph) mm h) = b \<and>
    load_segment os data ph mm h = None"
proof -
  let ?lp = "segment_prot ph OR PROT_WRITE" let ?n = "page_align (seg_map_size ph)"
  have b0: "b \<noteq> 0" using assms(6) by auto
  obtain mm' where m: "mm_mmap os (seg_map_size ph) ?lp 0 mm h = (b, mm', host_map b ?n ?lp h)"
    using assms(1,5) b0 by (simp add: mm_mmap_def find_free_region_def os_grants_def Let_def)
  have v: "seg_offset ph = ph_vaddr ph" "unat (ph_vaddr ph) < 4096"
    using seg_parts [of ph] seg_offset_small [of ph] assms(2) by simp_all
  have "\<not> in_range (ph_vaddr ph) b ?n"
  proof
    assume "in_range (ph_vaddr ph) b ?n"
    then have l: "unat (ph_vaddr ph - b) < unat ?n" by (simp add: in_range_def word_less_nat_alt)
    with assms(7) have "unat (b + (ph_vaddr ph - b)) = unat b + unat (ph_vaddr ph - b)" by (subst unat_plus_if') simp
    with v(2) assms(6) show False by (simp add: word_le_nat_alt)
  qed
  then have "\<not> can_write (host_map b ?n ?lp h) (ph_vaddr ph)"
    using assms(4) by (simp add: can_write_def host_map_def)
  moreover have "0 < unat (ph_filesz ph)" using assms(3) by (simp add: word_less_nat_alt)
  ultimately have "copy_from_file data (ph_vaddr ph) (ph_offset ph) (ph_filesz ph) (host_map b ?n ?lp h) = None"
    by (auto simp: copy_from_file_def host_write_def addrs_def list_all_iff dest!: bspec [of _ _ 0])
  with m b0 v assms(2,3) show ?thesis by (simp add: load_segment_def Let_def)
qed

theorem load_segment_page0_faults_witness:
  "let os = \<lparr>os_mmap = (\<lambda>_ _ _. True), os_munmap = (\<lambda>_ _. 0), os_mprotect = (\<lambda>_ _ _. 0)\<rparr>;
       h = \<lparr>h_byte = (\<lambda>_. 9), h_prot = (\<lambda>_. None)\<rparr>
   in load_segment os demo_elf (demo_phdr\<lparr>ph_vaddr := 0x10\<rparr>) (MemoryManager_init\<lparr>mm_mmap_base := 0x70000000\<rparr>) h = None"
  using load_segment_page0_faults [of "\<lparr>os_mmap = (\<lambda>_ _ _. True), os_munmap = (\<lambda>_ _. 0), os_mprotect = (\<lambda>_ _ _. 0)\<rparr>"
     "demo_phdr\<lparr>ph_vaddr := 0x10\<rparr>" "\<lparr>h_byte = (\<lambda>_. 9), h_prot = (\<lambda>_. None)\<rparr>"
     "MemoryManager_init\<lparr>mm_mmap_base := 0x70000000\<rparr>" "0x70000000" demo_elf]
  by (simp add: Let_def os_grants_def demo_phdr_def seg_page_def seg_map_size_def seg_offset_def page_align_def PAGE_SIZE_def)

end
