(* ===== verification/Dynlink.thy ===== *)
theory Dynlink
  imports Elf_Loader
begin

text \<open>
  The dynamic linker (\<^verbatim>\<open>src/src/elf/dynlink.hpp\<close>, \<^verbatim>\<open>dynlink.cpp\<close>): mapping the segments of a shared
  library and applying the relocations of its dynamic section.  The tags and relocation types are
  those of \<^verbatim>\<open>elf.h\<close>.  An access to memory that is not mapped, and a dynamic section without end,
  is \<^const>\<open>None\<close>.  Opening and mapping the file is the parameter of the ELF loader; messages are left out.
\<close>

section \<open>Data\<close>

record LoadedLib =
  ll_path :: string
  ll_base_addr :: u64

record DynLink =
  dl_loaded_libs :: "LoadedLib list"

definition DynLink_init :: DynLink where
  "DynLink_init = \<lparr>dl_loaded_libs = []\<rparr>"

definition DT_NULL :: u64 where "DT_NULL = 0"
definition DT_STRTAB :: u64 where "DT_STRTAB = 5"
definition DT_SYMTAB :: u64 where "DT_SYMTAB = 6"
definition DT_RELA :: u64 where "DT_RELA = 7"
definition DT_RELASZ :: u64 where "DT_RELASZ = 8"
definition DT_RELAENT :: u64 where "DT_RELAENT = 9"
definition DT_REL :: u64 where "DT_REL = 17"
definition DT_RELSZ :: u64 where "DT_RELSZ = 18"
definition DT_RELENT :: u64 where "DT_RELENT = 19"
definition R_AARCH64_RELATIVE :: u32 where "R_AARCH64_RELATIVE = 1027"

lemmas dt_defs = DT_NULL_def DT_STRTAB_def DT_SYMTAB_def DT_RELA_def DT_RELASZ_def DT_RELAENT_def DT_REL_def
  DT_RELSZ_def DT_RELENT_def R_AARCH64_RELATIVE_def

text \<open>The local variables of \<open>process_relocations\<close>.\<close>

record dyn_info =
  rel_addr :: u64
  rel_size :: u64
  rel_ent :: u64
  rela_addr :: u64
  rela_size :: u64
  rela_ent :: u64
  symtab :: u64
  strtab :: u64

definition dyn_info_init :: dyn_info where
  "dyn_info_init = \<lparr>rel_addr = 0, rel_size = 0, rel_ent = 0, rela_addr = 0, rela_size = 0, rela_ent = 0,
     symtab = 0, strtab = 0\<rparr>"

section \<open>Relocation\<close>

abbreviation host_u64 :: "host \<Rightarrow> u64 \<Rightarrow> u64 option" where
  "host_u64 h a \<equiv> host.rdw h a 8"

text \<open>The switch of the first loop.\<close>

definition dyn_entry :: "u64 \<Rightarrow> u64 \<Rightarrow> u64 \<Rightarrow> dyn_info \<Rightarrow> dyn_info" where
  "dyn_entry base tag val d =
    (if tag = DT_REL then d\<lparr>rel_addr := base + val\<rparr>
     else if tag = DT_RELSZ then d\<lparr>rel_size := val\<rparr>
     else if tag = DT_RELENT then d\<lparr>rel_ent := val\<rparr>
     else if tag = DT_RELA then d\<lparr>rela_addr := base + val\<rparr>
     else if tag = DT_RELASZ then d\<lparr>rela_size := val\<rparr>
     else if tag = DT_RELAENT then d\<lparr>rela_ent := val\<rparr>
     else if tag = DT_SYMTAB then d\<lparr>symtab := base + val\<rparr>
     else if tag = DT_STRTAB then d\<lparr>strtab := base + val\<rparr>
     else d)"

partial_function (option) scan_dynamic :: "u64 \<Rightarrow> host \<Rightarrow> u64 \<Rightarrow> dyn_info \<Rightarrow> dyn_info option" where
  "scan_dynamic base h dyn d =
     Option.bind (host_u64 h dyn) (\<lambda>tag.
       if tag = DT_NULL then Some d
       else Option.bind (host_u64 h (dyn + 8)) (\<lambda>val. scan_dynamic base h (dyn + 16) (dyn_entry base tag val d)))"

fun for_loop :: "(nat \<Rightarrow> 's \<Rightarrow> 's option) \<Rightarrow> nat \<Rightarrow> nat \<Rightarrow> 's \<Rightarrow> 's option" where
  "for_loop f i 0 s = Some s"
| "for_loop f i (Suc n) s = Option.bind (f i s) (for_loop f (Suc i) n)"

definition R_TYPE :: "u64 \<Rightarrow> u32" where
  "R_TYPE info = ucast (info AND 0xFFFFFFFF)"

definition table_entry :: "u64 \<Rightarrow> u64 \<Rightarrow> nat \<Rightarrow> u64" where
  "table_entry tab ent i = tab + of_nat i * ent"

text \<open>One entry with an addend, and one without.\<close>

definition rela_step :: "u64 \<Rightarrow> u64 \<Rightarrow> u64 \<Rightarrow> nat \<Rightarrow> host \<Rightarrow> host option" where
  "rela_step base tab ent i h = do {
     let rela = table_entry tab ent i;
     r_offset \<leftarrow> host_u64 h rela;
     r_info \<leftarrow> host_u64 h (rela + 8);
     if R_TYPE r_info = R_AARCH64_RELATIVE then do {
       r_addend \<leftarrow> host_u64 h (rela + 16);
       host_write h (base + r_offset) (le_bytes 8 (base + r_addend)) }
     else Some h }"

definition rel_step :: "u64 \<Rightarrow> u64 \<Rightarrow> u64 \<Rightarrow> nat \<Rightarrow> host \<Rightarrow> host option" where
  "rel_step base tab ent i h = do {
     let rel = table_entry tab ent i;
     r_offset \<leftarrow> host_u64 h rel;
     r_info \<leftarrow> host_u64 h (rel + 8);
     if R_TYPE r_info = R_AARCH64_RELATIVE then do {
       v \<leftarrow> host_u64 h (base + r_offset);
       host_write h (base + r_offset) (le_bytes 8 (v + base)) }
     else Some h }"

definition apply_relas :: "u64 \<Rightarrow> dyn_info \<Rightarrow> host \<Rightarrow> host option" where
  "apply_relas base d h =
     (if rela_addr d \<noteq> 0 \<and> rela_size d \<noteq> 0 \<and> rela_ent d \<noteq> 0
      then for_loop (rela_step base (rela_addr d) (rela_ent d)) 0 (unat (rela_size d div rela_ent d)) h
      else Some h)"

definition apply_rels :: "u64 \<Rightarrow> dyn_info \<Rightarrow> host \<Rightarrow> host option" where
  "apply_rels base d h =
     (if rel_addr d \<noteq> 0 \<and> rel_size d \<noteq> 0 \<and> rel_ent d \<noteq> 0
      then for_loop (rel_step base (rel_addr d) (rel_ent d)) 0 (unat (rel_size d div rel_ent d)) h
      else Some h)"

definition process_relocations :: "u64 \<Rightarrow> u64 \<Rightarrow> host \<Rightarrow> (bool \<times> host) option" where
  "process_relocations base_addr dynamic_addr h = do {
     d \<leftarrow> scan_dynamic base_addr h dynamic_addr dyn_info_init;
     h \<leftarrow> apply_relas base_addr d h;
     h \<leftarrow> apply_rels base_addr d h;
     Some (True, h) }"

text \<open>\<open>resolve_symbol\<close> is a stub.\<close>

definition resolve_symbol :: "string \<Rightarrow> u64" where
  "resolve_symbol name = 0"

section \<open>Loading a library\<close>

text \<open>The first loop also finds the end of the segments; the total size it is used for is never read.\<close>

fun lib_extent :: "ELFProgramHeader list \<Rightarrow> u64 \<Rightarrow> u64 \<Rightarrow> u64 \<times> u64" where
  "lib_extent [] lo hi = (lo, hi)"
| "lib_extent (ph # phs) lo hi =
     (if ph_type ph = PT_LOAD
      then lib_extent phs (if ph_vaddr ph < lo then ph_vaddr ph else lo)
             (if ph_vaddr ph + ph_memsz ph > hi then ph_vaddr ph + ph_memsz ph else hi)
      else lib_extent phs lo hi)"

definition lib_base :: "ELFProgramHeader list \<Rightarrow> u64" where
  "lib_base phs = fst (lib_extent phs (- 1) 0) AND NOT 0xFFF"

definition lib_segment :: "os \<Rightarrow> u8 list \<Rightarrow> u64 \<Rightarrow> ELFProgramHeader \<Rightarrow> MemoryManager \<Rightarrow> host \<Rightarrow>
    (bool \<times> MemoryManager \<times> host) option" where
  "lib_segment os data base ph mm h =
    (let prot = segment_prot ph; page = base + (ph_vaddr ph AND NOT 0xFFF); offset = ph_vaddr ph AND 0xFFF;
         map_size = (offset + ph_memsz ph + 0xFFF) AND NOT 0xFFF;
         (mapped, mm, h) = mm_mmap os map_size (prot OR PROT_WRITE) page mm h
     in if mapped = 0 then Some (False, mm, h)
        else do {
          h \<leftarrow> (if ph_filesz ph > 0 then copy_from_file data (page + offset) (ph_offset ph) (ph_filesz ph) h else Some h);
          h \<leftarrow> (if ph_memsz ph > ph_filesz ph
               then host_zero (page + offset + ph_filesz ph) (ph_memsz ph - ph_filesz ph) h else Some h);
          if prot \<noteq> prot OR PROT_WRITE
          then let (_, mm, h) = mm_mprotect os page map_size prot mm h in Some (True, mm, h)
          else Some (True, mm, h) })"

fun lib_segments :: "os \<Rightarrow> u8 list \<Rightarrow> u64 \<Rightarrow> ELFProgramHeader list \<Rightarrow> MemoryManager \<Rightarrow> host \<Rightarrow>
    (bool \<times> MemoryManager \<times> host) option" where
  "lib_segments os data base [] mm h = Some (True, mm, h)"
| "lib_segments os data base (ph # phs) mm h =
     (if ph_type ph \<noteq> PT_LOAD then lib_segments os data base phs mm h
      else do {
        (ok, mm, h) \<leftarrow> lib_segment os data base ph mm h;
        if \<not> ok then Some (False, mm, h) else lib_segments os data base phs mm h })"

fun lib_dynamic :: "u64 \<Rightarrow> ELFProgramHeader list \<Rightarrow> u64" where
  "lib_dynamic base [] = 0"
| "lib_dynamic base (ph # phs) = (if ph_type ph = PT_DYNAMIC then base + ph_vaddr ph else lib_dynamic base phs)"

definition load_library :: "os \<Rightarrow> (string \<Rightarrow> u8 list option) \<Rightarrow> string \<Rightarrow> DynLink \<Rightarrow> MemoryManager \<Rightarrow> host \<Rightarrow>
    (bool \<times> DynLink \<times> MemoryManager \<times> host) option" where
  "load_library os map_file path dl mm h = (case map_file path of
      None \<Rightarrow> Some (False, dl, mm, h)
    | Some data \<Rightarrow>
       if length data < sizeof_Ehdr then Some (False, dl, mm, h)
       else if \<not> elf_magic data then Some (False, dl, mm, h)
       else do {
         machine \<leftarrow> field data 18 2;
         if machine \<noteq> EM_AARCH64 then Some (False, dl, mm, h)
         else do {
           phoff \<leftarrow> field data 32 8; phentsize \<leftarrow> field data 54 2; phnum \<leftarrow> field data 56 2;
           phs \<leftarrow> read_phdrs data (unat (phoff :: u64)) (unat (phentsize :: u16)) 0 (unat (phnum :: u16));
           let base = lib_base phs;
           (ok, mm, h) \<leftarrow> lib_segments os data base phs mm h;
           if \<not> ok then Some (False, dl, mm, h)
           else do {
             let dynamic = lib_dynamic base phs;
             h \<leftarrow> (if dynamic \<noteq> 0 then map_option snd (process_relocations base dynamic h) else Some h);
             Some (True, dl\<lparr>dl_loaded_libs := dl_loaded_libs dl @ [\<lparr>ll_path = path, ll_base_addr = base\<rparr>]\<rparr>, mm, h) } } })"

section \<open>Tables of patches\<close>

text \<open>The interface of a loop that patches memory by a table: an entry is decoded from its own bytes and
  names at most one word to patch, whose new value depends on the entry and on that word.\<close>

locale patch_loop = byte_memory rd wr
  for rd :: "'s \<Rightarrow> u64 \<Rightarrow> nat \<Rightarrow> u8 list option" and wr :: "'s \<Rightarrow> u64 \<Rightarrow> u8 list \<Rightarrow> 's option" +
  fixes can :: "'s \<Rightarrow> u64 \<Rightarrow> bool"
    and decode :: "nat \<Rightarrow> 's \<Rightarrow> 'e option"
    and target :: "'e \<Rightarrow> u64 option"
    and new_value :: "'e \<Rightarrow> u64 \<Rightarrow> u64"
    and step :: "nat \<Rightarrow> 's \<Rightarrow> 's option"
    and entry_at :: "nat \<Rightarrow> u64" and entry_len :: nat
  assumes step_skip: "decode i s = Some e \<Longrightarrow> target e = None \<Longrightarrow> step i s = Some s"
    and step_patch: "decode i s = Some e \<Longrightarrow> target e = Some t \<Longrightarrow> rdw s t 8 = Some v \<Longrightarrow> step i s = wr s t (le_bytes 8 (new_value e v))"
    and decode_other: "wr s t bs = Some s' \<Longrightarrow> disjoint_ranges t (length bs) (entry_at i) entry_len \<Longrightarrow> decode i s' = decode i s"
    and can_wr: "can s t \<Longrightarrow> \<exists>s'. wr s t (le_bytes 8 (w :: u64)) = Some s'"
    and can_keeps: "wr s t bs = Some s' \<Longrightarrow> can s' = can s"
begin

text \<open>A table whose entries \<open>i \<dots> i + n - 1\<close> can be applied: the words to patch can be written, and lie
  outside the table and apart from each other.\<close>

definition applicable :: "(nat \<Rightarrow> 'e) \<Rightarrow> (nat \<Rightarrow> u64) \<Rightarrow> nat \<Rightarrow> nat \<Rightarrow> 's \<Rightarrow> bool" where
  "applicable e v i n s \<longleftrightarrow>
     (\<forall>k\<in>{i..<i + n}. decode k s = Some (e k) \<and>
        (\<forall>t. target (e k) = Some t \<longrightarrow> can s t \<and> rdw s t 8 = Some (v k) \<and>
           (\<forall>j\<in>{i..<i + n}. disjoint_ranges t 8 (entry_at j) entry_len) \<and>
           (\<forall>j\<in>{i..<i + n}. \<forall>u. j \<noteq> k \<longrightarrow> target (e j) = Some u \<longrightarrow> disjoint_ranges t 8 u 8)))"

lemma applicable_step:
  assumes "applicable e v i (Suc n) s" "target (e i) = Some t" "wr s t (le_bytes 8 (w :: u64)) = Some s'"
  shows "applicable e v (Suc i) n s'"
  unfolding applicable_def
proof (intro ballI conjI allI impI)
  fix k assume k: "k \<in> {Suc i..<Suc i + n}"
  then have k': "k \<in> {i..<i + Suc n}" and i: "i \<in> {i..<i + Suc n}" and ne: "i \<noteq> k" "k \<noteq> i" by auto
  note appl = assms(1) [unfolded applicable_def, rule_format]
  have "disjoint_ranges t 8 (entry_at k) entry_len" using appl [OF i] assms(2) k' by blast
  with decode_other [OF assms(3)] appl [OF k'] show "decode k s' = Some (e k)" by simp
  fix u assume u: "target (e k) = Some u"
  show "can s' u" using can_keeps [OF assms(3)] appl [OF k'] u by simp
  have "disjoint_ranges t 8 u 8" using appl [OF i] assms(2) k' ne u by blast
  with rd_wr_other [OF assms(3)] appl [OF k'] u show "rdw s' u 8 = Some (v k)" by (simp add: rdw_def)
  show "disjoint_ranges u 8 (entry_at j) entry_len" if "j \<in> {Suc i..<Suc i + n}" for j
    using appl [OF k'] u that by auto
  show "disjoint_ranges u 8 u' 8" if "j \<in> {Suc i..<Suc i + n}" "j \<noteq> k" "target (e j) = Some u'" for j u'
    using appl [OF k'] u that by auto
qed

lemma patch_all:
  assumes "applicable e v i n s"
  shows "\<exists>s'. for_loop step i n s = Some s' \<and>
    (\<forall>k\<in>{i..<i + n}. \<forall>t. target (e k) = Some t \<longrightarrow> rdw s' t 8 = Some (new_value (e k) (v k))) \<and>
    (\<forall>b m. (\<forall>k\<in>{i..<i + n}. \<forall>t. target (e k) = Some t \<longrightarrow> disjoint_ranges t 8 b m) \<longrightarrow> rd s' b m = rd s b m)"
  using assms
proof (induction n arbitrary: i s)
  case (Suc n)
  note appl = Suc.prems [unfolded applicable_def, rule_format, of i]
  have split: "{i..<i + Suc n} = insert i {Suc i..<Suc i + n}" by auto
  show ?case
  proof (cases "target (e i)")
    case None
    then have st: "step i s = Some s" using appl step_skip by auto
    have "{Suc i..<Suc i + n} \<subseteq> {i..<i + Suc n}" by auto
    with Suc.prems have "applicable e v (Suc i) n s" unfolding applicable_def by (meson subsetD)
    from Suc.IH [OF this] st None show ?thesis unfolding split by auto
  next
    case (Some t)
    have d: "decode i s = Some (e i)" "can s t" "rdw s t 8 = Some (v i)" using appl Some by auto
    from can_wr [OF d(2)] obtain s1 where s1: "wr s t (le_bytes 8 (new_value (e i) (v i))) = Some s1" by blast
    then have st: "step i s = Some s1" using step_patch [OF d(1) Some d(3)] by simp
    from Suc.IH [OF applicable_step [OF Suc.prems Some s1]] obtain s' where s': "for_loop step (Suc i) n s1 = Some s'"
      "\<forall>k\<in>{Suc i..<Suc i + n}. \<forall>t. target (e k) = Some t \<longrightarrow> rdw s' t 8 = Some (new_value (e k) (v k))"
      "\<And>b m. \<forall>k\<in>{Suc i..<Suc i + n}. \<forall>t. target (e k) = Some t \<longrightarrow> disjoint_ranges t 8 b m \<Longrightarrow> rd s' b m = rd s1 b m" by blast
    have "disjoint_ranges u 8 t 8" if "k \<in> {Suc i..<Suc i + n}" "target (e k) = Some u" for k u
      using Suc.prems [unfolded applicable_def, THEN bspec [of _ _ k]] Some that
      by (auto dest!: bspec [of _ _ i] simp del: add_Suc_right)
    then have "rdw s' t 8 = rdw s1 t 8" using s'(3) [of t 8] by (auto simp: rdw_def)
    also have "\<dots> = Some (new_value (e i) (v i))" using rdw_wr_same [OF s1] by simp
    finally have "rdw s' t 8 = Some (new_value (e i) (v i))" .
    moreover have "rd s' b m = rd s b m" if "\<forall>k\<in>{i..<i + Suc n}. \<forall>t. target (e k) = Some t \<longrightarrow> disjoint_ranges t 8 b m" for b m
      using s'(3) [of b m] rd_wr_other [OF s1, of b m] Some that unfolding split by simp
    ultimately show ?thesis using s'(1,2) st Some unfolding split by auto
  qed
qed simp

end

text \<open>Both kinds of relocation are such loops.  An entry is its offset, its type and its addend.\<close>

definition writable8 :: "host \<Rightarrow> u64 \<Rightarrow> bool" where
  "writable8 h t \<longleftrightarrow> list_all (can_write h) (addrs t 8)"

definition rela_decode :: "u64 \<Rightarrow> u64 \<Rightarrow> nat \<Rightarrow> host \<Rightarrow> (u64 \<times> u64 \<times> u64) option" where
  "rela_decode tab ent i h = do {
     off \<leftarrow> host_u64 h (table_entry tab ent i); info \<leftarrow> host_u64 h (table_entry tab ent i + 8);
     add \<leftarrow> host_u64 h (table_entry tab ent i + 16); Some (off, info, add) }"

definition rel_decode :: "u64 \<Rightarrow> u64 \<Rightarrow> nat \<Rightarrow> host \<Rightarrow> (u64 \<times> u64) option" where
  "rel_decode tab ent i h = do {
     off \<leftarrow> host_u64 h (table_entry tab ent i); info \<leftarrow> host_u64 h (table_entry tab ent i + 8); Some (off, info) }"

definition reloc_target :: "u64 \<Rightarrow> u64 \<times> u64 \<Rightarrow> u64 option" where
  "reloc_target base e = (if R_TYPE (snd e) = R_AARCH64_RELATIVE then Some (base + fst e) else None)"

definition rela_target :: "u64 \<Rightarrow> u64 \<times> u64 \<times> u64 \<Rightarrow> u64 option" where
  "rela_target base e = reloc_target base (fst e, fst (snd e))"

lemma disjoint_part:
  assumes "disjoint_ranges t m a n" "k + l \<le> n"
  shows "disjoint_ranges t m (a + of_nat k) l"
  using assms(1) addrs_part [OF assms(2), of a] by (auto simp: disjoint_ranges_def)

lemma read_other8:
  assumes "host_write h t bs = Some h'" "disjoint_ranges t (length bs) a n" "k + 8 \<le> n"
  shows "host_u64 h' (a + of_nat k) = host_u64 h (a + of_nat k)"
  using host.rdw_wr_other [OF assms(1) disjoint_part [OF assms(2,3)]] .

lemma host_write_ok: "writable8 h t \<Longrightarrow> \<exists>h'. host_write h t (le_bytes 8 (w :: u64)) = Some h'"
  by (simp add: host_write_def writable8_def)

lemma host_write_keeps: "host_write h t bs = Some h' \<Longrightarrow> writable8 h' = writable8 h"
  by (auto simp: host_write_def writable8_def fun_eq_iff split: if_splits)

interpretation rela: patch_loop host_read host_write writable8 "rela_decode tab ent" "rela_target base"
    "\<lambda>e _. base + snd (snd e)" "rela_step base tab ent" "table_entry tab ent" 24
  for base tab ent :: u64
proof unfold_locales
  fix h t bs h' i assume w: "host_write h t bs = Some h'" "disjoint_ranges t (length bs) (table_entry tab ent i) 24"
  show "rela_decode tab ent i h' = rela_decode tab ent i h"
    using read_other8 [OF w, of 0] read_other8 [OF w, of 8] read_other8 [OF w, of 16] by (simp add: rela_decode_def)
qed (auto simp: rela_decode_def rela_step_def rela_target_def reloc_target_def host_write_ok host_write_keeps
    split: Option.bind_splits if_splits)

interpretation rel: patch_loop host_read host_write writable8 "rel_decode tab ent" "reloc_target base"
    "\<lambda>e v. v + base" "rel_step base tab ent" "table_entry tab ent" 16
  for base tab ent :: u64
proof unfold_locales
  fix h t bs h' i assume w: "host_write h t bs = Some h'" "disjoint_ranges t (length bs) (table_entry tab ent i) 16"
  show "rel_decode tab ent i h' = rel_decode tab ent i h"
    using read_other8 [OF w, of 0] read_other8 [OF w, of 8] by (simp add: rel_decode_def)
qed (auto simp: rel_decode_def rel_step_def reloc_target_def host_write_ok host_write_keeps
    split: Option.bind_splits if_splits)

section \<open>The dynamic section\<close>

text \<open>A section in memory with the entries \<open>es\<close> before its end.\<close>

fun dynamic_at :: "host \<Rightarrow> u64 \<Rightarrow> (u64 \<times> u64) list \<Rightarrow> bool" where
  "dynamic_at h a [] \<longleftrightarrow> host_u64 h a = Some DT_NULL"
| "dynamic_at h a ((tag, val) # es) \<longleftrightarrow> tag \<noteq> DT_NULL \<and> host_u64 h a = Some tag \<and> host_u64 h (a + 8) = Some val \<and>
     dynamic_at h (a + 16) es"

lemma scan_dynamic_returns:
  "dynamic_at h a es \<Longrightarrow> scan_dynamic base h a d = Some (fold (\<lambda>(tag, val). dyn_entry base tag val) es d)"
  by (induction h a es arbitrary: d rule: dynamic_at.induct) (subst scan_dynamic.simps; simp)+

definition dyn_table :: "u64 \<Rightarrow> (u64 \<times> u64) list \<Rightarrow> dyn_info" where
  "dyn_table base es = fold (\<lambda>(tag, val). dyn_entry base tag val) es dyn_info_init"

text \<open>A relocation table in memory with the entries \<open>rs\<close> (offset, type information, addend): the words
  to relocate can be written and overlap neither the table nor each other.\<close>

definition relas_ok :: "u64 \<Rightarrow> u64 \<Rightarrow> u64 \<Rightarrow> (u64 \<times> u64 \<times> u64) list \<Rightarrow> host \<Rightarrow> bool" where
  "relas_ok base tab ent rs h \<longleftrightarrow> (\<forall>i<length rs. rela_decode tab ent i h = Some (rs ! i) \<and>
     (case rela_target base (rs ! i) of None \<Rightarrow> True | Some t \<Rightarrow> writable8 h t \<and>
        (\<forall>j<length rs. disjoint_ranges t 8 (table_entry tab ent j) 24 \<and>
           (case rela_target base (rs ! j) of None \<Rightarrow> True | Some u \<Rightarrow> j \<noteq> i \<longrightarrow> disjoint_ranges t 8 u 8))))"

lemma writable8_read: "writable8 h t \<Longrightarrow> \<exists>v. host_u64 h t = Some v"
  by (auto simp: writable8_def host.rdw_def host_read_def list_all_iff can_write_read)

lemma relas_ok_applicable:
  assumes "relas_ok base tab ent rs h"
  shows "rela.applicable tab ent base (\<lambda>i. rs ! i) (\<lambda>i. the (host_u64 h (the (rela_target base (rs ! i))))) 0 (length rs) h"
  unfolding rela.applicable_def
proof (intro ballI conjI allI impI)
  fix k assume k: "k \<in> {0..<0 + length rs}"
  note ok = assms [unfolded relas_ok_def, rule_format, of k]
  show "rela_decode tab ent k h = Some (rs ! k)" using ok k by simp
  fix t assume t: "rela_target base (rs ! k) = Some t"
  show "writable8 h t" using ok k t by simp
  with writable8_read [of h t] t show "host_u64 h t = Some (the (host_u64 h (the (rela_target base (rs ! k)))))" by auto
  show "disjoint_ranges t 8 (table_entry tab ent j) 24" if "j \<in> {0..<0 + length rs}" for j using ok k t that by simp
  show "disjoint_ranges t 8 u 8" if "j \<in> {0..<0 + length rs}" "j \<noteq> k" "rela_target base (rs ! j) = Some u" for j u
    using ok k t that by auto
qed

text \<open>C12: Relocation.  When the dynamic section ends and names a table of relocations with addends that
  lies in memory, whose words to relocate are writable and overlap neither the table nor each other, and
  no table without addends, processing returns: every relative entry leaves the base plus its addend at
  the base plus its offset, and all other memory is unchanged.\<close>

theorem relocations_applied:
  assumes "dynamic_at h dyn es" and "relas_ok base tab ent rs h"
    and "rela_addr (dyn_table base es) = tab" "rela_ent (dyn_table base es) = ent" "tab \<noteq> 0" "ent \<noteq> 0"
    and "unat (rela_size (dyn_table base es) div ent) = length rs"
    and "rel_size (dyn_table base es) = 0"
  shows "\<exists>h'. process_relocations base dyn h = Some (True, h') \<and>
    (\<forall>(off, info, add)\<in>set rs. R_TYPE info = R_AARCH64_RELATIVE \<longrightarrow> host_u64 h' (base + off) = Some (base + add)) \<and>
    (\<forall>b m. (\<forall>(off, info, add)\<in>set rs. R_TYPE info = R_AARCH64_RELATIVE \<longrightarrow> disjoint_ranges (base + off) 8 b m) \<longrightarrow>
       host_read h' b m = host_read h b m)"
proof -
  from rela.patch_all [OF relas_ok_applicable [OF assms(2)]] obtain h'
    where h': "for_loop (rela_step base tab ent) 0 (length rs) h = Some h'"
      "\<And>k t. k < length rs \<Longrightarrow> rela_target base (rs ! k) = Some t \<Longrightarrow> host_u64 h' t = Some (base + snd (snd (rs ! k)))"
      "\<And>b m. (\<And>k t. k < length rs \<Longrightarrow> rela_target base (rs ! k) = Some t \<Longrightarrow> disjoint_ranges t 8 b m) \<Longrightarrow>
         host_read h' b m = host_read h b m" by auto
  have "apply_relas base (dyn_table base es) h = Some h'"
    using assms(3-7) h'(1) by (cases rs) (auto simp: apply_relas_def)
  then have "process_relocations base dyn h = Some (True, h')"
    using scan_dynamic_returns [OF assms(1), of base dyn_info_init] assms(8)
    by (simp add: process_relocations_def dyn_table_def apply_rels_def)
  moreover have "host_u64 h' (base + off) = Some (base + add)"
    if "(off, info, add) \<in> set rs" "R_TYPE info = R_AARCH64_RELATIVE" for off info add
    using that h'(2) by (auto simp: in_set_conv_nth rela_target_def reloc_target_def)
  moreover have "host_read h' b m = host_read h b m"
    if "\<forall>(off, info, add)\<in>set rs. R_TYPE info = R_AARCH64_RELATIVE \<longrightarrow> disjoint_ranges (base + off) 8 b m" for b m
    using that by (intro h'(3)) (fastforce simp: rela_target_def reloc_target_def split: if_splits dest: nth_mem)
  ultimately show ?thesis by blast
qed

text \<open>A library at \<open>0x10000\<close> with one relative relocation, of the word at \<open>0x10200\<close>.\<close>

definition demo_lib :: host where
  "demo_lib = \<lparr>h_byte = (\<lambda>a. case map_of [(0x10000, 7), (0x10009, 1), (0x10010, 8), (0x10018, 24), (0x10020, 9), (0x10028, 24),
       (0x10101, 2), (0x10108, 3), (0x10109, 4), (0x10110, 0x42)] a of None \<Rightarrow> 0 | Some b \<Rightarrow> b), h_prot = (\<lambda>_. Some 3)\<rparr>"

lemmas demo_simps = demo_lib_def host.rdw_def host_read_def can_read_def can_write_def PROT_WRITE_def addrs_def le_word_def
  dt_defs table_entry_def upt_rec

lemma demo_dynamic: "dynamic_at demo_lib 0x10000 [(7, 0x100), (8, 24), (9, 24)]"
  by (simp add: demo_simps)

lemma demo_relas: "relas_ok 0x10000 0x10100 24 [(0x200, 1027, 0x42)] demo_lib"
  by (simp add: relas_ok_def rela_decode_def rela_target_def reloc_target_def R_TYPE_def writable8_def disjoint_ranges_def demo_simps)

theorem relocations_applied_witness:
  "\<exists>h'. process_relocations 0x10000 0x10000 demo_lib = Some (True, h') \<and> host_u64 h' 0x10200 = Some 0x10042 \<and>
     host_read h' 0x10208 8 = host_read demo_lib 0x10208 8"
proof -
  have t: "dyn_table 0x10000 [(7, 0x100), (8, 24), (9, 24)] = dyn_info_init\<lparr>rela_addr := 0x10100, rela_size := 24, rela_ent := 24\<rparr>"
    by (simp add: dyn_table_def dyn_entry_def dt_defs)
  have d: "disjoint_ranges (0x10000 + 0x200) 8 0x10208 8" by (simp add: disjoint_ranges_def addrs_def upt_rec)
  have r: "R_TYPE 1027 = R_AARCH64_RELATIVE" by (simp add: R_TYPE_def dt_defs)
  from relocations_applied [OF demo_dynamic demo_relas] obtain h'
    where h': "process_relocations 0x10000 0x10000 demo_lib = Some (True, h')" "host_u64 h' (0x10000 + 0x200) = Some (0x10000 + 0x42)"
      "\<forall>b m. disjoint_ranges (0x10000 + 0x200) 8 b m \<longrightarrow> host_read h' b m = host_read demo_lib b m"
    unfolding t using r by (auto simp: dyn_info_init_def)
  from h'(3) d have "host_read h' 0x10208 8 = host_read demo_lib 0x10208 8" by blast
  with h'(1,2) show ?thesis by auto
qed

section \<open>The image of a library\<close>

text \<open>The linker places a library as the ELF loader would place one linked at the biased addresses.\<close>

definition biased :: "u64 \<Rightarrow> ELFProgramHeader \<Rightarrow> ELFProgramHeader" where
  "biased base ph = ph\<lparr>ph_vaddr := base + ph_vaddr ph\<rparr>"

lemma and_4095: "v AND 4095 = take_bit 12 v" for v :: u64
  by (simp add: take_bit_eq_mask mask_eq_decr_exp)

lemma take_bit_add_aligned:
  fixes a b :: u64
  assumes "take_bit n a = 0" "n \<le> 64"
  shows "take_bit n (a + b) = take_bit n b"
proof -
  have "take_bit n (unat a) = 0" using assms(1) by (simp flip: unsigned_take_bit_eq)
  then have "take_bit n (unat a + unat b) = take_bit n (unat b)"
    using take_bit_add [of n "unat a" "unat b"] by simp
  moreover have "unat (a + b) = take_bit 64 (unat a + unat b)" by (simp add: unat_word_ariths(1) take_bit_eq_mod)
  ultimately have "unat (take_bit n (a + b)) = unat (take_bit n b)"
    using assms(2) by (simp add: unsigned_take_bit_eq min_def)
  then show ?thesis by simp
qed

lemma biased_seg:
  assumes "base AND 4095 = 0"
  shows "seg_offset (biased base ph) = ph_vaddr ph AND 4095" "seg_page (biased base ph) = base + (ph_vaddr ph AND NOT 4095)"
    "segment_prot (biased base ph) = segment_prot ph"
proof -
  show o: "seg_offset (biased base ph) = ph_vaddr ph AND 4095"
    using take_bit_add_aligned [of 12 base "ph_vaddr ph"] assms by (simp add: seg_offset_def biased_def and_4095)
  show "seg_page (biased base ph) = base + (ph_vaddr ph AND NOT 4095)"
  proof (rule add_right_imp_eq)
    have "seg_page (biased base ph) + (ph_vaddr ph AND 4095) = base + ph_vaddr ph"
      using seg_parts [of "biased base ph"] unfolding o by (simp add: biased_def)
    also have "\<dots> = base + (ph_vaddr ph AND NOT 4095) + (ph_vaddr ph AND 4095)"
      unfolding add.assoc page_split [of "ph_vaddr ph"] ..
    finally show "seg_page (biased base ph) + (ph_vaddr ph AND 4095) = base + (ph_vaddr ph AND NOT 4095) + (ph_vaddr ph AND 4095)" .
  qed
  show "segment_prot (biased base ph) = segment_prot ph" by (simp add: segment_prot_def biased_def)
qed

lemma filling_unique:
  assumes "filling ph g h h1" "filling ph g h h2"
  shows "h1 = h2"
proof -
  have "h_byte h1 a = h_byte h2 a" for a
  proof (cases "in_seg ph a")
    case True
    then have "unat (a - seg_page ph) < unat (seg_map_size ph)" by (simp add: in_seg_def in_range_def word_less_nat_alt)
    moreover have "a = seg_page ph + of_nat (unat (a - seg_page ph))" by simp
    ultimately show ?thesis using assms unfolding filling_def by metis
  next
    case False
    with assms show ?thesis by (simp add: filling_def)
  qed
  moreover have "h_prot h1 = h_prot h2" using assms by (simp add: filling_def fun_eq_iff)
  ultimately show ?thesis by (simp add: fun_eq_iff)
qed

lemma lib_segment_biased:
  assumes "os_grants os" "base AND 4095 = 0" "seg_ok data (biased base ph)"
  shows "lib_segment os data base ph mm h = load_segment os data (biased base ph) mm h"
proof -
  let ?q = "biased base ph" let ?p = "seg_page ?q" let ?off = "unat (seg_offset ?q)"
  from assms(1,3) obtain mm0 h0 h1 h2 where f: "mm_mmap os (seg_map_size ?q) (segment_prot ?q OR PROT_WRITE) ?p mm h = (?p, mm0, h0)"
    "(if ph_filesz ?q > 0 then copy_from_file data (?p + seg_offset ?q) (ph_offset ?q) (ph_filesz ?q) h0 else Some h0) = Some h1"
    "(if ph_memsz ?q > ph_filesz ?q then host_zero (?p + seg_offset ?q + ph_filesz ?q) (ph_memsz ?q - ph_filesz ?q) h1
      else Some h1) = Some h2"
    "filling ?q (seg_byte data ?q) h h2" by (rule fill_segment)
  have "?off \<le> unat (seg_map_size ?q)"
    using unat_seg_map_size [OF assms(3)] round_up_ge [of "?off + unat (ph_memsz ?q)"] by simp
  then have z: "(if seg_offset ?q > 0 then host_zero ?p (seg_offset ?q) h2 else Some h2) = Some h2"
    using filling_zero [OF f(4), of 0 ?off] filling_unique [OF f(4)]
    by (cases "seg_offset ?q > 0") (auto simp: host_zero_def seg_byte_def Let_def)
  have eq: "ph_filesz ?q = ph_filesz ph" "ph_memsz ?q = ph_memsz ph" "ph_offset ?q = ph_offset ph" by (simp_all add: biased_def)
  note u = biased_seg [OF assms(2), of ph, symmetric] seg_map_size_def [of ?q, symmetric]
  show ?thesis
    unfolding lib_segment_def load_segment_def Let_def eq [symmetric] u f(1) prod.case f(2) f(3) z bind.simps
    by simp
qed

lemma lib_segments_biased:
  assumes "os_grants os" "base AND 4095 = 0" "segs_ok data (map (biased base) phs)"
  shows "lib_segments os data base phs mm h = load_segments os data (map (biased base) phs) mm h"
  using assms(3)
proof (induction phs arbitrary: mm h)
  case (Cons ph phs)
  have t: "ph_type (biased base ph) = ph_type ph" by (simp add: biased_def)
  show ?case
  proof (cases "ph_type ph = PT_LOAD")
    case True
    with Cons.prems t have "lib_segment os data base ph mm h = load_segment os data (biased base ph) mm h"
      using lib_segment_biased [OF assms(1,2)] by auto
    with Cons True t show ?thesis by (auto split: Option.bind_split)
  next
    case False
    with Cons t show ?thesis by simp
  qed
qed simp

lemma lib_base_aligned: "lib_base phs AND 4095 = 0"
  by (simp add: lib_base_def and.assoc)

definition lib_header_ok :: "u8 list \<Rightarrow> bool" where
  "lib_header_ok data \<longleftrightarrow> length data \<ge> sizeof_Ehdr \<and> elf_magic data \<and> field data 18 2 = Some EM_AARCH64"

text \<open>C20: Loading a library.  When the file is an ARM64 library whose headers lie inside it, and its
  segments, moved up by the library's base (the page of its lowest address), lie in the file, away from
  page 0 and on pages of their own, and the system grants the mappings, every segment is in memory at its
  biased address with its bytes and protection, nothing else has changed, and the result is that of
  relocating this image at the biased dynamic section, with the library recorded; without a dynamic
  section the image is the result.\<close>

theorem load_library_image:
  assumes "os_grants os" "map_file path = Some data" "lib_header_ok data" "elf_table_ok data"
    and base: "base = lib_base (elf_phdrs data)" and "segs_ok data (map (biased base) (elf_phdrs data))"
  shows "\<exists>mm' h'.
    (\<forall>ph\<in>set (elf_phdrs data). ph_type ph = PT_LOAD \<longrightarrow> seg_image data (biased base ph) h') \<and>
    (\<forall>a. (\<forall>ph\<in>set (elf_phdrs data). ph_type ph = PT_LOAD \<longrightarrow> \<not> in_seg (biased base ph) a) \<longrightarrow>
       h_byte h' a = h_byte h a \<and> h_prot h' a = h_prot h a) \<and>
    load_library os map_file path dl mm h =
      map_option (\<lambda>h''. (True, dl\<lparr>dl_loaded_libs := dl_loaded_libs dl @ [\<lparr>ll_path = path, ll_base_addr = base\<rparr>]\<rparr>, mm', h''))
        (if lib_dynamic base (elf_phdrs data) = 0 then Some h'
         else map_option snd (process_relocations base (lib_dynamic base (elf_phdrs data)) h'))"
proof -
  let ?phs = "elf_phdrs data"
  have t: "ph_type (biased base ph) = ph_type ph" for ph by (simp add: biased_def)
  have al: "base AND 4095 = 0" unfolding base by (rule lib_base_aligned)
  from load_segments_image [OF assms(1,6), of mm h] obtain mm' h'
    where l: "lib_segments os data base ?phs mm h = Some (True, mm', h')"
      "\<forall>ph\<in>set ?phs. ph_type ph = PT_LOAD \<longrightarrow> seg_image data (biased base ph) h'"
      "\<forall>a. (\<forall>ph\<in>set ?phs. ph_type ph = PT_LOAD \<longrightarrow> \<not> in_seg (biased base ph) a) \<longrightarrow>
         h_byte h' a = h_byte h a \<and> h_prot h' a = h_prot h a"
    unfolding lib_segments_biased [OF assms(1) al assms(6), symmetric] by (auto simp: t)
  have "load_library os map_file path dl mm h =
      map_option (\<lambda>h''. (True, dl\<lparr>dl_loaded_libs := dl_loaded_libs dl @ [\<lparr>ll_path = path, ll_base_addr = base\<rparr>]\<rparr>, mm', h''))
        (if lib_dynamic base ?phs = 0 then Some h' else map_option snd (process_relocations base (lib_dynamic base ?phs) h'))"
    using assms(2,3) elf_table_phdrs [OF assms(4)] l(1) base
    by (cases "process_relocations base (lib_dynamic base ?phs) h'")
      (auto simp: load_library_def lib_header_ok_def field_Some sizeof_Ehdr_def file_u64_def file_u16_def)
  with l(2,3) show ?thesis by blast
qed

theorem load_library_image_witness:
  "let os = \<lparr>os_mmap = (\<lambda>_ _ _. True), os_munmap = (\<lambda>_ _. 0), os_mprotect = (\<lambda>_ _ _. 0)\<rparr>;
       h = \<lparr>h_byte = (\<lambda>_. 9), h_prot = (\<lambda>_. None)\<rparr>
   in \<exists>mm' h'. load_library os (\<lambda>_. Some demo_elf) ''demo'' DynLink_init MemoryManager_init h =
        Some (True, \<lparr>dl_loaded_libs = [\<lparr>ll_path = ''demo'', ll_base_addr = 0x400000\<rparr>]\<rparr>, mm', h') \<and> h_byte h' 0x800010 = 0xC0"
proof -
  let ?os = "\<lparr>os_mmap = (\<lambda>_ _ _. True), os_munmap = (\<lambda>_ _. 0), os_mprotect = (\<lambda>_ _ _. 0)\<rparr>"
  have os: "os_grants ?os" by (simp add: os_grants_def)
  have hd: "lib_header_ok demo_elf" using demo_elf_ok(1) by (simp add: lib_header_ok_def elf_header_ok_def)
  have b: "0x400000 = lib_base (elf_phdrs demo_elf)" by (simp add: demo_elf_ok lib_base_def demo_phdr_def PT_LOAD_def)
  have s: "segs_ok demo_elf (map (biased 0x400000) (elf_phdrs demo_elf))"
    unfolding demo_elf_ok by (simp add: seg_ok_def biased_def demo_phdr_def seg_page_def elf_defs demo_elf_def)
  have d: "ph_type demo_phdr = PT_LOAD" "PT_LOAD \<noteq> PT_DYNAMIC" by (simp_all add: demo_phdr_def elf_defs)
  from load_library_image [OF os _ hd demo_elf_ok(2) b s, where map_file = "\<lambda>_. Some demo_elf" and path = "''demo''"
      and dl = DynLink_init and mm = MemoryManager_init and h = "\<lparr>h_byte = (\<lambda>_. 9), h_prot = (\<lambda>_. None)\<rparr>"]
  obtain mm' h' where l: "load_library ?os (\<lambda>_. Some demo_elf) ''demo'' DynLink_init MemoryManager_init
      \<lparr>h_byte = (\<lambda>_. 9), h_prot = (\<lambda>_. None)\<rparr> =
        Some (True, \<lparr>dl_loaded_libs = [\<lparr>ll_path = ''demo'', ll_base_addr = 0x400000\<rparr>]\<rparr>, mm', h')"
      "\<forall>ph\<in>set [demo_phdr]. ph_type ph = PT_LOAD \<longrightarrow> seg_image demo_elf (biased 0x400000 ph) h'"
    by (auto simp: d DynLink_init_def demo_elf_ok)
  have "16 < unat (seg_map_size (biased 0x400000 demo_phdr))"
    by (simp add: demo_phdr_def biased_def seg_map_size_def seg_offset_def)
  with l(2) d(1) have "h_byte h' (seg_page (biased 0x400000 demo_phdr) + of_nat 16) = seg_byte demo_elf (biased 0x400000 demo_phdr) 16"
    unfolding seg_image_def by (metis list.set_intros(1))
  then have "h_byte h' 0x800010 = 0xC0"
    by (simp add: seg_page_def biased_def demo_phdr_def seg_byte_def seg_offset_def demo_elf_def)
  with l(1) show ?thesis by (simp add: Let_def)
qed

end
