(* ===== verification/Threads.thy ===== *)
theory Threads
  imports Exec_Engine
begin

text \<open>
  Threads and thread-local storage (\<^verbatim>\<open>src/src/threading/thread_manager.cpp\<close>, \<^verbatim>\<open>tls_emu.cpp\<close> and their
  headers).  A \<^verbatim>\<open>std::thread\<close> is modelled by whether it is joinable: a handle that runs a function is, a
  default or moved-from one is not, and destroying a joinable handle ends the process
  (\<^verbatim>\<open>std::terminate\<close>).  The table is a vector: a pointer to an entry is the entry's index and the number of
  the allocation it lies in, and dangles once the vector has moved to a larger one.  How the vector grows
  (\<open>grow\<close>) and what \<^verbatim>\<open>arch_prctl\<close> answers are parameters.
\<close>

section \<open>The thread table\<close>

record ThreadInfo =
  ti_tid :: u64
  ti_thread :: bool
  ti_ctx :: CPUContext
  ti_active :: bool

record ThreadManager =
  tm_threads :: "ThreadInfo list"
  tm_capacity :: nat
  tm_allocation :: nat
  tm_next_tid :: u64

definition ThreadManager_init :: ThreadManager where
  "ThreadManager_init = \<lparr>tm_threads = [], tm_capacity = 0, tm_allocation = 0, tm_next_tid = 1\<rparr>"

type_synonym info_ptr = "nat \<times> nat"

definition emplace_back :: "(nat \<Rightarrow> nat) \<Rightarrow> ThreadInfo \<Rightarrow> ThreadManager \<Rightarrow> info_ptr \<times> ThreadManager" where
  "emplace_back grow info tm =
    (let n = length (tm_threads tm);
         tm = (if n < tm_capacity tm then tm
               else tm\<lparr>tm_capacity := max (Suc n) (grow (tm_capacity tm)), tm_allocation := Suc (tm_allocation tm)\<rparr>)
     in ((tm_allocation tm, n), tm\<lparr>tm_threads := tm_threads tm @ [info]\<rparr>))"

definition thread_at :: "info_ptr \<Rightarrow> ThreadManager \<Rightarrow> ThreadInfo option" where
  "thread_at p tm =
    (case p of (a, i) \<Rightarrow> if a = tm_allocation tm \<and> i < length (tm_threads tm) then Some (tm_threads tm ! i) else None)"

datatype 'a outcome = Returned 'a | Terminated

text \<open>The end of a scope that owns a thread handle.\<close>

definition drop_handle :: "bool \<Rightarrow> 'a \<Rightarrow> 'a outcome" where
  "drop_handle joinable r = (if joinable then Terminated else Returned r)"

text \<open>\<open>create_thread\<close>: the entry is moved into the table before the thread is started, and the handle of
  the started thread is assigned to the local \<open>info\<close>.  The result has the table, the value stored at
  \<open>ptid\<close> if it is not null, and the pointer to the entry that the thread runs on.\<close>

definition child_ctx :: "u64 \<Rightarrow> u64 \<Rightarrow> u64 \<Rightarrow> CPUContext \<Rightarrow> CPUContext" where
  "child_ctx tid stack tls parent =
     parent\<lparr>ctx_sp := stack, ctx_tpidr_el0 := tls, ctx_tid := tid, ctx_x := (ctx_x parent)[0 := 0]\<rparr>"

definition create_thread :: "(nat \<Rightarrow> nat) \<Rightarrow> u64 \<Rightarrow> u64 \<Rightarrow> u64 \<Rightarrow> u64 \<Rightarrow> u64 \<Rightarrow> CPUContext \<Rightarrow> ThreadManager \<Rightarrow>
    i32 outcome \<times> i32 option \<times> info_ptr \<times> ThreadManager" where
  "create_thread grow flags stack ptid tls ctid parent_ctx tm =
    (let tid = tm_next_tid tm;
         tm = tm\<lparr>tm_next_tid := tid + 1\<rparr>;
         info = \<lparr>ti_tid = tid, ti_thread = False, ti_ctx = child_ctx tid stack tls parent_ctx, ti_active = True\<rparr>;
         (entry, tm) = emplace_back grow info tm;
         info = info\<lparr>ti_thread := True\<rparr>
     in (drop_handle (ti_thread info) (ucast (ti_tid info)),
         if ptid \<noteq> 0 then Some (ucast (ti_tid info)) else None, entry, tm))"

definition exit_thread :: "i32 \<Rightarrow> ThreadManager \<Rightarrow> ThreadManager" where
  "exit_thread status tm = tm"

definition current_tid :: "ThreadManager \<Rightarrow> u64" where
  "current_tid tm = 0"

fun find_context :: "u64 \<Rightarrow> ThreadInfo list \<Rightarrow> CPUContext option" where
  "find_context tid [] = None"
| "find_context tid (t # ts) = (if ti_tid t = tid \<and> ti_active t then Some (ti_ctx t) else find_context tid ts)"

definition get_context :: "u64 \<Rightarrow> ThreadManager \<Rightarrow> CPUContext option" where
  "get_context tid tm = find_context tid (tm_threads tm)"

definition set_tls :: "u64 \<Rightarrow> ThreadManager \<Rightarrow> ThreadManager" where
  "set_tls tpidr tm = tm"

definition get_tls :: "ThreadManager \<Rightarrow> u64" where
  "get_tls tm = 0"

text \<open>\<open>join_all\<close>: the threads that are waited for, and the table after.\<close>

fun join_threads :: "ThreadInfo list \<Rightarrow> u64 list \<times> ThreadInfo list" where
  "join_threads [] = ([], [])"
| "join_threads (t # ts) = (let (w, ts) = join_threads ts in
     if ti_thread t then (ti_tid t # w, t\<lparr>ti_thread := False\<rparr> # ts) else (w, t # ts))"

definition join_all :: "ThreadManager \<Rightarrow> u64 list \<times> ThreadManager" where
  "join_all tm = (let (w, ts) = join_threads (tm_threads tm) in (w, tm\<lparr>tm_threads := ts\<rparr>))"

text \<open>\<open>thread_entry\<close>: the engine is the manager's, with its own context.  \<open>others\<close> is what the other threads
  do to the table while this one runs; the entry is written through the pointer afterwards.\<close>

definition thread_done :: "info_ptr \<Rightarrow> ThreadManager \<Rightarrow> ThreadManager option" where
  "thread_done p tm = map_option (\<lambda>info. tm\<lparr>tm_threads := (tm_threads tm)[snd p := info\<lparr>ti_active := False\<rparr>]\<rparr>) (thread_at p tm)"

definition thread_entry :: "host_cpu \<Rightarrow> 'k kernel \<Rightarrow> (ThreadManager \<Rightarrow> ThreadManager) \<Rightarrow> info_ptr \<Rightarrow> ThreadManager \<Rightarrow> 'k engine \<Rightarrow>
    (ThreadManager \<times> 'k engine) option" where
  "thread_entry cpu K others p tm en = do {
     info \<leftarrow> thread_at p tm;
     let tm = set_tls (ctx_tpidr_el0 (ti_ctx info)) tm;
     (iter, en) \<leftarrow> run cpu K (ctx_pc (ti_ctx info)) en;
     tm \<leftarrow> thread_done p (others tm);
     Some (tm, en) }"

section \<open>Thread-local storage\<close>

type_synonym tls_emu = u64

text \<open>The base of the current thread, initially 0.\<close>

definition set_tls_base :: "(u64 \<Rightarrow> i64) \<Rightarrow> u64 \<Rightarrow> tls_emu \<Rightarrow> bool \<times> tls_emu" where
  "set_tls_base arch_set_fs addr tls = (arch_set_fs addr = 0, addr)"

definition get_tls_base :: "tls_emu \<Rightarrow> u64" where
  "get_tls_base tls = tls"

definition read_tls :: "u64 \<Rightarrow> nat \<Rightarrow> tls_emu \<Rightarrow> host \<Rightarrow> u8 list option option" where
  "read_tls offset n tls h = (if tls = 0 then Some None else map_option Some (host_read h (tls + offset) n))"

definition write_tls :: "u64 \<Rightarrow> u8 list \<Rightarrow> tls_emu \<Rightarrow> host \<Rightarrow> (bool \<times> host) option" where
  "write_tls offset src tls h = (if tls = 0 then Some (False, h) else map_option (Pair True) (host_write h (tls + offset) src))"

definition tls_block_size :: "u64 \<Rightarrow> u64" where
  "tls_block_size sz = ((sz + 63) AND NOT 63) + 64"

definition allocate_tls_block :: "os \<Rightarrow> u64 \<Rightarrow> MemoryManager \<Rightarrow> host \<Rightarrow> (u64 \<times> MemoryManager \<times> host) option" where
  "allocate_tls_block os sz mm h =
    (let sz = tls_block_size sz; (addr, mm, h) = mm_mmap os sz (PROT_READ OR PROT_WRITE) 0 mm h
     in if addr = 0 then Some (0, mm, h)
        else map_option (\<lambda>h. (addr, mm, h)) (host_write h addr (replicate (unat sz) 0)))"

section \<open>Starting and ending a thread\<close>

lemma find_context_append:
  "find_context tid (ts @ us) = (case find_context tid ts of None \<Rightarrow> find_context tid us | Some c \<Rightarrow> Some c)"
  by (induction ts) auto

lemma find_context_fresh: "tid \<notin> ti_tid ` set ts \<Longrightarrow> find_context tid ts = None"
  by (induction ts) auto

lemma emplace_back_result:
  assumes "emplace_back grow info tm = (p, tm')"
  shows "tm_threads tm' = tm_threads tm @ [info]" "tm_next_tid tm' = tm_next_tid tm" "thread_at p tm' = Some info"
    "snd p = length (tm_threads tm)" "tm_capacity tm \<le> length (tm_threads tm) \<Longrightarrow> tm_allocation tm' = Suc (tm_allocation tm)"
  using assms by (auto simp: emplace_back_def thread_at_def Let_def split: if_splits)

lemma thread_done_moved:
  assumes "thread_at p tm = Some info" "tm_capacity tm \<le> length (tm_threads tm)" "emplace_back grow new tm = (q, tm')"
  shows "thread_done p tm' = None"
  using assms emplace_back_result(5) [OF assms(3,2)] by (auto simp: thread_done_def thread_at_def split: prod.splits if_splits)

text \<open>C27: Starting a thread under a number that the table does not have.  The new entry is active under this
  number, with the parent's registers except the given stack, thread pointer and number, and 0 in x0; other
  threads are found as before, the number is stored at \<open>ptid\<close>, and the pointer handed to the thread leads to
  the entry.  But the entry's handle is not joinable, so that \<open>join_all\<close> will not wait for it, and the running
  thread's handle is left in the local variable, so the process is terminated at the end of the call.\<close>

theorem create_thread_result:
  assumes "tm_next_tid tm \<notin> ti_tid ` set (tm_threads tm)"
    and "create_thread grow flags stack ptid tls ctid parent tm = (r, p, i, tm')"
  shows "r = Terminated \<and>
    get_context (tm_next_tid tm) tm' = Some (child_ctx (tm_next_tid tm) stack tls parent) \<and>
    (\<forall>tid. tid \<noteq> tm_next_tid tm \<longrightarrow> get_context tid tm' = get_context tid tm) \<and>
    p = (if ptid = 0 then None else Some (ucast (tm_next_tid tm))) \<and> snd i = length (tm_threads tm) \<and>
    map_option (\<lambda>info. (ti_tid info, ti_active info, ti_thread info)) (thread_at i tm') = Some (tm_next_tid tm, True, False)"
proof -
  let ?info = "\<lparr>ti_tid = tm_next_tid tm, ti_thread = False, ti_ctx = child_ctx (tm_next_tid tm) stack tls parent, ti_active = True\<rparr>"
  obtain tm2 where tm2: "emplace_back grow ?info (tm\<lparr>tm_next_tid := tm_next_tid tm + 1\<rparr>) = (i, tm2)" "tm' = tm2"
    using assms(2) by (auto simp: create_thread_def Let_def split: prod.splits)
  have "find_context (tm_next_tid tm) (tm_threads tm) = None" using assms(1) by (rule find_context_fresh)
  with assms(2) emplace_back_result [OF tm2(1)] tm2 show ?thesis
    by (auto simp: create_thread_def drop_handle_def get_context_def find_context_append Let_def split: option.split)
qed

theorem create_thread_result_witness:
  "case create_thread (\<lambda>n. 2 * n) 0 0x1000 0 0x2000 0 CPUContext_init ThreadManager_init of (r, p, i, tm) \<Rightarrow>
     r = Terminated \<and> get_context 1 tm = Some (child_ctx 1 0x1000 0x2000 CPUContext_init)"
proof (cases "create_thread (\<lambda>n. 2 * n) 0 0x1000 0 0x2000 0 CPUContext_init ThreadManager_init")
  case (fields r p i tm)
  from create_thread_result [OF _ fields] fields show ?thesis by (simp add: ThreadManager_init_def)
qed

section \<open>Storage blocks\<close>

lemma unat_tls_block_size:
  assumes "unat sz + 4223 < 2 ^ 64"
  shows "unat sz + 64 \<le> unat (tls_block_size sz)" "unat (tls_block_size sz) \<le> unat sz + 127"
proof -
  let ?x = "sz + 63"
  have x: "unat ?x = unat sz + 63" using assms by (subst unat_plus_if') simp
  have "(?x AND NOT 63) + (?x AND 63) = (?x AND NOT 63) OR (?x AND 63)"
    by (rule disjunctive_add) (auto simp: bit_simps)
  also have "\<dots> = ?x" by (rule bit_word_eqI) (auto simp: bit_simps)
  finally have y: "?x AND NOT 63 = ?x - (?x AND 63)" by (simp add: eq_diff_eq)
  have le: "unat (?x AND 63) \<le> 63" "unat (?x AND 63) \<le> unat ?x"
    using word_and_le1 [of ?x 63] word_and_le2 [of ?x 63] by (simp_all add: word_le_nat_alt and.commute)
  then have "unat (?x AND NOT 63) = unat ?x - unat (?x AND 63)" unfolding y by (intro unat_sub) (simp add: word_le_nat_alt)
  then have "unat (?x AND NOT 63) \<ge> unat sz" "unat (?x AND NOT 63) \<le> unat sz + 63" using x le by linarith+
  moreover from this have "unat (tls_block_size sz) = unat (?x AND NOT 63) + 64"
    unfolding tls_block_size_def using assms by (subst unat_plus_if') simp
  ultimately show "unat sz + 64 \<le> unat (tls_block_size sz)" "unat (tls_block_size sz) \<le> unat sz + 127" by linarith+
qed

lemma upd_all_zeros: "length xs = n \<Longrightarrow> (\<And>x. x \<in> set xs \<Longrightarrow> f x = 0) \<Longrightarrow> upd_all xs (replicate n 0) f = f"
proof (induction n arbitrary: xs)
  case (Suc n)
  then obtain x ys where xs: "xs = x # ys" by (cases xs) auto
  with Suc.prems(2) have "f(x := 0) = f" by auto
  with Suc xs show ?case by simp
qed simp



end
