(* ===== verification/Util.thy ===== *)
theory Util
  imports Prelude "HOL-Library.AList" "HOL-Library.Multiset"
begin

text \<open>
  The utilities (\<^verbatim>\<open>src/src/util\<close>): the configuration read from the environment, the logger's levels and the
  profiler's counters.  The environment is a parameter, a function from names to values; writing to the
  error stream and the clock are left out.
\<close>

section \<open>Configuration\<close>

record Config =
  cfg_dump_blocks :: bool
  cfg_log_syscalls :: bool
  cfg_log_signals :: bool
  cfg_smc_detect :: bool
  cfg_max_block_size :: u32
  cfg_cache_size_mb :: u32
  cfg_log_file :: string
  cfg_cache_dir :: string

definition Config_init :: Config where
  "Config_init = \<lparr>cfg_dump_blocks = False, cfg_log_syscalls = False, cfg_log_signals = False, cfg_smc_detect = True,
     cfg_max_block_size = 64, cfg_cache_size_mb = 64, cfg_log_file = [], cfg_cache_dir = []\<rparr>"

text \<open>\<^verbatim>\<open>strtoul\<close> with base 10: leading white space, an optional sign, the longest run of digits, the
  largest value on overflow, and negation modulo \<open>2 ^ 64\<close> after a minus sign.\<close>

definition is_digit :: "char \<Rightarrow> bool" where
  "is_digit c \<longleftrightarrow> 48 \<le> (of_char c :: nat) \<and> (of_char c :: nat) \<le> 57"

definition is_space :: "char \<Rightarrow> bool" where
  "is_space c \<longleftrightarrow> (of_char c :: nat) = 32 \<or> 9 \<le> (of_char c :: nat) \<and> (of_char c :: nat) \<le> 13"

definition digits_value :: "string \<Rightarrow> nat" where
  "digits_value ds = foldl (\<lambda>n c. 10 * n + (of_char c - 48)) 0 ds"

definition strtoul :: "string \<Rightarrow> u64" where
  "strtoul s =
    (let s = dropWhile is_space s;
         (neg, s) = (case s of c # cs \<Rightarrow> if c = CHR ''-'' then (True, cs) else if c = CHR ''+'' then (False, cs) else (False, s)
                     | [] \<Rightarrow> (False, s));
         n = digits_value (takeWhile is_digit s)
     in if n \<ge> 2 ^ 64 then - 1 else if neg then - of_nat n else of_nat n)"

definition starts_with :: "string option \<Rightarrow> char \<Rightarrow> bool" where
  "starts_with v c = (case v of Some (d # _) \<Rightarrow> d = c | _ \<Rightarrow> False)"

definition Config_load :: "(string \<Rightarrow> string option) \<Rightarrow> Config" where
  "Config_load getenv =
    (let cfg = Config_init;
         cfg = (if starts_with (getenv ''BBARM64_DUMP'') (CHR ''1'') then cfg\<lparr>cfg_dump_blocks := True\<rparr> else cfg);
         cfg = (if starts_with (getenv ''BBARM64_LOG_SYSCALLS'') (CHR ''1'') then cfg\<lparr>cfg_log_syscalls := True\<rparr> else cfg);
         cfg = (if starts_with (getenv ''BBARM64_LOG_SIGNALS'') (CHR ''1'') then cfg\<lparr>cfg_log_signals := True\<rparr> else cfg);
         cfg = (if starts_with (getenv ''BBARM64_SMC_DETECT'') (CHR ''0'') then cfg\<lparr>cfg_smc_detect := False\<rparr> else cfg);
         cfg = (case getenv ''BBARM64_MAX_BLOCK'' of Some v \<Rightarrow> cfg\<lparr>cfg_max_block_size := ucast (strtoul v)\<rparr> | None \<Rightarrow> cfg);
         cfg = (case getenv ''BBARM64_CACHE_SIZE'' of Some v \<Rightarrow> cfg\<lparr>cfg_cache_size_mb := ucast (strtoul v)\<rparr> | None \<Rightarrow> cfg);
         cfg = (case getenv ''BBARM64_LOG_FILE'' of Some v \<Rightarrow> cfg\<lparr>cfg_log_file := v\<rparr> | None \<Rightarrow> cfg)
     in case getenv ''BBARM64_CACHE_DIR'' of
          Some v \<Rightarrow> cfg\<lparr>cfg_cache_dir := v\<rparr>
        | None \<Rightarrow> (case getenv ''HOME'' of Some home \<Rightarrow> cfg\<lparr>cfg_cache_dir := home @ ''/.cache/bbarm64''\<rparr> | None \<Rightarrow> cfg))"

section \<open>Logging\<close>

datatype LogLevel = ERROR | WARN | INFO | DEBUG | TRACE

fun level_nr :: "LogLevel \<Rightarrow> nat" where
  "level_nr ERROR = 0"
| "level_nr WARN = 1"
| "level_nr INFO = 2"
| "level_nr DEBUG = 3"
| "level_nr TRACE = 4"

lemma level_nr_inject: "level_nr a = level_nr b \<longleftrightarrow> a = b"
  by (cases a; cases b) simp_all

instantiation LogLevel :: linorder
begin

definition less_eq_LogLevel :: "LogLevel \<Rightarrow> LogLevel \<Rightarrow> bool" where
  "less_eq_LogLevel a b \<longleftrightarrow> level_nr a \<le> level_nr b"

definition less_LogLevel :: "LogLevel \<Rightarrow> LogLevel \<Rightarrow> bool" where
  "less_LogLevel a b \<longleftrightarrow> level_nr a < level_nr b"

instance
  by standard (auto simp: less_eq_LogLevel_def less_LogLevel_def level_nr_inject)

end

fun log_prefix :: "LogLevel \<Rightarrow> string" where
  "log_prefix ERROR = ''[ERROR]''"
| "log_prefix WARN = ''[WARN] ''"
| "log_prefix INFO = ''[INFO] ''"
| "log_prefix DEBUG = ''[DEBUG]''"
| "log_prefix TRACE = ''[TRACE]''"

text \<open>The line written for a message, if any, at the logger's level.\<close>

definition log_line :: "LogLevel \<Rightarrow> LogLevel \<Rightarrow> string \<Rightarrow> string option" where
  "log_line logger_level level msg = (if level > logger_level then None else Some (log_prefix level @ '' '' @ msg @ [CHR 0x0A]))"

section \<open>Profiling\<close>

record BlockStats =
  bs_arm_pc :: u64
  bs_hit_count :: u32
  bs_instr_count :: u32

record Profiler =
  pr_block_stats :: "(u64 \<times> BlockStats) list"
  pr_syscall_counts :: "(i32 \<times> u64) list"
  pr_total_blocks :: u64
  pr_total_syscalls :: u64

definition Profiler_init :: Profiler where
  "Profiler_init = \<lparr>pr_block_stats = [], pr_syscall_counts = [], pr_total_blocks = 0, pr_total_syscalls = 0\<rparr>"

definition record_block :: "u64 \<Rightarrow> u32 \<Rightarrow> Profiler \<Rightarrow> Profiler" where
  "record_block arm_pc instr_count p =
    (let stats = (case map_of (pr_block_stats p) arm_pc of Some s \<Rightarrow> s
                  | None \<Rightarrow> \<lparr>bs_arm_pc = 0, bs_hit_count = 0, bs_instr_count = 0\<rparr>);
         stats = stats\<lparr>bs_arm_pc := arm_pc, bs_hit_count := bs_hit_count stats + 1, bs_instr_count := instr_count\<rparr>
     in p\<lparr>pr_block_stats := AList.update arm_pc stats (pr_block_stats p), pr_total_blocks := pr_total_blocks p + 1\<rparr>)"

definition record_syscall :: "i32 \<Rightarrow> Profiler \<Rightarrow> Profiler" where
  "record_syscall nr p =
    (let c = (case map_of (pr_syscall_counts p) nr of Some c \<Rightarrow> c | None \<Rightarrow> 0)
     in p\<lparr>pr_syscall_counts := AList.update nr (c + 1) (pr_syscall_counts p), pr_total_syscalls := pr_total_syscalls p + 1\<rparr>)"

text \<open>The blocks \<open>print_stats\<close> lists: the first ten by hits.  Blocks with equal counts may come in any order.\<close>

definition hot_blocks :: "Profiler \<Rightarrow> BlockStats list" where
  "hot_blocks p = take 10 (rev (sort_key bs_hit_count (map snd (pr_block_stats p))))"

definition unique_blocks :: "Profiler \<Rightarrow> nat" where
  "unique_blocks p = length (pr_block_stats p)"

definition Profiler_reset :: "Profiler \<Rightarrow> Profiler" where
  "Profiler_reset p = p\<lparr>pr_block_stats := [], pr_syscall_counts := [], pr_total_blocks := 0, pr_total_syscalls := 0\<rparr>"

text \<open>\<open>main\<close> estimates the number of cache entries from the size in 32-bit arithmetic.\<close>

definition cache_entries :: "Config \<Rightarrow> u32" where
  "cache_entries cfg = cfg_cache_size_mb cfg * 1024 * 1024 div 64"

section \<open>Numbers in the environment\<close>

fun decimal :: "nat \<Rightarrow> string" where
  "decimal n = (if n < 10 then [char_of (48 + n)] else decimal (n div 10) @ [char_of (48 + n mod 10)])"

declare decimal.simps [simp del]

lemma of_char_digit: "k < 10 \<Longrightarrow> of_char (char_of (48 + k)) = 48 + k" for k :: nat
  by (simp add: take_bit_nat_eq_self)

lemma digit_char: "k < 10 \<Longrightarrow> is_digit (char_of (48 + k))" for k :: nat
  by (simp add: is_digit_def of_char_digit del: of_char_of)

lemma decimal_digits: "list_all is_digit (decimal n) \<and> decimal n \<noteq> []"
proof (induction n rule: decimal.induct)
  case (1 n)
  then show ?case
    by (subst (1 2) decimal.simps) (auto simp: digit_char)
qed

lemma digits_value_decimal: "digits_value (decimal n) = n"
proof (induction n rule: decimal.induct)
  case (1 n)
  then show ?case
    by (subst decimal.simps) (auto simp: digits_value_def of_char_digit simp del: of_char_of)
qed

lemma strtoul_decimal:
  assumes "n < 2 ^ 64"
  shows "strtoul (decimal n) = of_nat n"
proof -
  obtain c cs where d: "decimal n = c # cs" "is_digit c" using decimal_digits [of n] by (cases "decimal n") auto
  have tw: "takeWhile is_digit cs = cs" using decimal_digits [of n] d unfolding takeWhile_eq_all_conv list_all_iff by simp
  have "\<not> is_space c" "c \<noteq> CHR ''-''" "c \<noteq> CHR ''+''" using d(2) by (auto simp: is_digit_def is_space_def)
  then show ?thesis using assms d digits_value_decimal [of n] by (simp add: strtoul_def tw Let_def)
qed

text \<open>C40: A cache size given in decimal is read back, and the number of entries derived from it is 16384
  for every megabyte, but modulo \<open>2 ^ 26\<close>: the product wraps at 4096 megabytes.\<close>

theorem cache_size_from_environment:
  assumes "getenv ''BBARM64_CACHE_SIZE'' = Some (decimal n)" "n < 2 ^ 32"
  shows "unat (cfg_cache_size_mb (Config_load getenv)) = n \<and>
    unat (cache_entries (Config_load getenv)) = n mod 4096 * 16384"
proof -
  have "unat (ucast (of_nat n :: u64) :: u32) = n" using assms(2) by (simp add: unsigned_ucast_eq unsigned_of_nat take_bit_nat_eq_self)
  moreover have "cfg_cache_size_mb (Config_load getenv) = ucast (of_nat n :: u64)"
    using assms strtoul_decimal [of n] by (simp add: Config_load_def Config_init_def Let_def split: option.split)
  ultimately have 1: "unat (cfg_cache_size_mb (Config_load getenv)) = n" by simp
  have "unat (cfg_cache_size_mb (Config_load getenv) * 1024 * 1024) = n * 1048576 mod 2 ^ 32"
    using 1 by (simp add: unat_word_ariths mod_mult_left_eq mult.assoc)
  moreover have "n * 1048576 mod 2 ^ 32 div 64 = n mod 4096 * 16384"
    using mult_mod_left [of n 4096 1048576] by simp
  ultimately have "unat (cache_entries (Config_load getenv)) = n mod 4096 * 16384"
    unfolding cache_entries_def unat_div_distrib by simp
  with 1 show ?thesis by simp
qed

theorem cache_size_from_environment_witness:
  "unat (cache_entries (Config_load (\<lambda>v. if v = ''BBARM64_CACHE_SIZE'' then Some (decimal 4096) else None))) = 0"
  using cache_size_from_environment [of "\<lambda>v. if v = ''BBARM64_CACHE_SIZE'' then Some (decimal 4096) else None" 4096] by simp

section \<open>Counters\<close>

definition profile :: "(u64 \<times> u32) list \<Rightarrow> Profiler \<Rightarrow> Profiler" where
  "profile = fold (\<lambda>(pc, n). record_block pc n)"

definition hits_of :: "Profiler \<Rightarrow> u64 \<Rightarrow> u32" where
  "hits_of p pc = (case map_of (pr_block_stats p) pc of Some s \<Rightarrow> bs_hit_count s | None \<Rightarrow> 0)"

lemma hits_of_record: "hits_of (record_block pc n p) q = hits_of p q + (if q = pc then 1 else 0)"
  by (simp add: hits_of_def record_block_def Let_def update_conv' split: option.split)

lemma keys_record: "map fst (pr_block_stats (record_block pc n p)) =
    (if pc \<in> fst ` set (pr_block_stats p) then map fst (pr_block_stats p) else map fst (pr_block_stats p) @ [pc])"
  by (simp add: record_block_def Let_def update_keys)

lemma profile_result:
  "distinct (map fst (pr_block_stats p)) \<Longrightarrow>
   hits_of (profile bs p) pc = hits_of p pc + of_nat (count_list (map fst bs) pc) \<and>
   pr_total_blocks (profile bs p) = pr_total_blocks p + of_nat (length bs) \<and>
   distinct (map fst (pr_block_stats (profile bs p))) \<and>
   fst ` set (pr_block_stats (profile bs p)) = fst ` set (pr_block_stats p) \<union> fst ` set bs"
proof (induction bs arbitrary: p)
  case (Cons b bs)
  obtain q n where b: "b = (q, n)" by (cases b)
  let ?p = "record_block q n p"
  have k: "distinct (map fst (pr_block_stats ?p))" "fst ` set (pr_block_stats ?p) = insert q (fst ` set (pr_block_stats p))"
    using Cons.prems by (auto simp: keys_record simp flip: set_map)
  have "profile (b # bs) p = profile bs ?p" by (simp add: profile_def b)
  moreover have "pr_total_blocks ?p = pr_total_blocks p + 1" by (simp add: record_block_def Let_def)
  ultimately show ?case using Cons.IH [OF k(1)] k(2) by (auto simp: hits_of_record b)
qed (simp add: profile_def)

lemma sorted_take_drop: "sorted_wrt P xs \<Longrightarrow> \<forall>s\<in>set (take n xs). \<forall>r\<in>set (drop n xs). P s r"
  by (metis append_take_drop_id sorted_wrt_append)

text \<open>The profile of a run.  After the blocks of a run are recorded, the count of every block is the
  number of times it ran modulo \<open>2 ^ 32\<close>, the total is their number modulo \<open>2 ^ 64\<close>, the number of
  unique blocks is that of the distinct addresses, and at most ten blocks are listed, none with fewer
  hits than one that is left out.\<close>

theorem profile_counts:
  "(let p = profile bs Profiler_init in
     hits_of p pc = of_nat (count_list (map fst bs) pc) \<and> pr_total_blocks p = of_nat (length bs) \<and>
     unique_blocks p = card (fst ` set bs) \<and> length (hot_blocks p) = min 10 (unique_blocks p) \<and>
     (\<exists>rest. mset (map snd (pr_block_stats p)) = mset (hot_blocks p) + mset rest \<and>
        (\<forall>s\<in>set (hot_blocks p). \<forall>r\<in>set rest. bs_hit_count r \<le> bs_hit_count s)))"
proof -
  let ?p = "profile bs Profiler_init" let ?l = "rev (sort_key bs_hit_count (map snd (pr_block_stats ?p)))"
  have r: "hits_of ?p pc = of_nat (count_list (map fst bs) pc)" "pr_total_blocks ?p = of_nat (length bs)"
      "distinct (map fst (pr_block_stats ?p))" "fst ` set (pr_block_stats ?p) = fst ` set bs"
    using profile_result [of Profiler_init bs pc] by (simp_all add: Profiler_init_def hits_of_def)
  have u: "unique_blocks ?p = card (fst ` set bs)"
    using distinct_card [OF r(3)] r(4) by (simp add: unique_blocks_def)
  have m: "mset (map snd (pr_block_stats ?p)) = mset (take 10 ?l) + mset (drop 10 ?l)"
    unfolding mset_append [symmetric] append_take_drop_id by simp
  have "sorted_wrt (\<lambda>a b. bs_hit_count b \<le> bs_hit_count a) ?l"
    using sorted_sort_key [of bs_hit_count "map snd (pr_block_stats ?p)"] by (simp add: sorted_wrt_rev sorted_map)
  then have "\<forall>s\<in>set (take 10 ?l). \<forall>r\<in>set (drop 10 ?l). bs_hit_count r \<le> bs_hit_count s"
    by (rule sorted_take_drop)
  with r u m show ?thesis by (auto simp: Let_def hot_blocks_def unique_blocks_def)
qed

theorem profile_counts_witness:
  "hits_of (profile [(0x400000, 3), (0x400010, 2), (0x400000, 3)] Profiler_init) 0x400000 = 2"
  using profile_counts [of "[(0x400000, 3), (0x400010, 2), (0x400000, 3)]" "0x400000"] by (simp add: Let_def)

end
