(* ===== verification/Program.thy ===== *)
theory Program
  imports Dynlink Threads Util
begin

text \<open>
  The program (\<^verbatim>\<open>src/src/main.cpp\<close>): configuration, creation of the components, loading of the executable,
  the initial stack and context of the guest, and the run.  What the system answers (the mappings of the
  arena and of the code pool, the file, the environment, the host processor, the kernel) are parameters;
  messages and the installation of signal handlers are left out.
\<close>

section \<open>The initial stack\<close>

text \<open>Writes whose result is ignored.\<close>

definition put64 :: "u64 \<Rightarrow> u64 \<Rightarrow> MemoryManager \<Rightarrow> host \<Rightarrow> host option" where
  "put64 addr val mm h = map_option snd (write_u64 addr val mm h)"

fun put_string :: "u64 \<Rightarrow> u8 list \<Rightarrow> MemoryManager \<Rightarrow> host \<Rightarrow> host option" where
  "put_string addr [] mm h = Some h"
| "put_string addr (b # bs) mm h = Option.bind (map_option snd (write_u8 addr b mm h)) (put_string (addr + 1) bs mm)"

text \<open>An entry of the auxiliary vector: the stack pointer moves down, then type and value are written.\<close>

fun push_pairs :: "(u64 \<times> u64) list \<Rightarrow> MemoryManager \<Rightarrow> u64 \<Rightarrow> host \<Rightarrow> (u64 \<times> host) option" where
  "push_pairs [] mm sp h = Some (sp, h)"
| "push_pairs ((t, v) # ps) mm sp h = do {
     let sp = sp - 16;
     h \<leftarrow> put64 sp t mm h;
     h \<leftarrow> put64 (sp + 8) v mm h;
     push_pairs ps mm sp h }"

text \<open>From \<open>AT_NULL\<close> to \<open>AT_SECURE\<close>; the 16 bytes for \<open>AT_RANDOM\<close> are pushed right below its entry.\<close>

definition auxv_pairs :: "ELFInfo \<Rightarrow> u64 \<Rightarrow> (u64 \<times> u64) list" where
  "auxv_pairs info sp = [(0, 0), (25, sp - 16 - 16 - 16), (0, 0), (5, ucast (ei_phnum info)),
     (3, ei_base_addr info + ei_phdr_offset info), (9, ei_entry_point info), (16, 0xFFF), (6, 4096), (23, 0)]"

definition stack_string :: "u8 list \<Rightarrow> u8 list" where
  "stack_string s = take 64 (s @ [0])"

definition build_stack :: "ELFInfo \<Rightarrow> u8 list \<Rightarrow> u64 \<Rightarrow> MemoryManager \<Rightarrow> u64 \<Rightarrow> host \<Rightarrow> (u64 \<times> u64 \<times> host) option" where
  "build_stack info path tls mm sp h = do {
     (sp, h) \<leftarrow> push_pairs (auxv_pairs info sp) mm sp h;
     let sp = sp - 16;
     h \<leftarrow> put64 sp 31 mm h;
     let execfn_addr = sp - 64;
     h \<leftarrow> put_string execfn_addr (stack_string path) mm h;
     h \<leftarrow> put64 (sp + 8) execfn_addr mm h;
     (sp, h) \<leftarrow> push_pairs (if tls \<noteq> 0 then [(23, tls)] else []) mm sp h;
     let auxv_start = sp;
     let sp = sp - 8;
     h \<leftarrow> put64 sp 0 mm h;
     let sp = sp - 8;
     h \<leftarrow> put64 sp 0 mm h;
     let argv0_addr = sp - 64;
     h \<leftarrow> put_string argv0_addr (stack_string path) mm h;
     let sp = sp - 8;
     h \<leftarrow> put64 sp argv0_addr mm h;
     let sp = sp - 8;
     h \<leftarrow> put64 sp 1 mm h;
     Some (sp AND NOT 15, auxv_start, h) }"

definition stack_size :: u64 where "stack_size = 2 * 1024 * 1024"

text \<open>\<^const>\<open>None\<close> inside the result: the mapping was refused.\<close>

definition setup_stack :: "os \<Rightarrow> ELFInfo \<Rightarrow> u8 list \<Rightarrow> u64 \<Rightarrow> MemoryManager \<Rightarrow> host \<Rightarrow>
    ((u64 \<times> u64) option \<times> MemoryManager \<times> host) option" where
  "setup_stack os info path tls mm h =
    (let (stack_base, mm, h) = mm_mmap os stack_size (PROT_READ OR PROT_WRITE) 0 mm h
     in if stack_base = 0 then Some (None, mm, h)
        else map_option (\<lambda>(sp, auxv, h). (Some (sp, auxv), mm, h))
               (build_stack info path tls mm ((stack_base + stack_size) AND NOT 15) h))"

section \<open>The program\<close>

text \<open>The system's answers.\<close>

record 'k env =
  env_getenv :: "string \<Rightarrow> string option"
  env_arena :: "u64 option"
  env_pool :: "u64 option"
  env_map_file :: "string \<Rightarrow> u8 list option"
  env_set_fs :: "u64 \<Rightarrow> i64"
  env_cpu :: host_cpu
  env_kernel :: "'k kernel"

definition total_size :: u64 where "total_size = 2 ^ 32"

definition ELFInfo_any :: ELFInfo where
  "ELFInfo_any = \<lparr>ei_entry_point = 0, ei_phdr_addr = 0, ei_phdr_offset = 0, ei_phnum = 0, ei_phentsize = 0,
     ei_base_addr = 0, ei_is_dynamic = False, ei_dynamic_addr = 0, ei_interp = []\<rparr>"

definition c_bytes :: "string \<Rightarrow> u8 list" where
  "c_bytes s = map (\<lambda>c. of_nat (of_char c)) s"

text \<open>The storage block of a dynamic executable, 0 otherwise.\<close>

definition main_tls :: "os \<Rightarrow> ELFInfo \<Rightarrow> MemoryManager \<Rightarrow> host \<Rightarrow> (u64 \<times> MemoryManager \<times> host) option" where
  "main_tls os info mm h = (if ei_is_dynamic info then allocate_tls_block os 4096 mm h else Some (0, mm, h))"

definition initial_ctx :: "ELFInfo \<Rightarrow> u64 \<Rightarrow> u64 \<Rightarrow> u64 \<Rightarrow> CPUContext" where
  "initial_ctx info tls sp auxv =
    (let ctx = CPUContext_init;
         ctx = (if tls \<noteq> 0 then ctx\<lparr>ctx_tpidr_el0 := tls\<rparr> else ctx)
     in ctx\<lparr>ctx_pc := ei_entry_point info, ctx_sp := sp, ctx_lr := 0, ctx_x := (ctx_x ctx)[0 := auxv]\<rparr>)"

text \<open>\<open>main\<close>: the exit code, and after a run the number of passes, the engine and the thread's storage
  base.\<close>

definition bbarm64_main :: "'k env \<Rightarrow> string list \<Rightarrow> 'k \<Rightarrow> host \<Rightarrow>
    (int \<times> (nat \<times> 'k engine \<times> tls_emu) option) option" where
  "bbarm64_main E argv k h =
    (if length argv < 2 then Some (1, None)
     else
       let os = k_os (env_kernel E); path = argv ! 1; config = Config_load (env_getenv E);
           cache = TranslationCache_init (unat (cache_entries config));
           (mem_ok, mm, h) = mm_init (env_arena E) total_size MemoryManager_init h;
           (cache_ok, cache) = cache_init (env_pool E) cache
       in if \<not> mem_ok then Some (1, None)
          else if \<not> cache_ok then Some (1, None)
          else do {
            (ok, info, phdrs, mm, h) \<leftarrow> elf_load os (env_map_file E) path ELFInfo_any [] mm h;
            if \<not> ok then Some (1, None)
            else do {
              (tls, mm, h) \<leftarrow> main_tls os info mm h;
              (st, mm, h) \<leftarrow> setup_stack os info (c_bytes path) tls mm h;
              case st of
                None \<Rightarrow> Some (1, None)
              | Some (sp, auxv) \<Rightarrow>
                  let ctx = initial_ctx info tls sp auxv;
                      tls_base = (if tls \<noteq> 0 then snd (set_tls_base (env_set_fs E) tls 0) else 0);
                      en = \<lparr>en_ctx = ctx, en_sys = \<lparr>s_mem = mm, s_host = h, s_k = k\<rparr>, en_cache = cache\<rparr>
                  in map_option (\<lambda>(n, en). (0, Some (n, en, tls_base))) (run (env_cpu E) (env_kernel E) (ctx_pc ctx) en) } })"

section \<open>Memory below the top of the stack\<close>

text \<open>The words of the stack are numbered downwards from its top \<open>T\<close>.\<close>

definition slot :: "u64 \<Rightarrow> nat \<Rightarrow> u64" where
  "slot T i = T - of_nat (8 * i)"

definition stack_words :: nat where "stack_words = 262144"

text \<open>The stack can be written, the memory around it is that of \<open>h0\<close>, and \<open>M\<close> are words it holds.\<close>

definition in_stack :: "u64 \<Rightarrow> u64 \<Rightarrow> bool" where
  "in_stack T a \<longleftrightarrow> in_range a (T - of_nat (8 * stack_words)) (of_nat (8 * stack_words))"

definition stack_ok :: "u64 \<Rightarrow> MemoryManager \<Rightarrow> host \<Rightarrow> host \<Rightarrow> bool" where
  "stack_ok T mm h0 h \<longleftrightarrow> (\<forall>k n. 1 \<le> n \<and> n \<le> k \<and> k \<le> 8 * stack_words \<longrightarrow>
     check_perms mm (T - of_nat k) (of_nat n) PROT_WRITE \<and> list_all (can_write h) (addrs (T - of_nat k) n)) \<and>
     (\<forall>a. \<not> in_stack T a \<longrightarrow> h_byte h a = h_byte h0 a) \<and> h_prot h = h_prot h0"

definition holds :: "u64 \<Rightarrow> (nat \<rightharpoonup> u64) \<Rightarrow> host \<Rightarrow> bool" where
  "holds T M h \<longleftrightarrow> (\<forall>i w. M i = Some w \<longrightarrow> host_u64 h (slot T i) = Some w)"

lemma below_inj: "a \<le> 8 * stack_words \<Longrightarrow> b \<le> 8 * stack_words \<Longrightarrow> T - of_nat a = T - of_nat b \<longleftrightarrow> a = b" for T :: u64
  by (simp add: stack_words_def word_of_nat_eq_iff take_bit_nat_eq_self)

text \<open>Ranges below \<open>T\<close>, given by their distance from it.\<close>

lemma below_disjoint:
  assumes "m \<le> a" "a \<le> 8 * stack_words" "n \<le> b" "b \<le> 8 * stack_words" "a \<le> b - n \<or> b \<le> a - m"
  shows "disjoint_ranges (T - of_nat a) m (T - of_nat b) n"
proof -
  have e: "T - of_nat c + of_nat j = T - of_nat (c - j)" if "j \<le> c" for c j using that by (simp add: of_nat_diff)
  have False if "j < m" "k < n" "T - of_nat a + of_nat j = T - of_nat b + of_nat k" for j k
  proof -
    from that assms have "T - of_nat (a - j) = T - of_nat (b - k)" by (simp only: e less_imp_le order.trans)
    then have "a - j = b - k" using assms by (subst (asm) below_inj) simp_all
    with that assms show False by linarith
  qed
  then show ?thesis by (auto simp: disjoint_ranges_def addrs_def)
qed

lemma in_stack_below:
  assumes "j < n" "n \<le> k" "k \<le> 8 * stack_words"
  shows "in_stack T (T - of_nat k + of_nat j)"
proof -
  let ?m = "8 * stack_words - k + j"
  have e: "T - of_nat k + of_nat j - (T - of_nat (8 * stack_words)) = of_nat ?m" using assms by (simp add: of_nat_diff)
  have lt: "?m < 8 * stack_words" using assms by linarith
  have "unat (of_nat m :: u64) = m" if "m \<le> 8 * stack_words" for m
    using that unfolding unsigned_of_nat by (simp add: take_bit_nat_eq_self stack_words_def)
  from this [of ?m] this [of "8 * stack_words"] lt show ?thesis unfolding in_stack_def in_range_def e word_less_nat_alt by simp
qed

lemma stack_ok_write:
  assumes "host_write h (T - of_nat k) bs = Some h'" "length bs \<le> k" "k \<le> 8 * stack_words" "stack_ok T mm h0 h"
  shows "stack_ok T mm h0 h'"
proof -
  have h': "h' = h\<lparr>h_byte := upd_all (addrs (T - of_nat k) (length bs)) bs (h_byte h)\<rparr>"
    using assms(1) by (auto simp: host_write_def split: if_splits)
  have "a \<notin> set (addrs (T - of_nat k) (length bs))" if "\<not> in_stack T a" for a
    using in_stack_below [OF _ assms(2,3), of _ T] that by (auto simp: addrs_def)
  with assms(4) show ?thesis by (simp add: h' stack_ok_def upd_all_other)
qed

lemma write_below:
  assumes "stack_ok T mm h0 h" "length bs \<le> k" "k \<le> 8 * stack_words"
  shows "bs \<noteq> [] \<Longrightarrow> check_perms mm (T - of_nat k) (of_nat (length bs)) PROT_WRITE"
    and "\<exists>h'. host_write h (T - of_nat k) bs = Some h' \<and> stack_ok T mm h0 h'"
proof -
  show "check_perms mm (T - of_nat k) (of_nat (length bs)) PROT_WRITE" if "bs \<noteq> []"
    using assms that by (simp add: stack_ok_def Suc_le_eq)
  have "list_all (can_write h) (addrs (T - of_nat k) (length bs))"
    using assms by (cases "bs = []") (simp_all add: stack_ok_def addrs_def Suc_le_eq)
  then show "\<exists>h'. host_write h (T - of_nat k) bs = Some h' \<and> stack_ok T mm h0 h'"
    using stack_ok_write [OF _ assms(2,3,1)] by (auto simp: host_write_def)
qed

lemma put64_slot:
  assumes "stack_ok T mm h0 h" "1 \<le> i" "i \<le> stack_words"
  shows "\<exists>h'. put64 (slot T i) w mm h = Some h' \<and> stack_ok T mm h0 h' \<and>
    (\<forall>M. holds T M h \<and> (\<forall>j\<in>dom M. 1 \<le> j \<and> j \<le> stack_words) \<longrightarrow> holds T (M(i \<mapsto> w)) h') \<and>
    (\<forall>k n. n \<le> k \<and> k \<le> 8 * stack_words \<and> (8 * i \<le> k - n \<or> k \<le> 8 * i - 8) \<longrightarrow>
       host_read h' (T - of_nat k) n = host_read h (T - of_nat k) n)"
proof -
  have i: "8 \<le> 8 * i" "8 * i \<le> 8 * stack_words" using assms by simp_all
  note wb = write_below [OF assms(1), of "le_bytes 8 w" "8 * i"]
  from wb(2) i obtain h' where h': "host_write h (slot T i) (le_bytes 8 w) = Some h'" "stack_ok T mm h0 h'" by (auto simp: slot_def)
  have p: "put64 (slot T i) w mm h = Some h'" using wb(1) i h'(1) by (simp add: put64_def write_u64_def slot_def le_bytes_def)
  have o: "host_read h' (T - of_nat k) n = host_read h (T - of_nat k) n"
    if "n \<le> k" "k \<le> 8 * stack_words" "8 * i \<le> k - n \<or> k \<le> 8 * i - 8" for k n
    using host.rd_wr_other [OF h'(1), of "T - of_nat k" n] below_disjoint [of 8 "8 * i" n k T] that i by (simp add: slot_def)
  have "holds T (M(i \<mapsto> w)) h'" if M: "holds T M h" "\<forall>j\<in>dom M. 1 \<le> j \<and> j \<le> stack_words" for M
    unfolding holds_def
  proof (intro allI impI)
    fix j v assume j: "(M(i \<mapsto> w)) j = Some v"
    show "host_u64 h' (slot T j) = Some v"
    proof (cases "j = i")
      case True
      with j host.rdw_wr_same [OF h'(1)] show ?thesis by simp
    next
      case False
      with j M have "M j = Some v" "1 \<le> j" "j \<le> stack_words" by auto
      moreover have "8 * i \<le> 8 * j - 8 \<or> 8 * j \<le> 8 * i - 8" using False by arith
      ultimately have "host_read h' (slot T j) 8 = host_read h (slot T j) 8" using o [of 8 "8 * j"] by (simp add: slot_def)
      then show ?thesis using \<open>M j = Some v\<close> M(1) by (simp add: holds_def host.rdw_def)
    qed
  qed
  with p h'(2) o show ?thesis by blast
qed

lemma addrs_Suc: "addrs a (Suc n) = a # addrs (a + 1) n"
  by (simp add: addrs_def upt_conv_Cons map_Suc_upt [symmetric] o_def algebra_simps del: upt_Suc)

lemma host_write_Cons:
  "host_write h a (b # bs) = Option.bind (host_write h a [b]) (\<lambda>h. host_write h (a + 1) bs)"
  by (simp add: host_write_def addrs_Suc addrs_def [of _ 0] list_all_iff)

lemma put_string_below:
  assumes "stack_ok T mm h0 h" "length bs \<le> k" "k \<le> 8 * stack_words"
  shows "put_string (T - of_nat k) bs mm h = host_write h (T - of_nat k) bs"
  using assms
proof (induction bs arbitrary: h k)
  case Nil
  then show ?case by (simp add: host_write_def addrs_def)
next
  case (Cons b bs)
  note wb = write_below [of T mm h0 h "[b]" k]
  obtain h1 where h1: "host_write h (T - of_nat k) [b] = Some h1" "stack_ok T mm h0 h1"
    using wb(2) [OF Cons.prems(1)] Cons.prems by auto
  have le: "le_bytes (Suc 0) b = [b]" by (simp add: le_bytes_def)
  have e: "T - of_nat k + 1 = T - of_nat (k - 1)" using Cons.prems(2) by (simp add: of_nat_diff)
  have "put_string (T - of_nat k + 1) bs mm h1 = host_write h1 (T - of_nat k + 1) bs"
    unfolding e using Cons.prems by (intro Cons.IH [OF h1(2)]) simp_all
  then show ?case using wb(1) [OF Cons.prems(1)] Cons.prems h1(1)
    by (subst host_write_Cons) (simp add: write_u8_def le)
qed

lemma put_string_result:
  assumes "stack_ok T mm h0 h" "length bs \<le> k" "k \<le> 8 * stack_words"
  shows "\<exists>h'. put_string (T - of_nat k) bs mm h = Some h' \<and> stack_ok T mm h0 h' \<and>
    (\<forall>M. holds T M h \<and> (\<forall>j\<in>dom M. 1 \<le> j \<and> 8 * j \<le> k - length bs) \<longrightarrow> holds T M h') \<and>
    host_read h' (T - of_nat k) (length bs) = Some bs"
proof -
  from write_below(2) [OF assms] obtain h' where h': "host_write h (T - of_nat k) bs = Some h'" "stack_ok T mm h0 h'" by blast
  have "host_read h' (T - of_nat k) (length bs) = Some bs"
    using host.rd_wr_same [OF _ h'(1)] assms(2,3) by (simp add: stack_words_def)
  moreover have "holds T M h'" if "holds T M h" "\<forall>j\<in>dom M. 1 \<le> j \<and> 8 * j \<le> k - length bs" for M
    unfolding holds_def
  proof (intro allI impI)
    fix j v assume "M j = Some v"
    with that have j: "1 \<le> j" "8 * j \<le> k - length bs" "host_u64 h (slot T j) = Some v" by (auto simp: holds_def)
    then have "disjoint_ranges (T - of_nat k) (length bs) (slot T j) 8"
      unfolding slot_def using assms by (intro below_disjoint) simp_all
    from host.rd_wr_other [OF h'(1) this] j(3) show "host_u64 h' (slot T j) = Some v" by (simp add: host.rdw_def)
  qed
  ultimately show ?thesis using h' put_string_below [OF assms] by auto
qed

text \<open>The words written by pushing pairs from slot \<open>n\<close> on.\<close>

fun pairs_at :: "nat \<Rightarrow> (u64 \<times> u64) list \<Rightarrow> (nat \<rightharpoonup> u64) \<Rightarrow> nat \<rightharpoonup> u64" where
  "pairs_at n [] M = M"
| "pairs_at n ((t, v) # ps) M = pairs_at (n + 2) ps (M(n + 2 \<mapsto> t, n + 1 \<mapsto> v))"

lemma push_pairs_result:
  assumes "stack_ok T mm h0 h" "holds T M h" "\<forall>j\<in>dom M. 1 \<le> j \<and> j \<le> n" "n + 2 * length ps \<le> stack_words"
  shows "\<exists>h'. push_pairs ps mm (slot T n) h = Some (slot T (n + 2 * length ps), h') \<and> stack_ok T mm h0 h' \<and>
    holds T (pairs_at n ps M) h' \<and> (\<forall>j\<in>dom (pairs_at n ps M). 1 \<le> j \<and> j \<le> n + 2 * length ps)"
  using assms
proof (induction ps arbitrary: n M h)
  case (Cons p ps)
  obtain t v where p: "p = (t, v)" by (cases p)
  have s: "slot T n - 16 = slot T (n + 2)" "slot T (n + 2) + 8 = slot T (n + 1)" by (simp_all add: slot_def algebra_simps)
  have dom: "\<forall>j\<in>dom M. 1 \<le> j \<and> j \<le> stack_words" using Cons.prems(3,4) by (meson le_add1 order.trans)
  from put64_slot [OF Cons.prems(1), of "n + 2" t] Cons.prems dom obtain h1 where h1: "put64 (slot T (n + 2)) t mm h = Some h1"
      "stack_ok T mm h0 h1" "holds T (M(n + 2 \<mapsto> t)) h1" by auto
  have "\<forall>j\<in>dom (M(n + 2 \<mapsto> t)). 1 \<le> j \<and> j \<le> stack_words" using dom Cons.prems(4) by auto
  with put64_slot [OF h1(2), of "n + 1" v] Cons.prems(4) h1(3) obtain h2 where h2: "put64 (slot T (n + 1)) v mm h1 = Some h2"
      "stack_ok T mm h0 h2" "holds T (M(n + 2 \<mapsto> t, n + 1 \<mapsto> v)) h2" by auto
  have dom2: "\<forall>j\<in>dom (M(n + 2 \<mapsto> t, n + 1 \<mapsto> v)). 1 \<le> j \<and> j \<le> n + 2" using Cons.prems(3) by (simp add: le_SucI)
  have "n + 2 + 2 * length ps \<le> stack_words" using Cons.prems(4) by simp
  from Cons.IH [OF h2(2,3) dom2 this] obtain h' where
      h': "push_pairs ps mm (slot T (n + 2)) h2 = Some (slot T (n + 2 + 2 * length ps), h')" "stack_ok T mm h0 h'"
      "holds T (pairs_at n (p # ps) M) h'" "\<forall>j\<in>dom (pairs_at n (p # ps) M). 1 \<le> j \<and> j \<le> n + 2 + 2 * length ps"
    by (auto simp only: p pairs_at.simps length_Cons)
  have "push_pairs (p # ps) mm (slot T n) h = Some (slot T (n + 2 + 2 * length ps), h')"
    using h1(1) h2(1) h'(1) by (simp only: p push_pairs.simps s Let_def bind.simps)
  moreover have "n + 2 + 2 * length ps = n + 2 * length (p # ps)" by simp
  ultimately show ?case using h' by metis
qed simp

text \<open>The auxiliary vector read upwards from slot \<open>n\<close>, up to its null entry.\<close>

fun entries_from :: "(nat \<rightharpoonup> u64) \<Rightarrow> nat \<Rightarrow> (u64 \<times> u64) list \<Rightarrow> bool" where
  "entries_from M n [] \<longleftrightarrow> M n = Some 0"
| "entries_from M n ((t, v) # es) \<longleftrightarrow> t \<noteq> 0 \<and> 2 \<le> n \<and> M n = Some t \<and> M (n - 1) = Some v \<and> entries_from M (n - 2) es"

lemma slot_up: "k \<le> n \<Longrightarrow> slot T n + of_nat (8 * k) = slot T (n - k)"
  by (simp add: slot_def of_nat_diff algebra_simps)

lemma entries_in_memory: "holds T M h \<Longrightarrow> entries_from M n es \<Longrightarrow> dynamic_at h (slot T n) es"
proof (induction M n es rule: entries_from.induct)
  case (2 M n t v es)
  with slot_up [of 1 n T] slot_up [of 2 n T] show ?case by (simp add: holds_def DT_NULL_def)
qed (simp add: holds_def DT_NULL_def)

lemma and_15: "v AND 15 = take_bit 4 v" for v :: u64
  by (simp add: take_bit_eq_mask mask_eq_decr_exp)

lemma slot_and_15:
  assumes "T AND 15 = 0" "even n"
  shows "slot T n AND 15 = 0"
proof -
  obtain m where m: "n = 2 * m" using assms(2) by (rule evenE)
  have t: "take_bit 4 (push_bit 4 x) = 0" for x :: u64 by (simp add: take_bit_push_bit)
  have "take_bit 4 (slot T n + push_bit 4 (of_nat m)) = take_bit 4 (slot T n)"
    using take_bit_add_aligned [OF t, of "of_nat m" "slot T n"] by (simp add: add.commute)
  moreover have "slot T n + push_bit 4 (of_nat m) = T" by (simp add: slot_def m push_bit_eq_mult)
  ultimately show ?thesis using assms(1) by (simp add: and_15)
qed

lemma aligned_16: "v AND 15 = 0 \<Longrightarrow> v AND NOT 15 = v" for v :: u64
proof -
  assume "v AND 15 = 0"
  then have "v AND NOT 15 = (v AND NOT 15) OR (v AND 15)" by simp
  also have "\<dots> = v" by (rule bit_word_eqI) (auto simp: bit_simps)
  finally show ?thesis .
qed

text \<open>The words of the finished stack: \<open>n\<close> is the slot of the vector's first entry.\<close>

definition final_words :: "ELFInfo \<Rightarrow> u64 \<Rightarrow> u64 \<Rightarrow> nat \<rightharpoonup> u64" where
  "final_words info tls T =
    (let n = (if tls = 0 then 20 else 22) in
     (pairs_at 20 (if tls \<noteq> 0 then [(23, tls)] else [])
        ((pairs_at 0 (auxv_pairs info T) Map.empty)(20 \<mapsto> 31, 19 \<mapsto> slot T 28)))
       (n + 1 \<mapsto> 0, n + 2 \<mapsto> 0, n + 3 \<mapsto> slot T (n + 10), n + 4 \<mapsto> 1))"

text \<open>A stack whose known words \<open>M\<close> lie in the first \<open>N\<close> slots.\<close>

definition stack_with :: "u64 \<Rightarrow> MemoryManager \<Rightarrow> host \<Rightarrow> (nat \<rightharpoonup> u64) \<Rightarrow> nat \<Rightarrow> host \<Rightarrow> bool" where
  "stack_with T mm h0 M N h \<longleftrightarrow> stack_ok T mm h0 h \<and> holds T M h \<and> (\<forall>j\<in>dom M. 1 \<le> j \<and> j \<le> N) \<and> N \<le> stack_words"

lemma stack_put:
  assumes "stack_with T mm h0 M N h" "1 \<le> i" "i \<le> N'" "N \<le> N'" "N' \<le> stack_words"
  obtains h' where "put64 (slot T i) w mm h = Some h'" "stack_with T mm h0 (M(i \<mapsto> w)) N' h'"
    "\<And>k n. n \<le> k \<Longrightarrow> k \<le> 8 * stack_words \<Longrightarrow> 8 * i \<le> k - n \<Longrightarrow> host_read h' (T - of_nat k) n = host_read h (T - of_nat k) n"
proof -
  have ok: "stack_ok T mm h0 h" "holds T M h" and dom: "\<forall>j\<in>dom M. 1 \<le> j \<and> j \<le> N" "N \<le> stack_words" and i: "i \<le> stack_words"
    using assms by (auto simp: stack_with_def)
  from put64_slot [OF ok(1) assms(2) i, of w] obtain h' where h': "put64 (slot T i) w mm h = Some h'" "stack_ok T mm h0 h'"
      "\<And>M. holds T M h \<Longrightarrow> \<forall>j\<in>dom M. 1 \<le> j \<and> j \<le> stack_words \<Longrightarrow> holds T (M(i \<mapsto> w)) h'"
      "\<And>k n. n \<le> k \<Longrightarrow> k \<le> 8 * stack_words \<Longrightarrow> 8 * i \<le> k - n \<Longrightarrow> host_read h' (T - of_nat k) n = host_read h (T - of_nat k) n"
    by blast
  have "\<forall>j\<in>dom M. 1 \<le> j \<and> j \<le> stack_words" "\<forall>j\<in>dom M. 1 \<le> j \<and> j \<le> N'" using dom assms(4) by (meson order.trans)+
  then have "stack_with T mm h0 (M(i \<mapsto> w)) N' h'" using h'(2,3) ok(2) assms(2,3,5) by (simp add: stack_with_def)
  from that [OF h'(1) this h'(4)] show thesis .
qed

lemma stack_string_put:
  assumes "stack_with T mm h0 M N h" "8 * N + length bs \<le> k" "k \<le> 8 * stack_words"
  obtains h' where "put_string (T - of_nat k) bs mm h = Some h'" "stack_with T mm h0 M N h'"
    "host_read h' (T - of_nat k) (length bs) = Some bs"
proof -
  have ok: "stack_ok T mm h0 h" "holds T M h" and dom: "\<forall>j\<in>dom M. 1 \<le> j \<and> j \<le> N" and N: "N \<le> stack_words"
    using assms(1) by (auto simp: stack_with_def)
  have "length bs \<le> k" using assms(2) by simp
  from put_string_result [OF ok(1) this assms(3)] obtain h' where h': "put_string (T - of_nat k) bs mm h = Some h'" "stack_ok T mm h0 h'"
      "\<And>M. holds T M h \<Longrightarrow> \<forall>j\<in>dom M. 1 \<le> j \<and> 8 * j \<le> k - length bs \<Longrightarrow> holds T M h'"
      "host_read h' (T - of_nat k) (length bs) = Some bs" by blast
  have "1 \<le> j \<and> 8 * j \<le> k - length bs" if "j \<in> dom M" for j
  proof -
    have "1 \<le> j" "j \<le> N" using dom that by blast+
    with assms(2) show ?thesis by linarith
  qed
  then have "stack_with T mm h0 M N h'" using h'(2,3) ok(2) dom N by (simp add: stack_with_def)
  from that [OF h'(1) this h'(4)] show thesis .
qed

lemma stack_pairs:
  assumes "stack_with T mm h0 M N h" "N + 2 * length ps \<le> stack_words"
  obtains h' where "push_pairs ps mm (slot T N) h = Some (slot T (N + 2 * length ps), h')"
    "stack_with T mm h0 (pairs_at N ps M) (N + 2 * length ps) h'"
proof -
  have "stack_ok T mm h0 h" "holds T M h" "\<forall>j\<in>dom M. 1 \<le> j \<and> j \<le> N" using assms(1) by (auto simp: stack_with_def)
  from push_pairs_result [OF this assms(2)] assms(2) that show thesis unfolding stack_with_def by blast
qed

lemma length_stack_string: "length (stack_string s) \<le> 64"
  by (simp add: stack_string_def)

lemma slot_down:
  "slot T k - 16 = slot T (k + 2)" "slot T k - 8 = slot T (k + 1)" "slot T k - 64 = slot T (k + 8)"
  "slot T (k + 2) + 8 = slot T (k + 1)"
  by (simp_all add: slot_def algebra_simps)

lemma build_stack_result:
  fixes tls :: u64
  defines "n \<equiv> if tls = 0 then 20 else 22 :: nat"
  assumes ok: "stack_ok T mm h0 h" and al: "T AND 15 = 0"
  shows "\<exists>h'. build_stack info path tls mm T h = Some (slot T (n + 4), slot T n, h') \<and>
    holds T (final_words info tls T) h' \<and> stack_ok T mm h0 h' \<and>
    (length path < 48 \<longrightarrow> host_read h' (slot T (n + 10)) (length path + 1) = Some (path @ [0]))"
proof -
  let ?ps = "auxv_pairs info T" let ?str = "stack_string path" let ?tl = "if tls \<noteq> 0 then [(23 :: u64, tls)] else []"
  have sw: "stack_words = 262144" by (simp add: stack_words_def)
  have str: "length ?str \<le> 64" by (rule length_stack_string)
  have T0: "slot T 0 = T" by (simp add: slot_def)
  have len: "length ?ps = 9" by (simp add: auxv_pairs_def)
  have n: "n = 20 + 2 * length ?tl" "n \<le> 22" "even n" by (simp_all add: n_def)
  have "stack_with T mm h0 Map.empty 0 h" using ok by (simp add: stack_with_def holds_def)
  then obtain h1 where 1: "push_pairs ?ps mm (slot T 0) h = Some (slot T (0 + 2 * length ?ps), h1)"
      "stack_with T mm h0 (pairs_at 0 ?ps Map.empty) (0 + 2 * length ?ps) h1"
    by (rule stack_pairs [where ps = ?ps]) (simp_all add: len sw)
  from 1(2) obtain h2 where 2: "put64 (slot T 20) 31 mm h1 = Some h2"
      "stack_with T mm h0 ((pairs_at 0 ?ps Map.empty)(20 \<mapsto> 31)) 20 h2"
    by (rule stack_put [where i = 20 and N' = 20 and w = 31]) (simp_all add: len sw)
  from 2(2) obtain h3 where 3: "put_string (T - of_nat 224) ?str mm h2 = Some h3"
      "stack_with T mm h0 ((pairs_at 0 ?ps Map.empty)(20 \<mapsto> 31)) 20 h3"
    by (rule stack_string_put [where k = 224 and bs = ?str]) (use str sw in simp_all)
  from 3(2) obtain h4 where 4: "put64 (slot T 19) (slot T 28) mm h3 = Some h4"
      "stack_with T mm h0 ((pairs_at 0 ?ps Map.empty)(20 \<mapsto> 31, 19 \<mapsto> slot T 28)) 20 h4"
    by (rule stack_put [where i = 19 and N' = 20 and w = "slot T 28"]) (simp_all add: sw)
  define M where "M = pairs_at 20 ?tl ((pairs_at 0 ?ps Map.empty)(20 \<mapsto> 31, 19 \<mapsto> slot T 28))"
  from 4(2) obtain h5 where 5: "push_pairs ?tl mm (slot T 20) h4 = Some (slot T n, h5)" "stack_with T mm h0 M n h5"
    by (rule stack_pairs [where ps = ?tl]) (simp_all add: sw n(1) M_def)
  from 5(2) obtain h6 where 6: "put64 (slot T (n + 1)) 0 mm h5 = Some h6" "stack_with T mm h0 (M(n + 1 \<mapsto> 0)) (n + 1) h6"
    by (rule stack_put [where i = "n + 1" and N' = "n + 1" and w = 0]) (use n(2) in \<open>simp_all add: sw\<close>)
  from 6(2) obtain h7 where 7: "put64 (slot T (n + 2)) 0 mm h6 = Some h7" "stack_with T mm h0 (M(n + 1 \<mapsto> 0, n + 2 \<mapsto> 0)) (n + 2) h7"
    by (rule stack_put [where i = "n + 2" and N' = "n + 2" and w = 0]) (use n(2) in \<open>simp_all add: sw\<close>)
  from 7(2) obtain h8 where 8: "put_string (T - of_nat (8 * (n + 10))) ?str mm h7 = Some h8"
      "stack_with T mm h0 (M(n + 1 \<mapsto> 0, n + 2 \<mapsto> 0)) (n + 2) h8"
      "host_read h8 (T - of_nat (8 * (n + 10))) (length ?str) = Some ?str"
    by (rule stack_string_put [where k = "8 * (n + 10)" and bs = ?str]) (use n(2) str sw in simp_all)
  let ?argv = "slot T (n + 10)"
  from 8(2) obtain h9 where 9: "put64 (slot T (n + 3)) ?argv mm h8 = Some h9"
      "stack_with T mm h0 (M(n + 1 \<mapsto> 0, n + 2 \<mapsto> 0, n + 3 \<mapsto> ?argv)) (n + 3) h9"
      "\<And>k m. m \<le> k \<Longrightarrow> k \<le> 8 * stack_words \<Longrightarrow> 8 * (n + 3) \<le> k - m \<Longrightarrow> host_read h9 (T - of_nat k) m = host_read h8 (T - of_nat k) m"
    by (rule stack_put [where i = "n + 3" and N' = "n + 3" and w = ?argv]) (use n(2) in \<open>simp_all add: sw\<close>)
  from 9(2) obtain h10 where 10: "put64 (slot T (n + 4)) 1 mm h9 = Some h10"
      "stack_with T mm h0 (M(n + 1 \<mapsto> 0, n + 2 \<mapsto> 0, n + 3 \<mapsto> ?argv, n + 4 \<mapsto> 1)) (n + 4) h10"
      "\<And>k m. m \<le> k \<Longrightarrow> k \<le> 8 * stack_words \<Longrightarrow> 8 * (n + 4) \<le> k - m \<Longrightarrow> host_read h10 (T - of_nat k) m = host_read h9 (T - of_nat k) m"
    by (rule stack_put [where i = "n + 4" and N' = "n + 4" and w = 1]) (use n(2) in \<open>simp_all add: sw\<close>)
  have "M(n + 1 \<mapsto> 0, n + 2 \<mapsto> 0, n + 3 \<mapsto> ?argv, n + 4 \<mapsto> 1) = final_words info tls T"
    unfolding final_words_def Let_def M_def n_def ..
  with 10(2) have w: "holds T (final_words info tls T) h10" "stack_ok T mm h0 h10" by (simp_all only: stack_with_def)
  have "host_read h10 (slot T (n + 10)) (length path + 1) = Some (path @ [0])" if "length path < 48"
    using that 8(3) 9(3) [of "length path + 1" "8 * (n + 10)"] 10(3) [of "length path + 1" "8 * (n + 10)"] n(2) sw
    by (simp add: slot_def stack_string_def)
  moreover have "build_stack info path tls mm T h = Some (slot T (n + 4), slot T n, h10)"
  proof -
    have d: "slot T 18 - 16 = slot T 20" "slot T 20 - 64 = slot T 28" "slot T 20 + 8 = slot T 19"
        "slot T n - 8 = slot T (n + 1)" "slot T (n + 1) - 8 = slot T (n + 2)" "slot T (n + 2) - 64 = slot T (n + 10)"
        "slot T (n + 2) - 8 = slot T (n + 3)" "slot T (n + 3) - 8 = slot T (n + 4)"
      by (simp_all add: slot_def algebra_simps)
    have s: "slot T 28 = T - of_nat 224" "slot T (n + 10) = T - of_nat (8 * (n + 10))" by (simp_all add: slot_def)
    have p: "push_pairs ?ps mm T h = Some (slot T 18, h1)" using 1(1) by (simp add: T0 len)
    have a: "slot T (n + 4) AND NOT 15 = slot T (n + 4)" using n(3) by (intro aligned_16 slot_and_15 [OF al]) simp
    note e = p 2(1) 3(1) [folded s] 4(1) 5(1) 6(1) 7(1) 8(1) [folded s] 9(1) 10(1)
    show ?thesis
      unfolding build_stack_def Let_def by (simp only: e d a bind.simps prod.case)
  qed
  ultimately show ?thesis using w by blast
qed

section \<open>The stack in the guest\<close>

text \<open>No region meets the two megabytes from \<open>b\<close> on.\<close>

definition stack_free :: "MemoryManager \<Rightarrow> u64 \<Rightarrow> bool" where
  "stack_free mm b \<longleftrightarrow> list_all (\<lambda>r. unat (mr_addr r) + unat (mr_size r) \<le> unat b \<or>
     unat b + 8 * stack_words \<le> unat (mr_addr r)) (mm_regions mm)"

lemma check_perms_in_skip:
  "\<forall>r\<in>set rs. \<not> (mr_addr r \<le> a \<and> a + n \<le> mr_addr r + mr_size r) \<Longrightarrow> check_perms_in a n needed (rs @ ss) = check_perms_in a n needed ss"
  by (induction rs) auto

lemma stack_ok_mapped:
  assumes "stack_free mm b" "unat b + 8 * stack_words < 2 ^ 64"
    and "mm_regions mm' = mm_regions mm @ [\<lparr>mr_addr = b, mr_size = stack_size, mr_perms = PROT_READ OR PROT_WRITE, mr_type = t, mr_is_translated = u\<rparr>]"
  shows "stack_ok (b + stack_size) mm' (host_map b stack_size (PROT_READ OR PROT_WRITE) h) (host_map b stack_size (PROT_READ OR PROT_WRITE) h)"
  unfolding stack_ok_def
proof (intro allI impI conjI refl)
  fix k n :: nat assume k: "1 \<le> n \<and> n \<le> k \<and> k \<le> 8 * stack_words"
  let ?d = "8 * stack_words - k"
  have sz: "unat stack_size = 8 * stack_words" by (simp add: stack_size_def stack_words_def)
  have T: "b + stack_size - of_nat k = b + of_nat ?d"
    using k by (simp add: of_nat_diff stack_size_def stack_words_def)
  have u: "unat (b + of_nat m) = unat b + m" if "m \<le> 8 * stack_words" for m
    using that assms(2) by (simp add: unat_word_ariths unsigned_of_nat take_bit_nat_eq_self stack_words_def)
  have 1: "unat (b + of_nat ?d) = unat b + ?d" by (rule u) simp
  have "?d + n \<le> 8 * stack_words" using k by linarith
  from u [OF this] have 2: "unat (b + of_nat ?d + of_nat n) = unat b + (?d + n)" unfolding of_nat_add add.assoc .
  have "b + stack_size = b + of_nat (8 * stack_words)" by (simp add: stack_size_def stack_words_def)
  then have 3: "unat (b + stack_size) = unat b + 8 * stack_words" using u [of "8 * stack_words"] by simp
  have "\<not> (mr_addr r \<le> b + of_nat ?d \<and> b + of_nat ?d + of_nat n \<le> mr_addr r + mr_size r)" if r: "r \<in> set (mm_regions mm)" for r
  proof -
    consider (below) "unat (mr_addr r) + unat (mr_size r) \<le> unat b" | (above) "unat b + 8 * stack_words \<le> unat (mr_addr r)"
      using assms(1) r by (auto simp: stack_free_def list_all_iff)
    then show ?thesis
    proof cases
      case below
      then have "unat (mr_addr r + mr_size r) = unat (mr_addr r) + unat (mr_size r)"
        using unat_u64_less [of b] by (subst unat_plus_if') simp
      with below 2 k show ?thesis unfolding word_le_nat_alt by linarith
    next
      case above
      with 1 k show ?thesis unfolding word_le_nat_alt by linarith
    qed
  qed
  then show "check_perms mm' (b + stack_size - of_nat k) (of_nat n) PROT_WRITE"
    unfolding check_perms_def assms(3) T using 1 2 3 k
    by (subst check_perms_in_skip) (auto simp: word_le_nat_alt prot_defs)
  show "list_all (can_write (host_map b stack_size (PROT_READ OR PROT_WRITE) h)) (addrs (b + stack_size - of_nat k) n)"
  proof -
    have "in_range (b + of_nat ?d + of_nat j) b stack_size" if "j < n" for j
    proof -
      have e: "b + of_nat ?d + of_nat j - b = of_nat (?d + j)" by simp
      have lt: "?d + j < 8 * stack_words" using that k by linarith
      then have "?d + j < 2 ^ 64" by (simp add: stack_words_def)
      then have "unat (of_nat (?d + j) :: u64) = ?d + j" unfolding unsigned_of_nat by (simp add: take_bit_nat_eq_self)
      with lt show ?thesis unfolding in_range_def e word_less_nat_alt sz by simp
    qed
    then show ?thesis unfolding T by (auto simp: list_all_iff addrs_def can_write_def host_map_def prot_defs)
  qed
qed

abbreviation auxv_at :: "host \<Rightarrow> u64 \<Rightarrow> (u64 \<times> u64) list \<Rightarrow> bool" where
  "auxv_at \<equiv> dynamic_at"

lemma final_words_entries:
  "entries_from (final_words info 0 T) 20
     [(31, slot T 28), (23, 0), (6, 4096), (16, 0xFFF), (9, ei_entry_point info),
      (3, ei_base_addr info + ei_phdr_offset info), (5, ucast (ei_phnum info))]"
  "tls \<noteq> 0 \<Longrightarrow> entries_from (final_words info tls T) 22
     [(23, tls), (31, slot T 28), (23, 0), (6, 4096), (16, 0xFFF), (9, ei_entry_point info),
      (3, ei_base_addr info + ei_phdr_offset info), (5, ucast (ei_phnum info))]"
  by (simp_all add: final_words_def auxv_pairs_def Let_def)

text \<open>What the guest finds: the count, the argument, the null words and the vector up to its null entry.\<close>

definition guest_stack :: "ELFInfo \<Rightarrow> u8 list \<Rightarrow> u64 \<Rightarrow> u64 \<Rightarrow> u64 \<Rightarrow> u64 \<Rightarrow> host \<Rightarrow> bool" where
  "guest_stack info path tls T sp auxv h \<longleftrightarrow> sp AND 15 = 0 \<and>
     host_u64 h sp = Some 1 \<and> host_u64 h (sp + 8) = Some (sp - 48) \<and>
     host_u64 h (sp + 16) = Some 0 \<and> host_u64 h (sp + 24) = Some 0 \<and>
     auxv_at h auxv ((if tls = 0 then [] else [(23, tls)]) @
       [(31, T - 224), (23, 0), (6, 4096), (16, 0xFFF), (9, ei_entry_point info),
        (3, ei_base_addr info + ei_phdr_offset info), (5, ucast (ei_phnum info))]) \<and>
     (length path < 48 \<longrightarrow> host_read h (sp - 48) (length path + 1) = Some (path @ [0]))"

lemma setup_stack_result:
  assumes "os_mmap os b stack_size (PROT_READ OR PROT_WRITE)" "mm_mmap_base mm = b" "b \<noteq> 0" "b AND 15 = 0"
    and "stack_free mm b" "unat b + 8 * stack_words < 2 ^ 64"
  shows "\<exists>mm' h'. let T = b + stack_size; auxv = T - (if tls = 0 then 160 else 176); sp = auxv - 32 in
    setup_stack os info path tls mm h = Some (Some (sp, auxv), mm', h') \<and> guest_stack info path tls T sp auxv h' \<and>
    (\<forall>a. \<not> in_range a b stack_size \<longrightarrow> h_byte h' a = h_byte h a \<and> h_prot h' a = h_prot h a)"
proof -
  define T where "T = b + stack_size" define n where "n = (if tls = 0 then 20 else 22 :: nat)"
  let ?h = "host_map b stack_size (PROT_READ OR PROT_WRITE) h"
  have pa: "page_align stack_size = stack_size" by (simp add: page_align_def PAGE_SIZE_def stack_size_def)
  obtain mm' where m: "mm_mmap os stack_size (PROT_READ OR PROT_WRITE) 0 mm h = (b, mm', ?h)"
      "mm_regions mm' = mm_regions mm @ [\<lparr>mr_addr = b, mr_size = stack_size, mr_perms = PROT_READ OR PROT_WRITE, mr_type = MMAP, mr_is_translated = False\<rparr>]"
    using assms(1-3) pa by (simp add: mm_mmap_def find_free_region_def Let_def)
  have al: "T AND 15 = 0"
    using take_bit_add_aligned [of 4 b stack_size] assms(4) by (simp add: and_15 T_def) (simp add: stack_size_def flip: and_15)
  have T: "T AND NOT 15 = T" by (rule aligned_16 [OF al])
  have "stack_ok T mm' ?h ?h" unfolding T_def by (rule stack_ok_mapped [OF assms(5,6) m(2)])
  from build_stack_result [OF this al, of info path tls, folded n_def] obtain h' where
      h': "build_stack info path tls mm' T ?h = Some (slot T (n + 4), slot T n, h')" "holds T (final_words info tls T) h'"
      "stack_ok T mm' ?h h'"
      "length path < 48 \<longrightarrow> host_read h' (slot T (n + 10)) (length path + 1) = Some (path @ [0])" by blast
  have "T - of_nat (8 * stack_words) = b" "of_nat (8 * stack_words) = stack_size"
    by (simp_all add: T_def stack_size_def stack_words_def)
  with h'(3) have frame: "\<forall>a. \<not> in_range a b stack_size \<longrightarrow> h_byte h' a = h_byte h a \<and> h_prot h' a = h_prot h a"
    by (simp add: stack_ok_def in_stack_def host_map_def)
  have e: "setup_stack os info path tls mm h = Some (Some (slot T (n + 4), slot T n), mm', h')"
    using h'(1) m(1) T assms(3) by (simp add: setup_stack_def Let_def T_def)
  have sl: "slot T n = T - (if tls = 0 then 160 else 176)" "slot T (n + 4) = slot T n - 32" "slot T (n + 10) = slot T (n + 4) - 48"
    by (simp_all add: slot_def n_def)
  have w: "host_u64 h' (slot T i) = Some v" if "final_words info tls T i = Some v" for i v using h'(2) that by (simp add: holds_def)
  have up: "slot T (n + 4) + 8 = slot T (n + 3)" "slot T (n + 4) + 16 = slot T (n + 2)" "slot T (n + 4) + 24 = slot T (n + 1)"
    by (simp_all add: slot_def algebra_simps)
  have words: "host_u64 h' (slot T (n + 4)) = Some 1" "host_u64 h' (slot T (n + 4) + 8) = Some (slot T (n + 4) - 48)"
      "host_u64 h' (slot T (n + 4) + 16) = Some 0" "host_u64 h' (slot T (n + 4) + 24) = Some 0"
    unfolding up sl(3) [symmetric] by (rule w; simp add: final_words_def Let_def n_def)+
  have "entries_from (final_words info tls T) n ((if tls = 0 then [] else [(23, tls)]) @
      [(31, T - 224), (23, 0), (6, 4096), (16, 0xFFF), (9, ei_entry_point info),
       (3, ei_base_addr info + ei_phdr_offset info), (5, ucast (ei_phnum info))])"
    using final_words_entries(1) [where info = info and T = T] final_words_entries(2) [where info = info and T = T and tls = tls] by (simp add: n_def slot_def)
  from entries_in_memory [OF h'(2) this]
  have "auxv_at h' (slot T n) ((if tls = 0 then [] else [(23, tls)]) @
      [(31, T - 224), (23, 0), (6, 4096), (16, 0xFFF), (9, ei_entry_point info),
       (3, ei_base_addr info + ei_phdr_offset info), (5, ucast (ei_phnum info))])" .
  moreover have "slot T (n + 4) AND 15 = 0" by (rule slot_and_15 [OF al]) (simp add: n_def)
  ultimately show ?thesis
    using e words h'(4) frame unfolding guest_stack_def Let_def T_def [symmetric] sl(1) [symmetric] sl(2) [symmetric] sl(3) [symmetric] by blast
qed

text \<open>C19: The guest's initial stack.  When the system grants the mapping at the next free address (page
  aligned, with no region in the two megabytes above it), the stack pointer is 16-byte aligned and points
  to the argument count 1, the address of the first argument, the null words that end the arguments and
  the environment, and the auxiliary vector.  A guest that reads the vector up to its null entry sees the
  executable's name, the storage block if there is one, \<open>AT_SECURE\<close>, the page size, the hardware
  capabilities, the entry point and the program headers, but not \<open>AT_RANDOM\<close>: its 16 zero bytes lie below
  its entry and end the vector.  A name of less than 48 bytes is stored at the argument's address, 48 bytes
  below the stack pointer.  Memory outside the stack is unchanged.\<close>

theorem initial_stack:
  assumes "os_mmap os b stack_size (PROT_READ OR PROT_WRITE)" "mm_mmap_base mm = b" "b \<noteq> 0" "b AND 15 = 0"
    and "stack_free mm b" "unat b + 8 * stack_words < 2 ^ 64"
  shows "\<exists>mm' h'. let T = b + stack_size; auxv = T - (if tls = 0 then 160 else 176); sp = auxv - 32 in
    setup_stack os info path tls mm h = Some (Some (sp, auxv), mm', h') \<and> guest_stack info path tls T sp auxv h' \<and>
    (\<forall>a. \<not> in_range a b stack_size \<longrightarrow> h_byte h' a = h_byte h a \<and> h_prot h' a = h_prot h a)"
  by (rule setup_stack_result [OF assms])

theorem initial_stack_witness:
  "let os = \<lparr>os_mmap = (\<lambda>_ _ _. True), os_munmap = (\<lambda>_ _. 0), os_mprotect = (\<lambda>_ _ _. 0)\<rparr>;
       mm = MemoryManager_init\<lparr>mm_mmap_base := 0x70000000\<rparr>; h = \<lparr>h_byte = (\<lambda>_. 9), h_prot = (\<lambda>_. None)\<rparr>
   in \<exists>mm' h'. setup_stack os demo_info [0x61] 0 mm h = Some (Some (0x701FFF40, 0x701FFF60), mm', h') \<and>
        host_u64 h' 0x701FFF40 = Some 1 \<and> host_read h' 0x701FFF10 (Suc (Suc 0)) = Some [0x61, 0]"
  using initial_stack [of "\<lparr>os_mmap = (\<lambda>_ _ _. True), os_munmap = (\<lambda>_ _. 0), os_mprotect = (\<lambda>_ _ _. 0)\<rparr>" "0x70000000"
     "MemoryManager_init\<lparr>mm_mmap_base := 0x70000000\<rparr>" 0 demo_info "[0x61]" "\<lparr>h_byte = (\<lambda>_. 9), h_prot = (\<lambda>_. None)\<rparr>"]
  by (auto simp: guest_stack_def Let_def stack_size_def stack_free_def MemoryManager_init_def stack_words_def)

section \<open>From the file to the first instruction\<close>

text \<open>Loading leaves the next free address alone and adds the segments' regions.\<close>

definition seg_region :: "ELFProgramHeader list \<Rightarrow> MemRegion \<Rightarrow> bool" where
  "seg_region phs r \<longleftrightarrow> (\<exists>ph\<in>set phs. ph_type ph = PT_LOAD \<and> mr_addr r = seg_page ph \<and> mr_size r = seg_map_size ph)"

lemma set_perms_at_same: "\<forall>r\<in>set (set_perms_at a p rs). \<exists>r'\<in>set rs. mr_addr r = mr_addr r' \<and> mr_size r = mr_size r'"
  by (induction rs) auto

lemma mm_mmap_hint: "hint \<noteq> 0 \<Longrightarrow> mm_mmap os n prot hint mm h = (a, mm1, h1) \<Longrightarrow> mm_mmap_base mm1 = mm_mmap_base mm \<and>
    (\<forall>r\<in>set (mm_regions mm1). r \<in> set (mm_regions mm) \<or> mr_addr r = hint \<and> mr_size r = page_align n)"
  by (auto simp: mm_mmap_def Let_def split: if_splits)

lemma mm_mprotect_regions: "mm_mprotect os a n prot mm h = (x, mm1, h1) \<Longrightarrow> mm_mmap_base mm1 = mm_mmap_base mm \<and>
    (\<forall>r\<in>set (mm_regions mm1). \<exists>r'\<in>set (mm_regions mm). mr_addr r = mr_addr r' \<and> mr_size r = mr_size r')"
  using set_perms_at_same [of a prot "mm_regions mm"] by (auto simp: mm_mprotect_def Let_def)

lemma load_segment_mm:
  assumes "seg_ok data ph" "load_segment os data ph mm h = Some (ok, mm', h')"
  shows "mm_mmap_base mm' = mm_mmap_base mm \<and> (\<forall>r\<in>set (mm_regions mm').
    (\<exists>r'\<in>set (mm_regions mm). mr_addr r = mr_addr r' \<and> mr_size r = mr_size r') \<or>
    mr_addr r = seg_page ph \<and> mr_size r = seg_map_size ph)"
proof (cases "mm_mmap os (seg_map_size ph) (segment_prot ph OR PROT_WRITE) (seg_page ph) mm h")
  case (fields a mm1 h1)
  have "seg_page ph \<noteq> 0" using assms(1) by (simp add: seg_ok_def)
  from mm_mmap_hint [OF this fields] have 1: "mm_mmap_base mm1 = mm_mmap_base mm"
      "\<forall>r\<in>set (mm_regions mm1). r \<in> set (mm_regions mm) \<or> mr_addr r = seg_page ph \<and> mr_size r = seg_map_size ph"
    by (simp_all add: page_align_seg [OF assms(1)])
  from assms(2) consider "mm' = mm1" | x h2 h3 where "mm_mprotect os (seg_page ph) (seg_map_size ph) (segment_prot ph) mm1 h2 = (x, mm', h3)"
    by (auto simp: load_segment_def Let_def fields split: if_splits Option.bind_splits prod.splits)
  then show ?thesis
  proof cases
    case 1
    with \<open>mm_mmap_base mm1 = mm_mmap_base mm\<close> fields show ?thesis using 1 mm_mmap_hint [OF \<open>seg_page ph \<noteq> 0\<close> fields]
      by (auto simp: page_align_seg [OF assms(1)])
  next
    case 2
    from mm_mprotect_regions [OF 2] 1 show ?thesis by (metis (no_types, lifting))
  qed
qed

lemma load_segments_mm:
  "segs_ok data phs \<Longrightarrow> load_segments os data phs mm h = Some (ok, mm', h') \<Longrightarrow>
   mm_mmap_base mm' = mm_mmap_base mm \<and> (\<forall>r\<in>set (mm_regions mm').
     (\<exists>r'\<in>set (mm_regions mm). mr_addr r = mr_addr r' \<and> mr_size r = mr_size r') \<or> seg_region phs r)"
proof (induction phs arbitrary: mm h)
  case (Cons ph phs)
  show ?case
  proof (cases "ph_type ph = PT_LOAD")
    case True
    with Cons.prems(1) have so: "seg_ok data ph" "segs_ok data phs" by simp_all
    from True Cons.prems(2) obtain ok1 mm1 h1 where l: "load_segment os data ph mm h = Some (ok1, mm1, h1)"
        "(if ok1 then load_segments os data phs mm1 h1 else Some (False, mm1, h1)) = Some (ok, mm', h')"
      by (auto split: Option.bind_splits if_splits)
    note 1 = load_segment_mm [OF so(1) l(1)]
    show ?thesis
    proof (cases ok1)
      case True
      with Cons.IH [OF so(2)] l(2) have "mm_mmap_base mm' = mm_mmap_base mm1 \<and> (\<forall>r\<in>set (mm_regions mm').
          (\<exists>r'\<in>set (mm_regions mm1). mr_addr r = mr_addr r' \<and> mr_size r = mr_size r') \<or> seg_region phs r)" by simp
      with 1 \<open>ph_type ph = PT_LOAD\<close> show ?thesis unfolding seg_region_def list.set by (metis insertCI)
    next
      case False
      with 1 l(2) \<open>ph_type ph = PT_LOAD\<close> show ?thesis by (auto simp: seg_region_def)
    qed
  next
    case False
    with Cons.IH Cons.prems have "mm_mmap_base mm' = mm_mmap_base mm \<and> (\<forall>r\<in>set (mm_regions mm').
        (\<exists>r'\<in>set (mm_regions mm). mr_addr r = mr_addr r' \<and> mr_size r = mr_size r') \<or> seg_region phs r)" by simp
    then show ?thesis by (fastforce simp: seg_region_def)
  qed
qed auto

definition avoids_stack :: "u64 \<Rightarrow> ELFProgramHeader \<Rightarrow> bool" where
  "avoids_stack b ph \<longleftrightarrow> unat (seg_page ph) + unat (seg_map_size ph) \<le> unat b \<or> unat b + 8 * stack_words \<le> unat (seg_page ph)"

lemma in_stack_bounds:
  assumes "in_range a b stack_size" "unat b + 8 * stack_words < 2 ^ 64"
  shows "unat b \<le> unat a" "unat a < unat b + 8 * stack_words"
proof -
  have d: "unat (a - b) < 8 * stack_words"
    using assms(1) by (simp add: in_range_def word_less_nat_alt stack_size_def stack_words_def)
  have "unat (b + (a - b)) = unat b + unat (a - b)" using d assms(2) by (subst unat_plus_if') simp
  with d show "unat b \<le> unat a" "unat a < unat b + 8 * stack_words" by simp_all
qed

lemma seg_avoids_stack:
  assumes "seg_ok data ph" "avoids_stack b ph" "unat b + 8 * stack_words < 2 ^ 64" "in_seg ph a"
  shows "\<not> in_range a b stack_size"
  using in_stack_bounds [of a b] in_seg_bounds [OF assms(1,4)] assms(2,3) unfolding avoids_stack_def by linarith

text \<open>A static executable that is loaded: its image is in memory, and the next free address is free for the stack.\<close>

lemma elf_load_static:
  assumes "os_grants os" "map_file path = Some data" "elf_header_ok data" "elf_table_ok data" "segs_ok data (elf_phdrs data)"
    and "mm_regions mm = []" "\<forall>ph\<in>set (elf_phdrs data). ph_type ph = PT_LOAD \<longrightarrow> avoids_stack (mm_mmap_base mm) ph"
  obtains info mm' h' where "elf_load os map_file path ELFInfo_any [] mm h = Some (True, info, elf_phdrs data, mm', h')"
    "parsed data ELFInfo_any info" "\<forall>ph\<in>set (elf_phdrs data). ph_type ph = PT_LOAD \<longrightarrow> seg_image data ph h'"
    "mm_mmap_base mm' = mm_mmap_base mm" "stack_free mm' (mm_mmap_base mm)"
proof -
  from parse_accepts [OF assms(3,4), of ELFInfo_any "[]"] obtain info
    where i: "parse data ELFInfo_any [] = Some (True, info, elf_phdrs data)" "parsed data ELFInfo_any info" by blast
  from load_segments_image [OF assms(1,5), of mm h] obtain mm' h' where l: "load_segments os data (elf_phdrs data) mm h = Some (True, mm', h')"
      "\<forall>ph\<in>set (elf_phdrs data). ph_type ph = PT_LOAD \<longrightarrow> seg_image data ph h'" by blast
  note m = load_segments_mm [OF assms(5) l(1)]
  have "\<forall>r\<in>set (mm_regions mm'). seg_region (elf_phdrs data) r" using m assms(6) by simp
  with assms(7) have "stack_free mm' (mm_mmap_base mm)"
    unfolding stack_free_def list_all_iff seg_region_def avoids_stack_def by metis
  moreover have "elf_load os map_file path ELFInfo_any [] mm h = Some (True, info, elf_phdrs data, mm', h')"
    using assms(2) i(1) l(1) by (simp add: elf_load_def)
  ultimately show thesis using that i(2) l(2) m by blast
qed

text \<open>C10: From the file to the first instruction.  For a static ARM64 executable whose headers and segments
  lie inside the file, and whose segments lie on pages of their own, away from page 0 and from the stack,
  on a system that grants the mappings: the program runs the engine from the file's entry point and exits
  with 0 when that run comes back.  The engine starts with a well-formed context, its stack pointer at the
  initial stack, x0 at the auxiliary vector, and every segment of the executable in memory.\<close>

theorem main_runs:
  fixes E :: "'k env"
  assumes "2 \<le> length argv" "env_arena E = Some arena" "env_pool E = Some pool" "os_grants (k_os (env_kernel E))"
    and elf: "env_map_file E (argv ! 1) = Some data" "elf_header_ok data" "elf_table_ok data" "segs_ok data (elf_phdrs data)"
    and stat: "\<forall>ph\<in>set (elf_phdrs data). ph_type ph \<noteq> PT_DYNAMIC"
    and b: "b = arena + 2 ^ 31" "b \<noteq> 0" "b AND 15 = 0" "unat b + 8 * stack_words < 2 ^ 64"
    and away: "\<forall>ph\<in>set (elf_phdrs data). ph_type ph = PT_LOAD \<longrightarrow> avoids_stack b ph"
  shows "\<exists>info en. parsed data ELFInfo_any info \<and>
    bbarm64_main E argv k h = map_option (\<lambda>(n, en'). (0, Some (n, en', 0))) (run (env_cpu E) (env_kernel E) (file_u64 data 24) en) \<and>
    ctx_wf (en_ctx en) \<and> running (en_ctx en) \<and>
    ctx_sp (en_ctx en) = b + stack_size - 192 \<and> ctx_x (en_ctx en) ! 0 = b + stack_size - 160 \<and>
    guest_stack info (c_bytes (argv ! 1)) 0 (b + stack_size) (b + stack_size - 192) (b + stack_size - 160) (s_host (en_sys en)) \<and>
    (\<forall>ph\<in>set (elf_phdrs data). ph_type ph = PT_LOAD \<longrightarrow> seg_image data ph (s_host (en_sys en)))"
proof -
  let ?os = "k_os (env_kernel E)"
  define mm where "mm = MemoryManager_init\<lparr>mm_memory_size := total_size, mm_memory_base := arena, mm_mmap_base := b, mm_brk := b\<rparr>"
  define h0 where "h0 = host_map arena total_size (PROT_READ OR PROT_WRITE) h"
  have init: "mm_init (env_arena E) total_size MemoryManager_init h = (True, mm, h0)"
    using assms(2) b(1) by (simp add: mm_init_def mm_def h0_def total_size_def Let_def)
  have mm: "mm_regions mm = []" "mm_mmap_base mm = b" by (simp_all add: mm_def MemoryManager_init_def)
  from elf_load_static [where map_file = "env_map_file E" and path = "argv ! 1", OF assms(4) elf mm(1), of h0] away mm(2) obtain info mm1 h1
    where l: "elf_load ?os (env_map_file E) (argv ! 1) ELFInfo_any [] mm h0 = Some (True, info, elf_phdrs data, mm1, h1)"
      "parsed data ELFInfo_any info" "\<forall>ph\<in>set (elf_phdrs data). ph_type ph = PT_LOAD \<longrightarrow> seg_image data ph h1"
      "mm_mmap_base mm1 = b" "stack_free mm1 b" by auto
  have info: "\<not> ei_is_dynamic info" "ei_entry_point info = file_u64 data 24" using l(2) stat by (auto simp: parsed_def Let_def)
  have "os_mmap ?os b stack_size (PROT_READ OR PROT_WRITE)" using assms(4) by (simp add: os_grants_def)
  from setup_stack_result [OF this l(4) b(2,3) l(5) b(4), of 0 info "c_bytes (argv ! 1)" h1] obtain mm2 h2
    where st: "setup_stack ?os info (c_bytes (argv ! 1)) 0 mm1 h1 = Some (Some (b + stack_size - 192, b + stack_size - 160), mm2, h2)"
      "guest_stack info (c_bytes (argv ! 1)) 0 (b + stack_size) (b + stack_size - 192) (b + stack_size - 160) h2"
      "\<forall>a. \<not> in_range a b stack_size \<longrightarrow> h_byte h2 a = h_byte h1 a \<and> h_prot h2 a = h_prot h1 a"
    by (auto simp: Let_def)
  have img: "seg_image data ph h2" if "ph \<in> set (elf_phdrs data)" "ph_type ph = PT_LOAD" for ph
  proof (rule seg_image_cong)
    show "seg_image data ph h1" using l(3) that by blast
    fix a assume "in_seg ph a"
    moreover have "avoids_stack b ph" using away that by blast
    ultimately show "h_byte h2 a = h_byte h1 a \<and> h_prot h2 a = h_prot h1 a"
      using seg_avoids_stack [OF segs_ok_member [OF elf(4) that] _ b(4)] st(3) by blast
  qed
  obtain cache where c: "cache_init (env_pool E) (TranslationCache_init (unat (cache_entries (Config_load (env_getenv E))))) = (True, cache)"
    using assms(3) by (simp add: cache_init_def)
  let ?ctx = "initial_ctx info 0 (b + stack_size - 192) (b + stack_size - 160)"
  let ?en = "\<lparr>en_ctx = ?ctx, en_sys = \<lparr>s_mem = mm2, s_host = h2, s_k = k\<rparr>, en_cache = cache\<rparr>"
  have "ctx_pc ?ctx = file_u64 data 24" by (simp add: initial_ctx_def Let_def info)
  then have "bbarm64_main E argv k h = map_option (\<lambda>(n, en'). (0, Some (n, en', 0))) (run (env_cpu E) (env_kernel E) (file_u64 data 24) ?en)"
    using assms(1) l(1) st(1) info by (simp add: bbarm64_main_def Let_def init c main_tls_def)
  moreover have "ctx_wf ?ctx" "running ?ctx" "ctx_sp ?ctx = b + stack_size - 192" "ctx_x ?ctx ! 0 = b + stack_size - 160"
    by (simp_all add: initial_ctx_def CPUContext_init_def ctx_wf_def running_def)
  ultimately show ?thesis using l(2) st(2) img by (intro exI [of _ info] exI [of _ ?en]) simp
qed

definition demo_env :: "unit env" where
  "demo_env = \<lparr>env_getenv = (\<lambda>_. None), env_arena = Some 0x10000000, env_pool = Some 0x20000000,
     env_map_file = (\<lambda>_. Some demo_elf), env_set_fs = (\<lambda>_. 0), env_cpu = (\<lambda>_ ctx h. (True, ctx, h)),
     env_kernel = \<lparr>k_syscall = (\<lambda>_ _ k h. (0, k, h)), k_read = (\<lambda>_ _ k. (Inl 0, k)), k_write = (\<lambda>_ _ k. (0, k)),
       k_gettid = (\<lambda>_. 1), k_malloc = (\<lambda>_. True),
       k_os = \<lparr>os_mmap = (\<lambda>_ _ _. True), os_munmap = (\<lambda>_ _. 0), os_mprotect = (\<lambda>_ _ _. 0)\<rparr>\<rparr>\<rparr>"

theorem main_runs_witness:
  "\<exists>en. bbarm64_main demo_env [''bbarm64'', ''demo''] () \<lparr>h_byte = (\<lambda>_. 9), h_prot = (\<lambda>_. None)\<rparr> =
      map_option (\<lambda>(n, en'). (0, Some (n, en', 0))) (run (env_cpu demo_env) (env_kernel demo_env) 0x400010 en) \<and>
    ctx_sp (en_ctx en) = 0x901FFF40 \<and> seg_image demo_elf demo_phdr (s_host (en_sys en))"
proof -
  have "\<forall>ph\<in>set (elf_phdrs demo_elf). ph_type ph \<noteq> PT_DYNAMIC" "ph_type demo_phdr = PT_LOAD"
    unfolding demo_elf_ok by (simp_all add: demo_phdr_def elf_defs)
  moreover have "\<forall>ph\<in>set (elf_phdrs demo_elf). ph_type ph = PT_LOAD \<longrightarrow> avoids_stack 0x90000000 ph"
    unfolding demo_elf_ok by (simp add: avoids_stack_def demo_phdr_def seg_page_def seg_map_size_def seg_offset_def)
  moreover have "segs_ok demo_elf (elf_phdrs demo_elf)" unfolding demo_elf_ok(3) by (rule demo_elf_ok(4))
  ultimately show ?thesis
    using main_runs [of "[''bbarm64'', ''demo'']" demo_env "0x10000000" "0x20000000" demo_elf "0x90000000" "()"
       "\<lparr>h_byte = (\<lambda>_. 9), h_prot = (\<lambda>_. None)\<rparr>"] demo_elf_ok(1,2)
    by (auto simp: demo_env_def os_grants_def stack_words_def stack_size_def demo_fields demo_elf_ok(3))
qed

text \<open>When it does not run.  Without an executable among the arguments, without the arena or the code
  pool, or with a file that cannot be mapped or is not an ARM64 executable, the exit code is 1 and the
  engine does not run.\<close>

theorem main_rejects:
  assumes "length argv < 2 \<or> env_arena E = None \<or> env_pool E = None \<or>
    (case env_map_file E (argv ! 1) of None \<Rightarrow> True | Some data \<Rightarrow> \<not> elf_header_ok data)"
  shows "bbarm64_main E argv k h = Some (1, None)"
proof -
  have "parse data info phdrs = Some (False, info, phdrs)" if "\<not> elf_header_ok data" for data info phdrs
    using that by (auto simp: parse_def elf_header_ok_def field_def sizeof_Ehdr_def)
  with assms show ?thesis
    by (auto simp: bbarm64_main_def Let_def elf_load_def mm_init_def cache_init_def split: option.splits)
qed

theorem main_rejects_witness:
  "bbarm64_main demo_env [''bbarm64''] () \<lparr>h_byte = (\<lambda>_. 9), h_prot = (\<lambda>_. None)\<rparr> = Some (1, None)"
  by (rule main_rejects) simp

end
