(* ===== verification/Spec2Isabelle.thy ===== *)
theory Spec2Isabelle
  imports Jit_Calls Jit_Branch Program
begin

text \<open>
  \<^bold>\<open>A verification of bbarm64, a dynamic binary translator from ARM64 to x86-64.\<close>

  \<^bold>\<open>The program.\<close>  \<^verbatim>\<open>src/src/main.cpp\<close> reads the configuration, maps an arena and a code pool, loads an ARM64
  ELF executable into the process, builds the guest's initial stack and context and runs the execution
  engine (\<^verbatim>\<open>core/exec_engine.cpp\<close>).  The engine repeats: look up the block at the guest's pc in the translation
  cache (\<^verbatim>\<open>cache/\<close>); if there is none, answer a system call (\<^verbatim>\<open>syscall/\<close>), or decode up to 64 instructions
  (\<^verbatim>\<open>decoder/\<close>), build and optimise their intermediate code (\<^verbatim>\<open>ir/\<close>), lower it to x86-64 machine code
  (\<^verbatim>\<open>backend/\<close>) and put it in the cache, or else interpret one instruction; then call the code.  Guest memory is
  the process's own memory, guarded by the memory manager (\<^verbatim>\<open>core/memory_manager.cpp\<close>).

  \<^bold>\<open>Conventions.\<close>  A C++ object is a record, its methods are functions on the record; integers are words of
  their width.  \<^const>\<open>None\<close> is undefined behaviour or a fault (an index out of range, an access to unmapped
  memory, a signed overflow); an answer \<open>false\<close> of the code is a value.  What is not in the repository is a
  parameter: the host kernel (\<open>kernel\<close>, \<open>os\<close>), the host processor (\<open>host_cpu\<close>), mapped files, the environment.
  Diagnostic output is left out everywhere.

  \<^bold>\<open>Theories.\<close>
  \<^item> \<open>Prelude\<close>: word types, little-endian encodings (collection \<open>le_simps\<close>), statement sequences.
  \<^item> \<open>Cpu_Context\<close> (\<^verbatim>\<open>core/cpu_context\<close>): the guest's registers and flags; loading register arrays.
  \<^item> \<open>Decoder\<close> (\<^verbatim>\<open>decoder/arm64_decoder.cpp\<close>): every decoding function; what whole instruction classes decode to,
    in which ranges the fields of decoded instructions lie and which opcodes are never produced.
  \<^item> \<open>Ir\<close> (\<^verbatim>\<open>ir/\<close>): intermediate code, builder, optimiser; what a block contains, what B, BL, ADRP and ADD words
    become, and that merging keeps the flag producer of every consumer.
  \<^item> \<open>Emitter\<close>, \<open>Regalloc\<close>, \<open>Lower\<close> (\<^verbatim>\<open>backend/\<close>): the emitter's buffer and instructions, the register
    allocator with its invariant over reachable states, the lowering of every opcode.
  \<^item> \<open>X86_Spec\<close>: a disassembler for the emitted subset, the reference the emitted bytes are read with.
  \<^item> \<open>X86_Exec\<close>: a reference machine for that subset and a semantics of the intermediate code; executing the
    bytes of a lowered block changes the context as the intermediate code says.  RET is not among these opcodes:
    it returns to its operand register in the semantics and to the field \<open>lr\<close> in the code.
  \<^item> \<open>Translation_Cache\<close> (\<^verbatim>\<open>cache/\<close>): lookup, insertion, eviction, invalidation, the code pool, blocks on disk,
    chaining; an abstract map as specification, and the history of operations for freshness.
  \<^item> \<open>Memory_Manager\<close> (\<^verbatim>\<open>core/memory_manager.cpp\<close>): the process's memory as bytes with protections, mappings,
    guarded accesses; the interface \<open>byte_memory\<close> (write then read) and its interpretation.
  \<^item> \<open>Syscalls\<close> (\<^verbatim>\<open>syscall/\<close>): the number table, dispatch and handlers.
  \<^item> \<open>Exec_Engine\<close> (\<^verbatim>\<open>core/exec_engine.cpp\<close>): interpreter, block translation, run loop, signal handler.
  \<^item> \<open>Engine_Run\<close>: the run as steps; termination, where the interpreter is defined, conditions, results
    of calls.
  \<^item> \<open>Code_Size\<close>: how many bytes the code of a guest instruction takes.
  \<^item> \<open>Jit_Correct\<close>: the translation of one block against the interpreter.
  \<^item> \<open>X86_Host\<close>: a reference host processor for the parameter \<open>host_cpu\<close>: it stores the context at an address,
    runs the block's bytes on the machine of \<open>X86_Exec\<close> and reads the context back.
  \<^item> \<open>Arm_Words\<close>: the architectural effect of the instruction words that translation keeps.
  \<^item> \<open>Jit_Run\<close>: stretches of translated code up to a system call; the interface \<open>block_simulation\<close> (a pass of the engine makes
    between one and \<open>max_instr\<close> steps of the interpreter and keeps the states related) and its interpretation.
  \<^item> \<open>Jit_Calls\<close>: complete runs, with the calls whose effect the translator's bytes cannot change, up to the exit;
    a second interpretation of \<open>block_simulation\<close>, over instructions and calls.
  \<^item> \<open>Jit_Branch\<close>: what the translated compare-and-branch instructions and RET do.
  \<^item> \<open>Elf_Loader\<close>, \<open>Dynlink\<close> (\<^verbatim>\<open>elf/\<close>): parsing and the image of a file in memory; libraries are placed as the
    loader would place them at biased addresses; relocation by the interface \<open>patch_loop\<close>, which extends
    \<open>byte_memory\<close> and is interpreted for both kinds of table.
  \<^item> \<open>Threads\<close> (\<^verbatim>\<open>threading/\<close>): the thread table as a vector whose growth leaves pointers to its
    entries dangling; starting and ending a thread; storage blocks.
  \<^item> \<open>Util\<close> (\<^verbatim>\<open>util/\<close>): configuration, log levels, profiler.
  \<^item> \<open>Program\<close> (\<^verbatim>\<open>main.cpp\<close>): the initial stack and the program from the file to the first instruction.

  \<^bold>\<open>How the main theorems fit together.\<close>  \<open>Program.main_runs\<close> takes a file to an engine whose memory holds the
  file's segments (\<open>Elf_Loader.elf_load_image\<close> is the loader's part) and the initial stack.
  \<open>Engine_Run.run_outcome\<close> says that the engine's loop ends, and how.  For the blocks that are translated,
  \<open>Lower.lower_block_reads_back\<close> reads the machine code back, \<open>X86_Exec.lowered_block_executes\<close> executes it, and
  \<open>Jit_Correct.translate_block_refines_interpreter\<close> equates this with the interpreter for straight-line code with
  immediate operands, optionally ended by a forward branch.  \<open>Jit_Run.passes_refine_interpreter\<close> lifts this to
  the run loop: cache hits, insertions, evictions, an exhausted code pool and the fall back to interpretation
  are all passes that simulate the interpreter, so a stretch of guest code up to a system call is executed as
  the interpreter executes it.  \<open>Arm_Words.decode_execute_architectural\<close> equates decoding and interpreting with
  the architecture, and \<open>Jit_Calls.run_follows_architecture\<close> composes everything with the system calls: a guest
  of these words that reads, writes and reaches \<open>exit\<close> makes \<open>run\<close> return with its status, its output and its
  memory; \<open>Jit_Calls.run_stops_spinning\<close> is the other end, a guest that does not.  The instruction classes outside these theorems are those where the translated code and the
  interpreter differ or the code generator is wrong; \<open>Jit_Branch\<close> and the theorems on the decoder, on the
  intermediate code and on the read-back bytes say how; RET is one of them, since the translated code returns to the
  field \<open>lr\<close>, which nothing in a run updates.

  \<^bold>\<open>Bounds and fuel.\<close>  The disassembler and the reference machine take as fuel the length of the code, enough
  because every instruction has at least one byte; the reference processor takes 4096, the size of a block's
  memory.  A block has at most 64 instructions (\<open>max_instr\<close>).  The emitter drops what does not fit, so the
  theorems on lowering ask for room; \<open>Jit_Correct\<close> bounds the code of a block by \<open>block_bound\<close> (from \<open>Code_Size\<close>), and the
  theorem on one block asks that this be at most 4096.  The runs of \<open>Jit_Run\<close> and \<open>Jit_Calls\<close> need no such hypothesis:
  the largest blocks of their class are within it.  The run loop is total: it counts at most
  \<open>max_iter\<close> passes, and a pass that is not counted stops it.  The scan of a dynamic section is a partial
  function, since a section without an end is never left; it is proved to return on every section with an end.

  \<^bold>\<open>Not modelled.\<close>  Mutexes (every operation is one step) and the interleaving of threads inside a run; the
  text of messages, the clock, the installation of signal handlers; the Rust tree and the tests.  The
  floating-point state is kept as bytes.  The signed sums of \<open>build_instr\<close> (a pc and an offset) wrap, and
  \<open>host_protect\<close> changes exactly the range it is given, without rounding it to whole pages.

  \<^bold>\<open>Plan.\<close>  Next: calls that change the mappings or hand the whole address space to the host kernel inside a run;
  chained blocks, which the engine never asks for; the conditional branches and the loads and stores that are
  decoded correctly, for blocks that fall back to the interpreter.
\<close>

end
